(* ===== verification/Prelude.thy ===== *)
theory Prelude
  imports Main "HOL-Library.Word" "HOL-Library.Sublist" "HOL-Library.Monad_Syntax"
begin

text \<open>
  Shared vocabulary of the development: the types that stand for Go's byte strings, the run-time
  failures of slice indexing as \<open>option\<close> values, 64-bit integer wrap-around, and the generic
  lemmas on lists and options that the component theories use.
  A Go \<open>string\<close> and a Go \<open>[]byte\<close> are both sequences of bytes; both are modelled by \<open>char list\<close>,
  since a HOL character is exactly one byte.
\<close>

type_synonym byte = char
type_synonym bytes = "char list"
type_synonym rune = nat

text \<open>The numeric value of a byte.\<close>

abbreviation ord :: "byte \<Rightarrow> nat" where
  "ord c \<equiv> of_char c"

abbreviation ESC :: byte where
  "ESC \<equiv> CHR 0x1B"

text \<open>Collections: wf-style invariants, and evaluation of Go's library functions.\<close>

named_theorems wf_intros \<open>operations that keep a component's well-formedness invariant\<close>
named_theorems go_eval \<open>equations that evaluate the model of Go's standard library\<close>

section \<open>Go's int: 64-bit two's complement\<close>

definition i64 :: "int \<Rightarrow> int" where
  "i64 n = signed_take_bit 63 n"

lemma i64_id [simp]: "- 9223372036854775808 \<le> n \<Longrightarrow> n < 9223372036854775808 \<Longrightarrow> i64 n = n"
  by (simp add: i64_def signed_take_bit_int_eq_self_iff)

lemma i64_lower: "- 9223372036854775808 \<le> i64 n"
  using signed_take_bit_int_greater_eq_minus_exp [of 63 n] by (simp add: i64_def)

lemma i64_upper: "i64 n < 9223372036854775808"
  using signed_take_bit_int_less_exp [of 63 n] by (simp add: i64_def)

section \<open>Slices: indexing and assignment panic out of range\<close>

text \<open>
  \<open>idx xs i\<close> is Go's \<open>xs[i]\<close> and \<open>upd xs i v\<close> is \<open>xs[i] = v\<close>; \<open>None\<close> is the run-time panic
  "index out of range".
\<close>

definition idx :: "'a list \<Rightarrow> int \<Rightarrow> 'a option" where
  "idx xs i = (if 0 \<le> i \<and> i < int (length xs) then Some (xs ! nat i) else None)"

definition upd :: "'a list \<Rightarrow> int \<Rightarrow> 'a \<Rightarrow> 'a list option" where
  "upd xs i v = (if 0 \<le> i \<and> i < int (length xs) then Some (xs[nat i := v]) else None)"

lemma idx_Some_iff: "idx xs i = Some x \<longleftrightarrow> 0 \<le> i \<and> i < int (length xs) \<and> x = xs ! nat i"
  by (auto simp: idx_def)

lemma idx_None_iff: "idx xs i = None \<longleftrightarrow> i < 0 \<or> int (length xs) \<le> i"
  by (auto simp: idx_def)

lemma idx_in [simp]: "0 \<le> i \<Longrightarrow> i < int (length xs) \<Longrightarrow> idx xs i = Some (xs ! nat i)"
  by (simp add: idx_def)

lemma upd_in [simp]: "0 \<le> i \<Longrightarrow> i < int (length xs) \<Longrightarrow> upd xs i v = Some (xs[nat i := v])"
  by (simp add: upd_def)

lemma upd_Some_iff:
  "upd xs i v = Some ys \<longleftrightarrow> 0 \<le> i \<and> i < int (length xs) \<and> ys = xs[nat i := v]"
  by (auto simp: upd_def)

lemma upd_length: "upd xs i v = Some ys \<Longrightarrow> length ys = length xs"
  by (auto simp: upd_Some_iff)

lemma upd_set: "upd xs i v = Some ys \<Longrightarrow> set ys \<subseteq> insert v (set xs)"
  by (auto simp: upd_Some_iff dest: set_update_subset_insert [THEN subsetD])

section \<open>Lists\<close>

text \<open>Keep the last \<open>n\<close> elements: \<open>xs[len(xs)-n:]\<close> when the list is longer than \<open>n\<close>.\<close>

definition keep_last :: "nat \<Rightarrow> 'a list \<Rightarrow> 'a list" where
  "keep_last n xs = (if length xs > n then drop (length xs - n) xs else xs)"

lemma keep_last_length [simp]: "length (keep_last n xs) = min n (length xs)"
  by (auto simp: keep_last_def)

lemma keep_last_suffix: "suffix (keep_last n xs) xs"
  by (simp add: keep_last_def suffix_drop)

lemma keep_last_set: "set (keep_last n xs) \<subseteq> set xs"
  by (metis keep_last_suffix set_mono_suffix)

lemma keep_last_id [simp]: "length xs \<le> n \<Longrightarrow> keep_last n xs = xs"
  by (simp add: keep_last_def)

lemma suffix_conv_drop: "suffix xs ys \<longleftrightarrow> xs = drop (length ys - length xs) ys"
proof
  assume "suffix xs ys"
  then obtain zs where "ys = zs @ xs" by (auto simp: suffix_def)
  then show "xs = drop (length ys - length xs) ys" by simp
next
  assume "xs = drop (length ys - length xs) ys"
  then show "suffix xs ys" by (metis suffix_drop)
qed

lemma suffix_snoc: "suffix xs ys \<Longrightarrow> suffix (xs @ zs) (ys @ zs)"
  by (simp add: suffix_def)

lemma suffix_trans_append: "suffix a (b @ c) \<Longrightarrow> suffix b d \<Longrightarrow> suffix a (d @ c)"
  by (metis suffix_order.trans suffix_snoc)

section \<open>Maps as lists of entries\<close>

text \<open>
  A Go map that is iterated over, as the list of its entries with distinct keys. Go visits a map in an arbitrary order:
  a function that iterates takes the order as an argument.
\<close>

definition put_entry :: "('k \<times> 'v) list \<Rightarrow> 'k \<times> 'v \<Rightarrow> ('k \<times> 'v) list" where
  "put_entry es e = filter (\<lambda>x. fst x \<noteq> fst e) es @ [e]"

definition del_entry :: "'k \<Rightarrow> ('k \<times> 'v) list \<Rightarrow> ('k \<times> 'v) list" where
  "del_entry k es = filter (\<lambda>x. fst x \<noteq> k) es"

lemma map_of_filter_fst: "map_of (filter (\<lambda>x. fst x \<noteq> k') es) k = (if k = k' then None else map_of es k)"
  by (induction es) auto

lemma map_of_put_entry [simp]: "map_of (put_entry es e) = (map_of es)(fst e \<mapsto> snd e)"
  by (cases e) (auto simp: put_entry_def map_of_filter_fst map_add_def fun_eq_iff split: option.split)

lemma map_of_del_entry [simp]: "map_of (del_entry k es) = (map_of es)(k := None)"
  by (auto simp: del_entry_def map_of_filter_fst fun_eq_iff)

lemma distinct_put_entry [simp]: "distinct (map fst es) \<Longrightarrow> distinct (map fst (put_entry es e))"
  by (auto simp: put_entry_def distinct_map_filter)

lemma distinct_del_entry [simp]: "distinct (map fst es) \<Longrightarrow> distinct (map fst (del_entry k es))"
  by (auto simp: del_entry_def distinct_map_filter)

lemma set_del_entry [simp]: "set (del_entry k es) = {x \<in> set es. fst x \<noteq> k}"
  by (auto simp: del_entry_def)

lemma set_put_entry [simp]: "set (put_entry es e) = insert e {x \<in> set es. fst x \<noteq> fst e}"
  by (auto simp: put_entry_def)

section \<open>Option values as computations that may panic\<close>

lemma bind_Some_conv: "Option.bind m f = Some y \<longleftrightarrow> (\<exists>x. m = Some x \<and> f x = Some y)"
  by (cases m) auto

lemma bind_None_conv: "Option.bind m f = None \<longleftrightarrow> m = None \<or> (\<exists>x. m = Some x \<and> f x = None)"
  by (cases m) auto

lemma bind_assoc_fold: "Option.bind (Option.bind m f) g = Option.bind m (\<lambda>x. Option.bind (f x) g)"
  by (cases m) auto

text \<open>Run a list of inputs through a step that may panic.\<close>

fun run_steps :: "('s \<Rightarrow> 'i \<Rightarrow> 's option) \<Rightarrow> 's \<Rightarrow> 'i list \<Rightarrow> 's option" where
  "run_steps f s [] = Some s"
| "run_steps f s (x # xs) = Option.bind (f s x) (\<lambda>s'. run_steps f s' xs)"

lemma run_steps_append:
  "run_steps f s (xs @ ys) = Option.bind (run_steps f s xs) (\<lambda>s'. run_steps f s' ys)"
  by (induction xs arbitrary: s) (auto simp: bind_assoc_fold)

lemma run_steps_invariant:
  assumes "run_steps f s xs = Some t" and "P s"
    and "\<And>s x t. P s \<Longrightarrow> f s x = Some t \<Longrightarrow> P t"
  shows "P t"
  using assms(1,2)
  by (induction xs arbitrary: s) (auto simp: bind_Some_conv intro: assms(3))

end
