(* ===== verification/GoStrings.thy ===== *)
theory GoStrings
  imports Prelude
begin

text \<open>
  The functions of Go's standard library (\<open>strings\<close>, \<open>bytes\<close>, \<open>strconv\<close>, \<open>unicode/utf8\<close>) that the
  program calls, on byte sequences. They are translations of documented library behaviour, not of
  files under src/, so no entry of the source map names them.
\<close>

section \<open>Prefixes, suffixes, searching\<close>

definition has_prefix :: "bytes \<Rightarrow> bytes \<Rightarrow> bool" where
  "has_prefix s p \<longleftrightarrow> take (length p) s = p"

definition has_suffix :: "bytes \<Rightarrow> bytes \<Rightarrow> bool" where
  "has_suffix s p \<longleftrightarrow> length p \<le> length s \<and> drop (length s - length p) s = p"

definition trim_prefix :: "bytes \<Rightarrow> bytes \<Rightarrow> bytes" where
  "trim_prefix s p = (if has_prefix s p then drop (length p) s else s)"

definition trim_suffix :: "bytes \<Rightarrow> bytes \<Rightarrow> bytes" where
  "trim_suffix s p = (if has_suffix s p then take (length s - length p) s else s)"

lemma has_prefix_iff: "has_prefix s p \<longleftrightarrow> (\<exists>r. s = p @ r)"
  by (metis append_eq_conv_conj append_take_drop_id has_prefix_def)

lemma has_prefix_append [simp]: "has_prefix (p @ r) p"
  by (auto simp: has_prefix_iff)

lemma has_suffix_iff: "has_suffix s p \<longleftrightarrow> (\<exists>r. s = r @ p)"
  by (auto simp: has_suffix_def) (metis append_take_drop_id)

lemma has_suffix_append [simp]: "has_suffix (r @ p) p"
  by (auto simp: has_suffix_iff)

lemma trim_suffix_append [simp]: "trim_suffix (r @ p) p = r"
  by (simp add: trim_suffix_def)

fun index_byte :: "bytes \<Rightarrow> byte \<Rightarrow> nat option" where
  "index_byte [] c = None"
| "index_byte (x # xs) c = (if x = c then Some 0 else map_option Suc (index_byte xs c))"

lemma index_byte_None [simp]: "index_byte s c = None \<longleftrightarrow> c \<notin> set s"
  by (induction s) auto

lemma index_byte_append [simp]: "c \<notin> set a \<Longrightarrow> index_byte (a @ c # b) c = Some (length a)"
  by (induction a) auto

lemma index_byte_Some:
  "index_byte s c = Some i \<Longrightarrow> i < length s \<and> s ! i = c \<and> c \<notin> set (take i s)"
  by (induction s arbitrary: i) (auto split: if_splits)

fun contains_sub :: "bytes \<Rightarrow> bytes \<Rightarrow> bool" where
  "contains_sub [] sub = (sub = [])"
| "contains_sub (x # xs) sub = (has_prefix (x # xs) sub \<or> contains_sub xs sub)"

fun index_sub :: "bytes \<Rightarrow> bytes \<Rightarrow> nat option" where
  "index_sub [] sub = (if sub = [] then Some 0 else None)"
| "index_sub (x # xs) sub =
     (if has_prefix (x # xs) sub then Some 0 else map_option Suc (index_sub xs sub))"

text \<open>\<open>strings.LastIndex\<close>.\<close>

fun last_index :: "bytes \<Rightarrow> bytes \<Rightarrow> nat option" where
  "last_index [] sub = (if sub = [] then Some 0 else None)"
| "last_index (x # xs) sub =
     (case last_index xs sub of
        Some i \<Rightarrow> Some (Suc i)
      | None \<Rightarrow> if has_prefix (x # xs) sub then Some 0 else None)"

text \<open>\<open>ReplaceAll(s, old, nil)\<close>: every non-overlapping occurrence of \<open>old\<close> is dropped. For an empty
  \<open>old\<close> Go inserts the (empty) replacement between runes, so the text is unchanged.\<close>

function remove_all :: "bytes \<Rightarrow> bytes \<Rightarrow> bytes" where
  "remove_all s old =
     (case s of [] \<Rightarrow> []
      | x # xs \<Rightarrow> if old \<noteq> [] \<and> has_prefix s old then remove_all (drop (length old) s) old
                  else x # remove_all xs old)"
  by pat_completeness auto
termination
  by (relation "measure (\<lambda>(s, old). length s)") auto

declare remove_all.simps [simp del]

text \<open>\<open>strings.ReplaceAll\<close> with a non-empty \<open>old\<close>.\<close>

function replace_all :: "bytes \<Rightarrow> bytes \<Rightarrow> bytes \<Rightarrow> bytes" where
  "replace_all s old new =
     (case s of [] \<Rightarrow> []
      | x # xs \<Rightarrow> if old \<noteq> [] \<and> has_prefix s old
                  then new @ replace_all (drop (length old) s) old new
                  else x # replace_all xs old new)"
  by pat_completeness auto
termination
  by (relation "measure (\<lambda>(s, old, new). length s)") auto

declare replace_all.simps [simp del]

lemma contains_sub_single [simp]: "contains_sub s [c] \<longleftrightarrow> c \<in> set s"
  by (induction s) (auto simp: has_prefix_def)

lemma remove_all_single: "remove_all s [c] = filter (\<lambda>x. x \<noteq> c) s"
  by (induction s) (simp_all add: remove_all.simps [of _ "[c]"] has_prefix_def)

section \<open>Splitting and joining\<close>

fun split_on :: "byte \<Rightarrow> bytes \<Rightarrow> bytes list" where
  "split_on c [] = [[]]"
| "split_on c (x # xs) =
     (if x = c then [] # split_on c xs
      else (case split_on c xs of [] \<Rightarrow> [[x]] | w # ws \<Rightarrow> (x # w) # ws))"

lemma split_on_not_Nil [simp]: "split_on c s \<noteq> []"
  by (induction s) (auto split: list.splits)

lemma split_on_word: "c \<notin> set w \<Longrightarrow> split_on c w = [w]"
  by (induction w) auto

lemma split_on_sep: "c \<notin> set w \<Longrightarrow> split_on c (w @ c # s) = w # split_on c s"
  by (induction w) auto

fun split_n :: "byte \<Rightarrow> nat \<Rightarrow> bytes \<Rightarrow> bytes list" where
  "split_n c 0 s = []"
| "split_n c (Suc 0) s = [s]"
| "split_n c (Suc (Suc k)) s =
     (case index_byte s c of
        None \<Rightarrow> [s]
      | Some i \<Rightarrow> take i s # split_n c (Suc k) (drop (Suc i) s))"

fun join :: "bytes \<Rightarrow> bytes list \<Rightarrow> bytes" where
  "join sep [] = []"
| "join sep [x] = x"
| "join sep (x # y # ys) = x @ sep @ join sep (y # ys)"

lemma join_Cons: "ys \<noteq> [] \<Longrightarrow> join sep (x # ys) = x @ sep @ join sep ys"
  by (cases ys) auto

lemma split_on_join:
  "ws \<noteq> [] \<Longrightarrow> (\<And>w. w \<in> set ws \<Longrightarrow> c \<notin> set w) \<Longrightarrow> split_on c (join [c] ws) = ws"
proof (induction ws)
  case (Cons w ws)
  then show ?case
    by (cases ws) (auto simp: split_on_word split_on_sep)
qed simp

section \<open>Trimming and fields\<close>

definition trim_right_set :: "bytes \<Rightarrow> bytes \<Rightarrow> bytes" where
  "trim_right_set s cset = rev (dropWhile (\<lambda>c. c \<in> set cset) (rev s))"

definition trim_left_set :: "bytes \<Rightarrow> bytes \<Rightarrow> bytes" where
  "trim_left_set s cset = dropWhile (\<lambda>c. c \<in> set cset) s"

lemma trim_right_set_snoc:
  "trim_right_set (s @ [c]) cset = (if c \<in> set cset then trim_right_set s cset else s @ [c])"
  by (simp add: trim_right_set_def)

lemma trim_right_set_id: "s = [] \<or> last s \<notin> set cset \<Longrightarrow> trim_right_set s cset = s"
  by (cases s rule: rev_cases) (auto simp: trim_right_set_def)

lemma trim_right_set_append_cut:
  "set t \<subseteq> set cset \<Longrightarrow> trim_right_set (s @ t) cset = trim_right_set s cset"
  by (induction t rule: rev_induct)
     (auto simp: trim_right_set_snoc simp flip: append_assoc)

text \<open>The byte length of a Unicode white-space character (\<open>unicode.IsSpace\<close>) at the head, else 0.\<close>

definition ascii_space :: "byte \<Rightarrow> bool" where
  "ascii_space c \<longleftrightarrow> (9 \<le> ord c \<and> ord c \<le> 13) \<or> ord c = (32::nat)"

definition wide_space :: "bytes \<Rightarrow> bool" where
  "wide_space s \<longleftrightarrow>
     s \<in> set [[CHR 0xE1, CHR 0x9A, CHR 0x80], [CHR 0xE2, CHR 0x80, CHR 0xA8],
       [CHR 0xE2, CHR 0x80, CHR 0xA9], [CHR 0xE2, CHR 0x80, CHR 0xAF],
       [CHR 0xE2, CHR 0x81, CHR 0x9F], [CHR 0xE3, CHR 0x80, CHR 0x80]]
     \<or> (take 2 s = [CHR 0xE2, CHR 0x80] \<and> length s = 3 \<and> 128 \<le> ord (s ! 2) \<and> ord (s ! 2) \<le> 138)"

fun space_len :: "bytes \<Rightarrow> nat" where
  "space_len [] = 0"
| "space_len (c # cs) =
     (if ascii_space c then 1
      else if c = CHR 0xC2 \<and> cs \<noteq> [] \<and> (hd cs = CHR 0x85 \<or> hd cs = CHR 0xA0) then 2
      else if wide_space (take 3 (c # cs)) then 3 else 0)"

lemma space_len_le: "space_len s \<le> length s"
  by (cases s) (auto simp: wide_space_def Suc_le_eq numeral_3_eq_3 dest: arg_cong [where f = length])

function trim_left :: "bytes \<Rightarrow> bytes" where
  "trim_left s = (if space_len s = 0 then s else trim_left (drop (space_len s) s))"
  by pat_completeness auto
termination
proof (relation "measure length", goal_cases)
  case (2 s)
  then show ?case by (cases s) (auto simp del: space_len.simps(2))
qed simp

declare trim_left.simps [simp del]

lemma trim_left_length: "length (trim_left s) \<le> length s"
proof (induction s rule: trim_left.induct)
  case (1 s)
  then show ?case by (subst trim_left.simps) auto
qed

lemma trim_left_id: "space_len s = 0 \<Longrightarrow> trim_left s = s"
  by (subst trim_left.simps) simp

text \<open>The byte length of a white-space character at the end of a text whose reverse is given.\<close>

fun space_len_rev :: "bytes \<Rightarrow> nat" where
  "space_len_rev [] = 0"
| "space_len_rev (c # cs) =
     (if ascii_space c then 1
      else if cs \<noteq> [] \<and> hd cs = CHR 0xC2 \<and> (c = CHR 0x85 \<or> c = CHR 0xA0) then 2
      else if wide_space (rev (take 3 (c # cs))) then 3 else 0)"

function trim_right_rev :: "bytes \<Rightarrow> bytes" where
  "trim_right_rev s = (if space_len_rev s = 0 then s else trim_right_rev (drop (space_len_rev s) s))"
  by pat_completeness auto
termination
proof (relation "measure length", goal_cases)
  case (2 s)
  then show ?case by (cases s) (auto simp del: space_len_rev.simps(2))
qed simp

declare trim_right_rev.simps [simp del]

definition trim_space :: "bytes \<Rightarrow> bytes" where
  "trim_space s = trim_left (rev (trim_right_rev (rev s)))"

fun take_word :: "bytes \<Rightarrow> bytes \<times> bytes" where
  "take_word [] = ([], [])"
| "take_word (c # cs) =
     (if space_len (c # cs) \<noteq> 0 then ([], c # cs)
      else (c # fst (take_word cs), snd (take_word cs)))"

lemma take_word_length: "length (snd (take_word s)) \<le> length s"
  by (induction s) auto

lemma take_word_decreases: "space_len s = 0 \<Longrightarrow> s \<noteq> [] \<Longrightarrow> length (snd (take_word s)) < length s"
  by (cases s) (auto simp: less_Suc_eq_le take_word_length simp del: space_len.simps)

lemma space_len_trim_left: "space_len (trim_left s) = 0"
proof (induction s rule: trim_left.induct)
  case (1 s)
  then show ?case by (cases "space_len s = 0") (simp_all add: trim_left.simps [of s])
qed

function fields :: "bytes \<Rightarrow> bytes list" where
  "fields s =
     (if trim_left s = [] then []
      else fst (take_word (trim_left s)) # fields (snd (take_word (trim_left s))))"
  by pat_completeness auto
termination
proof (relation "measure length", goal_cases)
  case (2 s)
  then show ?case
    using take_word_decreases [OF space_len_trim_left [of s] 2] trim_left_length [of s] by simp
qed simp

declare fields.simps [simp del]

lemma wide_space_high:
  "wide_space s \<Longrightarrow> \<forall>x \<in> set s. 128 \<le> (ord x :: nat)"
proof -
  assume w: "wide_space s"
  then have l: "length s = 3" by (auto simp: wide_space_def)
  then obtain a b c where "s = [a, b, c]" by (auto simp: numeral_3_eq_3 length_Suc_conv)
  with w show ?thesis by (auto simp: wide_space_def)
qed

lemma ascii_not_wide: "x \<in> set s \<Longrightarrow> ord x < (128::nat) \<Longrightarrow> \<not> wide_space s"
  using wide_space_high by fastforce

text \<open>Words of visible ASCII characters.\<close>

definition plain_char :: "byte \<Rightarrow> bool" where
  "plain_char c \<longleftrightarrow> 32 < (ord c :: nat) \<and> ord c < (128 :: nat)"

lemma space_len_plain: "plain_char c \<Longrightarrow> space_len (c # cs) = 0"
  using ascii_not_wide [of c "take 3 (c # cs)"] by (auto simp: plain_char_def ascii_space_def)

lemma take_word_plain:
  "list_all plain_char w \<Longrightarrow> rest = [] \<or> space_len rest \<noteq> 0 \<Longrightarrow> take_word (w @ rest) = (w, rest)"
proof (induction w)
  case Nil
  then show ?case by (cases rest) auto
next
  case (Cons c w)
  then show ?case using space_len_plain [of c "w @ rest"] by (simp del: space_len.simps)
qed

lemma fields_two:
  assumes "list_all plain_char a" "list_all plain_char b" "a \<noteq> []" "b \<noteq> []"
  shows "fields (a @ ''  '' @ b) = [a, b]"
proof -
  have sp: "space_len (CHR '' '' # cs) = 1" for cs by (simp add: ascii_space_def)
  obtain x xs y ys where xy: "a = x # xs" "b = y # ys" using assms by (meson neq_Nil_conv)
  have za: "space_len (a @ r) = 0" for r using assms(1) xy space_len_plain [of x "xs @ r"] by simp
  have zb: "space_len b = 0" using assms(2) xy space_len_plain [of y ys] by simp
  have t: "take_word (a @ ''  '' @ b) = (a, ''  '' @ b)" by (rule take_word_plain) (use assms sp in auto)
  have tb: "take_word b = (b, [])" using take_word_plain [OF assms(2), of "[]"] by simp
  have l: "trim_left (''  '' @ b) = b"
    using zb by (simp add: trim_left.simps [of "CHR '' '' # CHR '' '' # b"] trim_left.simps [of "CHR '' '' # b"] sp trim_left_id
        del: space_len.simps)
  have tl: "trim_left b = b" using zb by (rule trim_left_id)
  have r: "fields b = [b]"
    using tb tl assms(4) by (simp add: fields.simps [of b] fields.simps [of "[]"] trim_left.simps [of "[]"])
  have m: "fields (''  '' @ b) = [b]"
    using r l tl by (simp only: fields.simps [of "''  '' @ b"] fields.simps [of b])
  show ?thesis
    using za t assms(3) m
    by (simp add: fields.simps [of "a @ ''  '' @ b"] trim_left_id del: space_len.simps append.simps)
qed

section \<open>Letter case\<close>

text \<open>
  \<open>strings.ToLower\<close> and \<open>ToUpper\<close>. On a text with bytes from 128 up Go maps whole runes by the
  Unicode tables; that part of the library is the parameter \<open>uni\<close> of the functions that use it.
\<close>

definition is_ascii :: "bytes \<Rightarrow> bool" where
  "is_ascii s \<longleftrightarrow> list_all (\<lambda>c. ord c < (128::nat)) s"

definition lower_byte :: "byte \<Rightarrow> byte" where
  "lower_byte c = (if 65 \<le> ord c \<and> ord c \<le> (90::nat) then char_of (ord c + (32::nat)) else c)"

definition upper_byte :: "byte \<Rightarrow> byte" where
  "upper_byte c = (if 97 \<le> ord c \<and> ord c \<le> (122::nat) then char_of (ord c - (32::nat)) else c)"

definition to_lower :: "(bytes \<Rightarrow> bytes) \<Rightarrow> bytes \<Rightarrow> bytes" where
  "to_lower uni s = (if is_ascii s then map lower_byte s else uni s)"

definition to_upper :: "(bytes \<Rightarrow> bytes) \<Rightarrow> bytes \<Rightarrow> bytes" where
  "to_upper uni s = (if is_ascii s then map upper_byte s else uni s)"

section \<open>Numbers\<close>

definition is_digit :: "byte \<Rightarrow> bool" where
  "is_digit c \<longleftrightarrow> 48 \<le> ord c \<and> ord c \<le> (57::nat)"

definition digit_val :: "byte \<Rightarrow> nat option" where
  "digit_val c =
     (if is_digit c then Some (ord c - 48)
      else if 97 \<le> ord c \<and> ord c \<le> (122::nat) then Some (ord c - 87)
      else if 65 \<le> ord c \<and> ord c \<le> (90::nat) then Some (ord c - 55) else None)"

fun parse_digits :: "nat \<Rightarrow> nat \<Rightarrow> bytes \<Rightarrow> nat option" where
  "parse_digits base acc [] = Some acc"
| "parse_digits base acc (c # cs) =
     (case digit_val c of
        Some d \<Rightarrow> if d < base then parse_digits base (acc * base + d) cs else None
      | None \<Rightarrow> None)"

definition parse_uint :: "nat \<Rightarrow> nat \<Rightarrow> bytes \<Rightarrow> nat option" where
  "parse_uint base bits s =
     (if s = [] then None
      else (case parse_digits base 0 s of
              Some n \<Rightarrow> if n < 2 ^ bits then Some n else None
            | None \<Rightarrow> None))"

definition parse_int :: "nat \<Rightarrow> nat \<Rightarrow> bytes \<Rightarrow> int option" where
  "parse_int base bits s =
     (case s of
        [] \<Rightarrow> None
      | c # cs \<Rightarrow>
          (let neg = (c = CHR ''-''); body = (if c = CHR ''-'' \<or> c = CHR ''+'' then cs else s)
           in if body = [] then None
              else (case parse_digits base 0 body of
                      None \<Rightarrow> None
                    | Some n \<Rightarrow>
                        if neg then (if n \<le> 2 ^ (bits - 1) then Some (- int n) else None)
                        else (if n < 2 ^ (bits - 1) then Some (int n) else None))))"

definition atoi :: "bytes \<Rightarrow> int option" where
  "atoi s = parse_int 10 64 s"

fun show_nat :: "nat \<Rightarrow> bytes" where
  "show_nat n = (if n < 10 then [char_of (48 + n)] else show_nat (n div 10) @ [char_of (48 + n mod 10)])"

declare show_nat.simps [simp del]

definition show_int :: "int \<Rightarrow> bytes" where
  "show_int n = (if n < 0 then CHR ''-'' # show_nat (nat (- n)) else show_nat (nat n))"

lemma show_nat_not_Nil [simp]: "show_nat n \<noteq> []"
  by (subst show_nat.simps) simp

lemma parse_digits_append:
  "parse_digits b acc (xs @ ys) = Option.bind (parse_digits b acc xs) (\<lambda>a. parse_digits b a ys)"
  by (induction xs arbitrary: acc) (auto split: option.splits)

lemma digit_val_char_of: "(d::nat) < 10 \<Longrightarrow> digit_val (char_of (48 + d)) = Some d"
  by (simp add: digit_val_def is_digit_def)

lemma is_digit_char_of: "(d::nat) < 10 \<Longrightarrow> is_digit (char_of (48 + d))"
  by (simp add: is_digit_def)

lemma parse_show_nat: "parse_digits 10 0 (show_nat n) = Some n"
proof (induction n rule: show_nat.induct)
  case (1 n)
  show ?case
  proof (cases "n < 10")
    case True
    then show ?thesis by (subst show_nat.simps) (simp add: digit_val_char_of)
  next
    case False
    with 1 show ?thesis
      by (subst show_nat.simps) (simp add: parse_digits_append digit_val_char_of)
  qed
qed

lemma show_nat_inj: "show_nat a = show_nat b \<longleftrightarrow> a = b"
  using parse_show_nat [of a] parse_show_nat [of b] by (metis option.inject)

lemma show_nat_digits: "c \<in> set (show_nat n) \<Longrightarrow> is_digit c"
proof (induction n rule: show_nat.induct)
  case (1 n)
  then show ?case
    by (subst (asm) (2) show_nat.simps) (auto simp: is_digit_char_of split: if_splits)
qed

lemma not_digit_sign [simp]: "\<not> is_digit CHR ''-''" "\<not> is_digit CHR ''+''"
  by (simp_all add: is_digit_def)

lemma atoi_show_nat: "n < 2 ^ 63 \<Longrightarrow> atoi (show_nat n) = Some (int n)"
  using show_nat_digits [of "hd (show_nat n)" n] parse_show_nat [of n]
  by (cases "show_nat n") (auto simp: atoi_def parse_int_def Let_def)

end
