(* ===== verification/GoUtf8.thy ===== *)
theory GoUtf8
  imports GoStrings
begin

text \<open>
  UTF-8 as Go's \<open>unicode/utf8\<close> defines it: \<open>decode_rune\<close> is \<open>utf8.DecodeRune\<close> (an invalid sequence
  yields U+FFFD and consumes one byte), \<open>encode_rune\<close> is the conversion \<open>string(r)\<close>, \<open>runes_of\<close> the
  conversion \<open>[]rune(s)\<close>.
\<close>

definition rune_error :: rune where
  "rune_error = 65533"

definition is_cont :: "byte \<Rightarrow> bool" where
  "is_cont b \<longleftrightarrow> 128 \<le> ord b \<and> ord b < (192::nat)"

definition valid_rune :: "rune \<Rightarrow> bool" where
  "valid_rune r \<longleftrightarrow> r < 55296 \<or> (57344 \<le> r \<and> r < 1114112)"

definition decode2 :: "nat \<Rightarrow> bytes \<Rightarrow> rune \<times> nat" where
  "decode2 a s = (case s of
      b # _ \<Rightarrow> if is_cont b then ((a - 192) * 64 + (ord b - 128), 2) else (rune_error, 1)
    | [] \<Rightarrow> (rune_error, 1))"

definition decode3 :: "nat \<Rightarrow> bytes \<Rightarrow> rune \<times> nat" where
  "decode3 a s = (case s of
      b # c # _ \<Rightarrow>
        if is_cont b \<and> is_cont c \<and> (a = 224 \<longrightarrow> 160 \<le> ord b) \<and> (a = 237 \<longrightarrow> ord b < (160::nat))
        then ((a - 224) * 4096 + (ord b - 128) * 64 + (ord c - 128), 3) else (rune_error, 1)
    | _ \<Rightarrow> (rune_error, 1))"

definition decode4 :: "nat \<Rightarrow> bytes \<Rightarrow> rune \<times> nat" where
  "decode4 a s = (case s of
      b # c # d # _ \<Rightarrow>
        if is_cont b \<and> is_cont c \<and> is_cont d \<and> (a = 240 \<longrightarrow> 144 \<le> ord b) \<and> (a = 244 \<longrightarrow> ord b < (144::nat))
        then ((a - 240) * 262144 + (ord b - 128) * 4096 + (ord c - 128) * 64 + (ord d - 128), 4)
        else (rune_error, 1)
    | _ \<Rightarrow> (rune_error, 1))"

fun decode_rune :: "bytes \<Rightarrow> rune \<times> nat" where
  "decode_rune [] = (rune_error, 0)"
| "decode_rune (b # s) =
     (let a = ord b in
      if a < 128 then (a, 1)
      else if 194 \<le> a \<and> a < 224 then decode2 a s
      else if 224 \<le> a \<and> a < 240 then decode3 a s
      else if 240 \<le> a \<and> a < 245 then decode4 a s
      else (rune_error, 1))"

definition encode_valid :: "rune \<Rightarrow> bytes" where
  "encode_valid r =
     (if r < 128 then [char_of r]
      else if r < 2048 then [char_of (192 + r div 64), char_of (128 + r mod 64)]
      else if r < 65536 then
        [char_of (224 + r div 4096), char_of (128 + r div 64 mod 64), char_of (128 + r mod 64)]
      else [char_of (240 + r div 262144), char_of (128 + r div 4096 mod 64),
            char_of (128 + r div 64 mod 64), char_of (128 + r mod 64)])"

definition encode_rune :: "rune \<Rightarrow> bytes" where
  "encode_rune r = encode_valid (if valid_rune r then r else rune_error)"

lemma decode_size_pos: "s \<noteq> [] \<Longrightarrow> 0 < snd (decode_rune s)"
  by (cases s) (auto simp: Let_def decode2_def decode3_def decode4_def split: list.splits)

function runes_of :: "bytes \<Rightarrow> rune list" where
  "runes_of s = (if s = [] then [] else fst (decode_rune s) # runes_of (drop (snd (decode_rune s)) s))"
  by pat_completeness auto
termination
proof (relation "measure length", goal_cases)
  case (2 s)
  then show ?case using decode_size_pos [of s] by (cases s) (auto simp del: decode_rune.simps)
qed simp

declare runes_of.simps [simp del]

definition string_of_runes :: "rune list \<Rightarrow> bytes" where
  "string_of_runes rs = concat (map encode_rune rs)"

lemma ord_char_of [simp]: "(n::nat) < 256 \<Longrightarrow> ord (char_of n) = n"
  by simp

lemma is_cont_char_of [simp]: "(n::nat) < 64 \<Longrightarrow> is_cont (char_of (128 + n))"
  by (simp add: is_cont_def)

lemma decode_parts2:
  fixes p q :: nat
  assumes "p < 32" "2 \<le> p" "q < 64"
  shows "decode_rune (char_of (192 + p) # char_of (128 + q) # s) = (p * 64 + q, 2)"
  using assms by (simp add: Let_def decode2_def)

lemma decode_parts3:
  fixes p q t :: nat
  assumes "p < 16" "q < 64" "t < 64" "p = 0 \<longrightarrow> 32 \<le> q" "p = 13 \<longrightarrow> q < 32"
  shows "decode_rune (char_of (224 + p) # char_of (128 + q) # char_of (128 + t) # s)
           = (p * 4096 + q * 64 + t, 3)"
  using assms by (simp add: Let_def decode3_def)

lemma decode_parts4:
  fixes p q t u :: nat
  assumes "p < 5" "q < 64" "t < 64" "u < 64" "p = 0 \<longrightarrow> 16 \<le> q" "p = 4 \<longrightarrow> q < 16"
  shows "decode_rune (char_of (240 + p) # char_of (128 + q) # char_of (128 + t) # char_of (128 + u) # s)
           = (p * 262144 + q * 4096 + t * 64 + u, 4)"
  using assms by (simp add: Let_def decode4_def)

lemma base64_digits3: "(r::nat) div 4096 * 4096 + r div 64 mod 64 * 64 + r mod 64 = r"
proof -
  have "r div 4096 = r div 64 div 64" using div_mult2_eq [of r 64 64] by simp
  then show ?thesis using div_mult_mod_eq [of r 64] div_mult_mod_eq [of "r div 64" 64] by linarith
qed

lemma base64_digits4:
  "(r::nat) div 262144 * 262144 + r div 4096 mod 64 * 4096 + r div 64 mod 64 * 64 + r mod 64 = r"
proof -
  have "r div 262144 = r div 4096 div 64" using div_mult2_eq [of r 4096 64] by simp
  then show ?thesis using base64_digits3 [of r] div_mult_mod_eq [of "r div 4096" 64] by linarith
qed

lemma decode_encode2:
  assumes "128 \<le> r" "r < 2048"
  shows "decode_rune (char_of (192 + r div 64) # char_of (128 + r mod 64) # s) = (r, 2)"
proof -
  have "r div 64 < 32" "2 \<le> r div 64" using assms by auto
  then show ?thesis using decode_parts2 [of "r div 64" "r mod 64" s] by simp
qed

lemma decode_encode3:
  assumes "2048 \<le> r" "r < 65536" "valid_rune r"
  shows "decode_rune (char_of (224 + r div 4096) # char_of (128 + r div 64 mod 64)
           # char_of (128 + r mod 64) # s) = (r, 3)"
proof -
  have hi: "r div 4096 < 16" using assms by auto
  have lo: "r div 4096 = 0 \<longrightarrow> 32 \<le> r div 64 mod 64" using assms(1) base64_digits3 [of r] mod_less_divisor [of 64 r] by linarith
  have sur: "r div 4096 = 13 \<longrightarrow> r div 64 mod 64 < 32"
    using assms(3) base64_digits3 [of r] mod_less_divisor [of 64 r] mod_less_divisor [of 64 "r div 64"]
    unfolding valid_rune_def by linarith
  from decode_parts3 [OF hi _ _ lo sur, of "r mod 64" s] base64_digits3 [of r]
  show ?thesis by simp
qed

lemma decode_encode4:
  assumes "65536 \<le> r" "r < 1114112"
  shows "decode_rune (char_of (240 + r div 262144) # char_of (128 + r div 4096 mod 64)
           # char_of (128 + r div 64 mod 64) # char_of (128 + r mod 64) # s) = (r, 4)"
proof -
  have hi: "r div 262144 < 5" using assms by auto
  have lo: "r div 262144 = 0 \<longrightarrow> 16 \<le> r div 4096 mod 64"
    using assms(1) base64_digits4 [of r] mod_less_divisor [of 64 r] mod_less_divisor [of 64 "r div 64"] by linarith
  have up: "r div 262144 = 4 \<longrightarrow> r div 4096 mod 64 < 16"
    using assms(2) base64_digits4 [of r] by linarith
  from decode_parts4 [OF hi _ _ _ lo up, of "r div 64 mod 64" "r mod 64" s] base64_digits4 [of r]
  show ?thesis by simp
qed

text \<open>Round trip: decoding an encoded rune gives it back and consumes exactly its bytes.\<close>

lemma decode_encode:
  assumes "valid_rune r"
  shows "decode_rune (encode_rune r @ s) = (r, length (encode_rune r))"
proof -
  consider "r < 128" | "128 \<le> r" "r < 2048" | "2048 \<le> r" "r < 65536" | "65536 \<le> r" by linarith
  then show ?thesis
  proof cases
    case 1
    with assms show ?thesis by (simp add: encode_rune_def encode_valid_def Let_def)
  next
    case 2
    with assms show ?thesis
      by (simp add: encode_rune_def encode_valid_def decode_encode2 del: decode_rune.simps)
  next
    case 3
    with assms show ?thesis
      by (simp add: encode_rune_def encode_valid_def decode_encode3 del: decode_rune.simps)
  next
    case 4
    moreover have "r < 1114112" using 4 assms by (auto simp: valid_rune_def)
    ultimately show ?thesis using assms
      by (simp add: encode_rune_def encode_valid_def decode_encode4 del: decode_rune.simps)
  qed
qed

lemma encode_not_Nil [simp]: "encode_rune r \<noteq> []"
  by (simp add: encode_rune_def encode_valid_def)

lemma runes_of_encode:
  "valid_rune r \<Longrightarrow> runes_of (encode_rune r @ s) = r # runes_of s"
  by (subst runes_of.simps) (simp add: decode_encode)

lemma runes_of_string: "list_all valid_rune rs \<Longrightarrow> runes_of (string_of_runes rs) = rs"
  by (induction rs) (simp_all add: string_of_runes_def runes_of_encode runes_of.simps [of "[]"])

lemma encode_valid_high:
  "128 \<le> r \<Longrightarrow> r < 1114112 \<Longrightarrow> b \<in> set (encode_valid r) \<Longrightarrow> 128 \<le> (ord b :: nat)"
  by (auto simp: encode_valid_def of_char_of simp del: ord_char_of split: if_splits)

lemma encode_high: "128 \<le> r \<Longrightarrow> b \<in> set (encode_rune r) \<Longrightarrow> 128 \<le> (ord b :: nat)"
  using encode_valid_high [of r b] encode_valid_high [of rune_error b]
  by (auto simp: encode_rune_def valid_rune_def rune_error_def split: if_splits)

lemma encode_ascii [simp]: "r < 128 \<Longrightarrow> encode_rune r = [char_of r]"
  by (simp add: encode_rune_def encode_valid_def valid_rune_def)

declare decode_rune.simps [simp del]

end
