(* ===== verification/VT.thy ===== *)
theory VT
  imports GoUtf8
begin

unbundle bit_operations_syntax

text \<open>
  The screen model of \<open>internal/screen/vt.go\<close>: a VT100 subset fed with the raw output bytes of
  the child process, keeping a cell grid, a cursor, a scroll region and the scrolled-out history.
  The record fields are the Go fields with the prefix \<open>v_\<close>; a Go \<open>int\<close> is an \<open>int\<close>, with the 64-bit
  wrap-around of \<open>i64\<close> written where a parameter taken from the input takes part; \<open>None\<close> is the
  run-time panic \<open>index out of range\<close>. The display width of a rune is the third-party function
  \<open>runewidth.RuneWidth\<close>: it is the parameter \<open>rw\<close> of every definition that draws, documented to
  return 0, 1 or 2.
\<close>

section \<open>Data\<close>

type_synonym color = "32 word"

definition hist_max :: nat where
  "hist_max = 5000"

definition pal_color :: "int \<Rightarrow> color" where
  "pal_color i = word_of_int (i + 1)"

definition rgb_color :: "8 word \<Rightarrow> 8 word \<Rightarrow> 8 word \<Rightarrow> color" where
  "rgb_color r g b = 0x1000000 OR (push_bit 16 (ucast r) OR push_bit 8 (ucast g) OR ucast b)"

record style =
  st_fg :: color
  st_bg :: color
  st_bold :: bool
  st_italic :: bool
  st_under :: bool
  st_reverse :: bool

definition style0 :: style where
  "style0 = \<lparr>st_fg = 0, st_bg = 0, st_bold = False, st_italic = False, st_under = False, st_reverse = False\<rparr>"

record cell =
  c_r :: rune
  c_cont :: bool
  c_st :: style

definition cell0 :: cell where
  "cell0 = \<lparr>c_r = 0, c_cont = False, c_st = style0\<rparr>"

datatype pstate = StGround | StEsc | StCSI | StOSC | StOSCEsc

record vt =
  v_cols :: int
  v_rows :: int
  v_buf :: "cell list list"
  v_cx :: int
  v_cy :: int
  v_top :: int
  v_bot :: int
  v_hist :: "cell list list"
  v_hist_total :: int
  v_wrap :: bool
  v_pen :: style
  v_scx :: int
  v_scy :: int
  v_st :: pstate
  v_parm :: bytes
  v_csi_pv :: bool
  v_pend :: bytes
  v_sync :: bool

definition blank_line :: "int \<Rightarrow> cell list" where
  "blank_line cols = replicate (nat cols) cell0"

definition blank :: "int \<Rightarrow> int \<Rightarrow> cell list list" where
  "blank cols rows = replicate (nat rows) (blank_line cols)"

definition new_model :: "int \<Rightarrow> int \<Rightarrow> vt" where
  "new_model cols rows = \<lparr>v_cols = cols, v_rows = rows, v_buf = blank cols rows, v_cx = 0, v_cy = 0,
     v_top = 0, v_bot = rows - 1, v_hist = [], v_hist_total = 0, v_wrap = False, v_pen = style0,
     v_scx = 0, v_scy = 0, v_st = StGround, v_parm = [], v_csi_pv = False, v_pend = [], v_sync = False\<rparr>"

section \<open>Cursor, scrolling, drawing\<close>

definition clamp_int :: "int \<Rightarrow> int \<Rightarrow> int" where
  "clamp_int n x = (let x = (if x < 0 then 0 else x) in if x \<ge> n then n - 1 else x)"

definition clamp_cursor :: "vt \<Rightarrow> vt" where
  "clamp_cursor v = v\<lparr>v_cx := clamp_int (v_cols v) (v_cx v), v_cy := clamp_int (v_rows v) (v_cy v)\<rparr>"

text \<open>\<open>for y := y0; y < bot; y++ { buf[y] = buf[y+1] }\<close> and its upward counterpart.\<close>

function shift_up :: "cell list list \<Rightarrow> int \<Rightarrow> int \<Rightarrow> cell list list option" where
  "shift_up buf y bo =
     (if y < bo
      then do { row \<leftarrow> idx buf (y + 1); buf' \<leftarrow> upd buf y row; shift_up buf' (y + 1) bo }
      else Some buf)"
  by pat_completeness auto
termination
  by (relation "measure (\<lambda>(_, y, bo). nat (bo - y))") auto

function shift_down :: "cell list list \<Rightarrow> int \<Rightarrow> int \<Rightarrow> cell list list option" where
  "shift_down buf y tp =
     (if y > tp
      then do { row \<leftarrow> idx buf (y - 1); buf' \<leftarrow> upd buf y row; shift_down buf' (y - 1) tp }
      else Some buf)"
  by pat_completeness auto
termination
  by (relation "measure (\<lambda>(_, y, tp). nat (y - tp))") auto

declare shift_up.simps [simp del] shift_down.simps [simp del]

text \<open>\<open>line := make([]cell, cols); copy(line, row)\<close>.\<close>

definition copy_line :: "int \<Rightarrow> cell list \<Rightarrow> cell list" where
  "copy_line cols row = take (nat cols) row @ replicate (nat cols - length row) cell0"

definition line_feed :: "vt \<Rightarrow> vt option" where
  "line_feed v =
     (if v_cy v = v_bot v then do {
        row \<leftarrow> idx (v_buf v) (v_top v);
        buf \<leftarrow> shift_up (v_buf v) (v_top v) (v_bot v);
        buf' \<leftarrow> upd buf (v_bot v) (blank_line (v_cols v));
        Some (v\<lparr>v_hist := keep_last hist_max (v_hist v @ [copy_line (v_cols v) row]),
                v_hist_total := v_hist_total v + 1, v_buf := buf'\<rparr>) }
      else if v_cy v < v_rows v - 1 then Some (v\<lparr>v_cy := v_cy v + 1\<rparr>)
      else Some v)"

definition reverse_index :: "vt \<Rightarrow> vt option" where
  "reverse_index v =
     (if v_cy v = v_top v then do {
        buf \<leftarrow> shift_down (v_buf v) (v_bot v) (v_top v);
        buf' \<leftarrow> upd buf (v_top v) (blank_line (v_cols v));
        Some (v\<lparr>v_buf := buf'\<rparr>) }
      else if v_cy v > 0 then Some (v\<lparr>v_cy := v_cy v - 1\<rparr>)
      else Some v)"

text \<open>\<open>v.buf[y][x] = c\<close>.\<close>

definition set_cell :: "vt \<Rightarrow> int \<Rightarrow> int \<Rightarrow> cell \<Rightarrow> vt option" where
  "set_cell v x y c = do {
     row \<leftarrow> idx (v_buf v) y;
     row' \<leftarrow> upd row x c;
     buf \<leftarrow> upd (v_buf v) y row';
     Some (v\<lparr>v_buf := buf\<rparr>) }"

definition place :: "rune \<Rightarrow> int \<Rightarrow> vt \<Rightarrow> vt option" where
  "place r w v = do {
     v \<leftarrow> (if v_cx v + w > v_cols v then line_feed (v\<lparr>v_cx := 0\<rparr>) else Some v);
     v \<leftarrow> set_cell v (v_cx v) (v_cy v) \<lparr>c_r = r, c_cont = False, c_st = v_pen v\<rparr>;
     v \<leftarrow> (if w = 2 \<and> v_cx v + 1 < v_cols v
           then set_cell v (v_cx v + 1) (v_cy v) \<lparr>c_r = 0, c_cont = True, c_st = v_pen v\<rparr>
           else Some v);
     (let v = v\<lparr>v_cx := v_cx v + w\<rparr> in
      Some (if v_cx v \<ge> v_cols v then v\<lparr>v_cx := v_cols v - 1, v_wrap := True\<rparr> else v)) }"

definition draw :: "(rune \<Rightarrow> nat) \<Rightarrow> vt \<Rightarrow> rune \<Rightarrow> vt option" where
  "draw rw v r =
     (let w = int (rw r) in
      if w = 0 then Some v
      else do {
        v \<leftarrow> (if v_wrap v
              then map_option (\<lambda>v. v\<lparr>v_wrap := False\<rparr>) (line_feed (v\<lparr>v_cx := 0\<rparr>))
              else Some v);
        place r w v })"

section \<open>Control sequences\<close>

definition params :: "bytes \<Rightarrow> int list" where
  "params parm =
     (if parm = [] then []
      else map (\<lambda>s. foldl (\<lambda>n ch. i64 (n * 10 + (int (ord ch) - 48))) 0 s) (split_on (CHR '';'') parm))"

definition arg :: "int list \<Rightarrow> nat \<Rightarrow> int \<Rightarrow> int" where
  "arg ps i def =
     (if i < length ps \<and> ps ! i \<noteq> 0 then ps ! i
      else if i < length ps \<and> ps ! i = 0 \<and> def = 0 then 0
      else def)"

definition arg_or0 :: "int list \<Rightarrow> int" where
  "arg_or0 ps = (case ps of [] \<Rightarrow> 0 | p # _ \<Rightarrow> p)"

text \<open>
  \<open>color_ext\<close> reads an extended colour; the Go function takes the position \<open>i\<close> of the 38/48 and
  returns the position of the last parameter consumed, the model takes the parameters after it and
  returns the ones left.
\<close>

definition color_ext :: "int list \<Rightarrow> int list \<times> color" where
  "color_ext ps = (case ps of
      [] \<Rightarrow> ([], 0)
    | m # rest \<Rightarrow>
        if m = 2 then (case rest of
            r # g # b # rest' \<Rightarrow> (rest', rgb_color (word_of_int r) (word_of_int g) (word_of_int b))
          | _ \<Rightarrow> ([], 0))
        else if m = 5 then (case rest of n # rest' \<Rightarrow> (rest', pal_color n) | _ \<Rightarrow> ([], 0))
        else (rest, 0))"

definition sgr_one :: "int \<Rightarrow> style \<Rightarrow> style" where
  "sgr_one n p =
     (if n = 0 then style0
      else if n = 1 then p\<lparr>st_bold := True\<rparr>
      else if n = 3 then p\<lparr>st_italic := True\<rparr>
      else if n = 4 then p\<lparr>st_under := True\<rparr>
      else if n = 7 then p\<lparr>st_reverse := True\<rparr>
      else if n = 22 then p\<lparr>st_bold := False\<rparr>
      else if n = 23 then p\<lparr>st_italic := False\<rparr>
      else if n = 24 then p\<lparr>st_under := False\<rparr>
      else if n = 27 then p\<lparr>st_reverse := False\<rparr>
      else if 30 \<le> n \<and> n \<le> 37 then p\<lparr>st_fg := pal_color (n - 30)\<rparr>
      else if n = 39 then p\<lparr>st_fg := 0\<rparr>
      else if 40 \<le> n \<and> n \<le> 47 then p\<lparr>st_bg := pal_color (n - 40)\<rparr>
      else if n = 49 then p\<lparr>st_bg := 0\<rparr>
      else if 90 \<le> n \<and> n \<le> 97 then p\<lparr>st_fg := pal_color (n - 90 + 8)\<rparr>
      else if 100 \<le> n \<and> n \<le> 107 then p\<lparr>st_bg := pal_color (n - 100 + 8)\<rparr>
      else p)"

lemma color_ext_length: "length (fst (color_ext ps)) \<le> length ps"
  by (auto simp: color_ext_def split: list.splits)

function sgr_loop :: "int list \<Rightarrow> style \<Rightarrow> style" where
  "sgr_loop [] p = p"
| "sgr_loop (n # ps) p =
     (if n = 38 then (let (ps', c) = color_ext ps in sgr_loop ps' (p\<lparr>st_fg := c\<rparr>))
      else if n = 48 then (let (ps', c) = color_ext ps in sgr_loop ps' (p\<lparr>st_bg := c\<rparr>))
      else sgr_loop ps (sgr_one n p))"
  by pat_completeness auto
termination
proof (relation "measure (length \<circ> fst)", goal_cases)
  case (2 n ps p x ps' c)
  then show ?case using color_ext_length [of ps] by (metis comp_apply fst_conv in_measure impossible_Cons length_Cons less_Suc_eq_le)
next
  case (3 n ps p x ps' c)
  then show ?case using color_ext_length [of ps] by (metis comp_apply fst_conv in_measure impossible_Cons length_Cons less_Suc_eq_le)
qed auto

definition sgr :: "int list \<Rightarrow> vt \<Rightarrow> vt" where
  "sgr ps v = (if ps = [] then v\<lparr>v_pen := style0\<rparr> else v\<lparr>v_pen := sgr_loop ps (v_pen v)\<rparr>)"

section \<open>Erasing\<close>

text \<open>\<open>for x := x0; x < x1; x++ { row[x] = cell{} }\<close>.\<close>

definition clear_span :: "int \<Rightarrow> int \<Rightarrow> cell list \<Rightarrow> cell list" where
  "clear_span x0 x1 row =
     map (\<lambda>x. if x0 \<le> int x \<and> int x < x1 then cell0 else row ! x) [0..<length row]"

definition erase_line :: "int \<Rightarrow> vt \<Rightarrow> vt option" where
  "erase_line mode v = do {
     row \<leftarrow> idx (v_buf v) (v_cy v);
     let row' = (if mode = 0 then clear_span (v_cx v) (v_cols v) row
                 else if mode = 1 then clear_span 0 (min (v_cx v + 1) (v_cols v)) row
                 else if mode = 2 then clear_span 0 (v_cols v) row
                 else row);
     buf \<leftarrow> upd (v_buf v) (v_cy v) row';
     Some (v\<lparr>v_buf := buf\<rparr>) }"

text \<open>\<open>for y := y0; y < y1; y++ { buf[y] = blankLine(cols) }\<close> with \<open>0 \<le> y0\<close> and \<open>y1 \<le> rows\<close>.\<close>

definition blank_rows :: "int \<Rightarrow> int \<Rightarrow> vt \<Rightarrow> vt" where
  "blank_rows y0 y1 v = v\<lparr>v_buf :=
     map (\<lambda>y. if y0 \<le> int y \<and> int y < y1 then blank_line (v_cols v) else v_buf v ! y) [0..<length (v_buf v)]\<rparr>"

definition erase_display :: "int \<Rightarrow> vt \<Rightarrow> vt option" where
  "erase_display mode v =
     (if mode = 0 then map_option (blank_rows (v_cy v + 1) (v_rows v)) (erase_line 0 v)
      else if mode = 1 then erase_line 1 (blank_rows 0 (v_cy v) v)
      else if mode = 2 then Some (v\<lparr>v_buf := blank (v_cols v) (v_rows v)\<rparr>)
      else if mode = 3 then Some (v\<lparr>v_buf := blank (v_cols v) (v_rows v), v_hist := []\<rparr>)
      else Some v)"

section \<open>CSI dispatch\<close>

definition set_margins :: "int list \<Rightarrow> vt \<Rightarrow> vt" where
  "set_margins ps v =
     (if v_csi_pv v then v
      else
        let v = (if length ps \<ge> 2 \<and> ps ! 0 > 0 \<and> ps ! 1 > 0
                 then v\<lparr>v_top := ps ! 0 - 1, v_bot := ps ! 1 - 1\<rparr>
                 else v\<lparr>v_top := 0, v_bot := v_rows v - 1\<rparr>)
        in v\<lparr>v_cx := 0, v_cy := v_top v\<rparr>)"

definition set_modes :: "byte \<Rightarrow> int list \<Rightarrow> vt \<Rightarrow> vt" where
  "set_modes fin ps v =
     (if v_csi_pv v \<and> (fin = CHR ''h'' \<or> fin = CHR ''l'') \<and> 2026 \<in> set ps
      then v\<lparr>v_sync := (fin = CHR ''h'')\<rparr> else v)"

definition csi_op :: "byte \<Rightarrow> int list \<Rightarrow> vt \<Rightarrow> vt option" where
  "csi_op fin ps v =
     (if fin = CHR ''A'' then Some (v\<lparr>v_cy := i64 (v_cy v - arg ps 0 1)\<rparr>)
      else if fin = CHR ''B'' then Some (v\<lparr>v_cy := i64 (v_cy v + arg ps 0 1)\<rparr>)
      else if fin = CHR ''C'' then Some (v\<lparr>v_cx := i64 (v_cx v + arg ps 0 1)\<rparr>)
      else if fin = CHR ''D'' then Some (v\<lparr>v_cx := i64 (v_cx v - arg ps 0 1)\<rparr>)
      else if fin = CHR ''G'' then Some (v\<lparr>v_cx := i64 (arg ps 0 1 - 1)\<rparr>)
      else if fin = CHR ''d'' then Some (v\<lparr>v_cy := i64 (arg ps 0 1 - 1)\<rparr>)
      else if fin = CHR ''H'' \<or> fin = CHR ''f''
      then Some (v\<lparr>v_cy := i64 (arg ps 0 1 - 1), v_cx := i64 (arg ps 1 1 - 1)\<rparr>)
      else if fin = CHR ''J'' then erase_display (arg_or0 ps) v
      else if fin = CHR ''K'' then erase_line (arg_or0 ps) v
      else if fin = CHR ''r'' then Some (set_margins ps v)
      else if fin = CHR ''m'' then Some (sgr ps v)
      else Some (set_modes fin ps v))"

definition csi :: "byte \<Rightarrow> vt \<Rightarrow> vt option" where
  "csi fin v = map_option (\<lambda>v. clamp_cursor (v\<lparr>v_wrap := False\<rparr>)) (csi_op fin (params (v_parm v)) v)"

section \<open>Feeding bytes\<close>

definition utf8_len :: "byte \<Rightarrow> nat option" where
  "utf8_len b = (let n = ord b in
     if n < 128 then Some 1
     else if n div 32 = 6 then Some 2
     else if n div 16 = (14::nat) then Some 3
     else if n div 8 = 30 then Some 4
     else None)"

text \<open>
  \<open>put_byte\<close> takes the bytes from the current position on; it returns the model, how far the
  position advances beyond the current byte, and whether the character is cut off by the end of
  the chunk (\<open>incomplete\<close>).
\<close>

definition put_byte :: "(rune \<Rightarrow> nat) \<Rightarrow> vt \<Rightarrow> bytes \<Rightarrow> (vt \<times> nat \<times> bool) option" where
  "put_byte rw v p = (case p of [] \<Rightarrow> None | b # _ \<Rightarrow>
     (case utf8_len b of
        None \<Rightarrow> Some (v, 0, False)
      | Some n \<Rightarrow>
          if n = 1 then map_option (\<lambda>v. (v, 0, False)) (draw rw v (ord b))
          else if n > length p then Some (v\<lparr>v_pend := p\<rparr>, 0, True)
          else let r = fst (decode_rune (take n p)) in
               map_option (\<lambda>v. (v, n - 1, False)) (if r \<noteq> 0 then draw rw v r else Some v)))"

definition ground_ctl :: "vt \<Rightarrow> byte \<Rightarrow> vt option" where
  "ground_ctl v c =
     (if c = ESC then Some (v\<lparr>v_st := StEsc\<rparr>)
      else if c = CHR 0x0D then Some (v\<lparr>v_cx := 0, v_wrap := False\<rparr>)
      else if c = CHR 0x0A then map_option (\<lambda>v. v\<lparr>v_wrap := False\<rparr>) (line_feed v)
      else if c = CHR 0x08 then Some (v\<lparr>v_cx := (if v_cx v > 0 then v_cx v - 1 else v_cx v), v_wrap := False\<rparr>)
      else if c = CHR 0x09 then
        Some (let x = (v_cx v div 8 + 1) * 8 in v\<lparr>v_cx := (if x \<ge> v_cols v then v_cols v - 1 else x)\<rparr>)
      else Some v)"

definition esc_byte :: "vt \<Rightarrow> byte \<Rightarrow> vt option" where
  "esc_byte v c =
     (if c = CHR ''['' then Some (v\<lparr>v_st := StCSI, v_parm := [], v_csi_pv := False\<rparr>)
      else if c = CHR '']'' then Some (v\<lparr>v_st := StOSC\<rparr>)
      else map_option (\<lambda>v. v\<lparr>v_st := StGround\<rparr>)
       (if c = CHR ''7'' then Some (v\<lparr>v_scx := v_cx v, v_scy := v_cy v\<rparr>)
        else if c = CHR ''8'' then Some (clamp_cursor (v\<lparr>v_cx := v_scx v, v_cy := v_scy v\<rparr>))
        else if c = CHR ''D'' then line_feed v
        else if c = CHR ''M'' then reverse_index v
        else if c = CHR ''E'' then line_feed (v\<lparr>v_cx := 0\<rparr>)
        else Some v))"

definition csi_byte :: "vt \<Rightarrow> byte \<Rightarrow> vt option" where
  "csi_byte v c =
     (if c = CHR ''?'' \<or> c = CHR ''>'' \<or> c = CHR ''=''
      then Some (if c = CHR ''?'' then v\<lparr>v_csi_pv := True\<rparr> else v)
      else if (48 \<le> ord c \<and> ord c \<le> (57::nat)) \<or> c = CHR '';'' then Some (v\<lparr>v_parm := v_parm v @ [c]\<rparr>)
      else map_option (\<lambda>v. v\<lparr>v_st := StGround\<rparr>) (csi c v))"

text \<open>One byte outside the drawing of a character.\<close>

definition ctl_byte :: "vt \<Rightarrow> byte \<Rightarrow> vt option" where
  "ctl_byte v c = (case v_st v of
      StGround \<Rightarrow> ground_ctl v c
    | StEsc \<Rightarrow> esc_byte v c
    | StCSI \<Rightarrow> csi_byte v c
    | StOSC \<Rightarrow> Some (if c = CHR 0x07 then v\<lparr>v_st := StGround\<rparr>
                     else if c = ESC then v\<lparr>v_st := StOSCEsc\<rparr> else v)
    | StOSCEsc \<Rightarrow> Some (v\<lparr>v_st := StGround\<rparr>))"

function feed_loop :: "(rune \<Rightarrow> nat) \<Rightarrow> vt \<Rightarrow> bytes \<Rightarrow> vt option" where
  "feed_loop rw v [] = Some v"
| "feed_loop rw v (c # p) =
     (if v_st v = StGround \<and> 32 \<le> (ord c :: nat) then
        (case put_byte rw v (c # p) of
           None \<Rightarrow> None
         | Some (v', k, incomplete) \<Rightarrow> if incomplete then Some v' else feed_loop rw v' (drop k p))
      else (case ctl_byte v c of None \<Rightarrow> None | Some v' \<Rightarrow> feed_loop rw v' p))"
  by pat_completeness auto
termination
  by (relation "measure (\<lambda>(_, _, p). length p)") auto

definition feed :: "(rune \<Rightarrow> nat) \<Rightarrow> vt \<Rightarrow> bytes \<Rightarrow> vt option" where
  "feed rw v p = feed_loop rw (v\<lparr>v_pend := []\<rparr>) (v_pend v @ p)"

section \<open>Text extraction\<close>

definition line_text :: "cell list \<Rightarrow> bytes" where
  "line_text row = trim_right_set
     (concat (map (\<lambda>c. if c_cont c then [] else if c_r c = 0 then '' '' else encode_rune (c_r c)) row)) '' ''"

definition visible_lines :: "vt \<Rightarrow> bytes list" where
  "visible_lines v = map line_text (v_buf v)"

definition history_lines :: "vt \<Rightarrow> bytes list" where
  "history_lines v = map line_text (v_hist v)"

definition cursor :: "vt \<Rightarrow> int \<times> int" where
  "cursor v = (v_cx v, v_cy v)"

definition hist_len :: "vt \<Rightarrow> int" where
  "hist_len v = int (length (v_hist v))"

end
