(* ===== verification/VTWf.thy ===== *)
theory VTWf
  imports VT
begin

text \<open>
  The well-formedness invariant of the screen model and what every operation of \<open>vt.go\<close> does to it:
  the grid keeps its dimensions, the cursor stays on the screen, the history stays bounded. While
  the scroll region lies inside the screen (\<open>margins_in\<close>) no operation can panic.
\<close>

definition vt_wf :: "vt \<Rightarrow> bool" where
  "vt_wf v \<longleftrightarrow> 1 \<le> v_rows v \<and> 1 \<le> v_cols v \<and> int (length (v_buf v)) = v_rows v
     \<and> (\<forall>row\<in>set (v_buf v). int (length row) = v_cols v)
     \<and> 0 \<le> v_cx v \<and> v_cx v < v_cols v \<and> 0 \<le> v_cy v \<and> v_cy v < v_rows v
     \<and> 0 \<le> v_scx v \<and> v_scx v < v_cols v \<and> 0 \<le> v_scy v \<and> v_scy v < v_rows v
     \<and> (\<forall>row\<in>set (v_hist v). int (length row) = v_cols v)
     \<and> length (v_hist v) \<le> hist_max \<and> int (length (v_hist v)) \<le> v_hist_total v"

definition margins_in :: "vt \<Rightarrow> bool" where
  "margins_in v \<longleftrightarrow> 0 \<le> v_top v \<and> v_top v < v_rows v \<and> 0 \<le> v_bot v \<and> v_bot v < v_rows v"

text \<open>The part of the state a well-formed step never changes, and the order on histories.\<close>

definition same_size :: "vt \<Rightarrow> vt \<Rightarrow> bool" where
  "same_size v v' \<longleftrightarrow> v_rows v' = v_rows v \<and> v_cols v' = v_cols v"

definition hist_le :: "vt \<Rightarrow> vt \<Rightarrow> bool" where
  "hist_le v v' \<longleftrightarrow> (\<exists>new. v_hist_total v' = v_hist_total v + int (length new)
     \<and> suffix (v_hist v') (v_hist v @ new))"

lemma hist_le_refl [simp, wf_intros]: "v_hist v' = v_hist v \<Longrightarrow> v_hist_total v' = v_hist_total v \<Longrightarrow> hist_le v v'"
  by (auto simp: hist_le_def intro: exI [of _ "[]"])

lemma hist_le_trans: "hist_le u v \<Longrightarrow> hist_le v w \<Longrightarrow> hist_le u w"
  unfolding hist_le_def
proof (elim exE conjE)
  fix a b
  assume "v_hist_total v = v_hist_total u + int (length a)" "suffix (v_hist v) (v_hist u @ a)"
    "v_hist_total w = v_hist_total v + int (length b)" "suffix (v_hist w) (v_hist v @ b)"
  then show "\<exists>new. v_hist_total w = v_hist_total u + int (length new) \<and> suffix (v_hist w) (v_hist u @ new)"
    by (intro exI [of _ "a @ b"]) (auto dest: suffix_trans_append)
qed

lemma blank_line_length [simp]: "length (blank_line cols) = nat cols"
  by (simp add: blank_line_def)

lemma copy_line_length [simp]: "length (copy_line cols row) = nat cols"
  by (auto simp: copy_line_def min_def)

lemma copy_line_id: "length row = nat cols \<Longrightarrow> copy_line cols row = row"
  by (simp add: copy_line_def)

lemma new_model_wf: "1 \<le> cols \<Longrightarrow> 1 \<le> rows \<Longrightarrow> vt_wf (new_model cols rows)"
  by (auto simp: vt_wf_def new_model_def blank_def)

lemma new_model_margins: "1 \<le> rows \<Longrightarrow> margins_in (new_model cols rows)"
  by (simp add: margins_in_def new_model_def)

section \<open>Scrolling\<close>

lemma shift_up_Some:
  "0 \<le> y \<Longrightarrow> y \<le> b \<Longrightarrow> b < int (length buf) \<Longrightarrow>
   shift_up buf y b = Some (take (nat y) buf @ drop (nat y + 1) (take (nat b + 1) buf) @ drop (nat b) buf)"
proof (induction buf y b rule: shift_up.induct)
  case (1 buf y b)
  show ?case
  proof (cases "y < b")
    case False
    then have "y = b" using 1 by simp
    moreover have "drop (Suc (nat b)) (take (Suc (nat b)) buf) = []" by simp
    ultimately show ?thesis by (subst shift_up.simps) simp
  next
    case True
    define n m where "n = nat y" and "m = nat b"
    have nm: "y = int n" "b = int m" "n < m" "m < length buf" using 1 True by (auto simp: n_def m_def)
    have IH: "shift_up (buf[n := buf ! Suc n]) (int n + 1) (int m) =
       Some (take (Suc n) (buf[n := buf ! Suc n]) @ drop (Suc n + 1) (take (m + 1) (buf[n := buf ! Suc n]))
             @ drop m (buf[n := buf ! Suc n]))"
      using 1(1) [of "buf ! Suc n" "buf[n := buf ! Suc n]"] nm by (simp add: nat_add_distrib)
    have "take (Suc n) (buf[n := buf ! Suc n]) = take n buf @ [buf ! Suc n]"
      using nm by (simp add: take_Suc_conv_app_nth)
    moreover have "drop (Suc n) (take (m + 1) buf) = buf ! Suc n # drop (Suc n + 1) (take (m + 1) buf)"
      using nm by (subst Cons_nth_drop_Suc [symmetric]) auto
    ultimately show ?thesis using nm IH
      by (subst shift_up.simps) (simp add: nat_add_distrib drop_update_cancel take_update_swap)
  qed
qed

lemma shift_up_props:
  "shift_up buf y b = Some buf' \<Longrightarrow> length buf' = length buf \<and> set buf' \<subseteq> set buf"
proof (induction buf y b rule: shift_up.induct)
  case (1 buf y b)
  then show ?case
    by (subst (asm) (2) shift_up.simps)
       (force simp: bind_Some_conv idx_Some_iff upd_Some_iff split: if_splits
         dest!: set_update_subset_insert [THEN subsetD])
qed

lemma shift_down_props:
  "shift_down buf y t = Some buf' \<Longrightarrow> length buf' = length buf \<and> set buf' \<subseteq> set buf"
proof (induction buf y t rule: shift_down.induct)
  case (1 buf y t)
  then show ?case
    by (subst (asm) (2) shift_down.simps)
       (force simp: bind_Some_conv idx_Some_iff upd_Some_iff split: if_splits
         dest!: set_update_subset_insert [THEN subsetD])
qed

lemma shift_up_total:
  "0 \<le> y \<Longrightarrow> b < int (length buf) \<Longrightarrow> \<exists>buf'. shift_up buf y b = Some buf' \<and> length buf' = length buf"
  using shift_up_Some [of y b buf] by (cases "y \<le> b") (auto simp: shift_up.simps)

lemma shift_down_total:
  "0 \<le> t \<Longrightarrow> y < int (length buf) \<Longrightarrow> \<exists>buf'. shift_down buf y t = Some buf' \<and> length buf' = length buf"
proof (induction buf y t rule: shift_down.induct)
  case (1 buf y t)
  show ?case
  proof (cases "t < y")
    case True
    then show ?thesis using 1(1) [of "buf ! nat (y - 1)" "buf[nat y := buf ! nat (y - 1)]"] 1(2,3)
      by (subst shift_down.simps) simp
  qed (subst shift_down.simps, simp)
qed

lemma line_feed_wf [wf_intros]:
  assumes "line_feed v = Some v'" "vt_wf v"
  shows "vt_wf v' \<and> same_size v v' \<and> hist_le v v'"
proof (cases "v_cy v = v_bot v")
  case False
  with assms show ?thesis by (auto simp: line_feed_def vt_wf_def same_size_def split: if_splits)
next
  case True
  with assms obtain row buf buf' where
    row: "idx (v_buf v) (v_top v) = Some row" and
    buf: "shift_up (v_buf v) (v_top v) (v_bot v) = Some buf" and
    buf': "upd buf (v_bot v) (blank_line (v_cols v)) = Some buf'" and
    v': "v' = v\<lparr>v_hist := keep_last hist_max (v_hist v @ [copy_line (v_cols v) row]),
                v_hist_total := v_hist_total v + 1, v_buf := buf'\<rparr>"
    by (auto simp: line_feed_def bind_Some_conv)
  have len: "length buf' = length (v_buf v)" using buf buf' by (simp add: shift_up_props upd_length)
  have rows: "\<forall>r\<in>set buf'. int (length r) = v_cols v"
    using upd_set [OF buf'] shift_up_props [OF buf] assms(2) by (fastforce simp: vt_wf_def)
  have h: "\<forall>r\<in>set (v_hist v'). int (length r) = v_cols v"
    using keep_last_set [of hist_max "v_hist v @ [copy_line (v_cols v) row]"] assms(2)
    by (auto simp: v' vt_wf_def)
  have "hist_le v v'"
    using keep_last_suffix [of hist_max "v_hist v @ [copy_line (v_cols v) row]"]
    unfolding hist_le_def v' by (intro exI [of _ "[copy_line (v_cols v) row]"]) simp
  then show ?thesis using assms(2) len rows h by (auto simp: v' vt_wf_def same_size_def)
qed

lemma line_feed_total: "vt_wf v \<Longrightarrow> margins_in v \<Longrightarrow> \<exists>v'. line_feed v = Some v'"
  using shift_up_total [of "v_top v" "v_bot v" "v_buf v"]
  by (auto simp: line_feed_def vt_wf_def margins_in_def)

lemma line_feed_frame:
  "line_feed v = Some v' \<Longrightarrow> v_top v' = v_top v \<and> v_bot v' = v_bot v \<and> v_pend v' = v_pend v \<and> v_st v' = v_st v
     \<and> v_cx v' = v_cx v \<and> v_pen v' = v_pen v \<and> v_wrap v' = v_wrap v \<and> v_csi_pv v' = v_csi_pv v \<and> v_parm v' = v_parm v"
  by (auto simp: line_feed_def bind_Some_conv split: if_splits)

lemma reverse_index_wf:
  assumes "reverse_index v = Some v'" "vt_wf v"
  shows "vt_wf v' \<and> same_size v v' \<and> hist_le v v' \<and> v_top v' = v_top v \<and> v_bot v' = v_bot v \<and> v_pend v' = v_pend v"
proof (cases "v_cy v = v_top v")
  case False
  with assms show ?thesis by (auto simp: reverse_index_def vt_wf_def same_size_def split: if_splits)
next
  case True
  with assms obtain buf buf' where
    buf: "shift_down (v_buf v) (v_bot v) (v_top v) = Some buf" and
    buf': "upd buf (v_top v) (blank_line (v_cols v)) = Some buf'" and v': "v' = v\<lparr>v_buf := buf'\<rparr>"
    by (auto simp: reverse_index_def bind_Some_conv)
  have "length buf' = length (v_buf v)" using buf buf' by (simp add: shift_down_props upd_length)
  moreover have "\<forall>r\<in>set buf'. int (length r) = v_cols v"
    using upd_set [OF buf'] shift_down_props [OF buf] assms(2) by (fastforce simp: vt_wf_def)
  ultimately show ?thesis using assms(2) by (auto simp: v' vt_wf_def same_size_def)
qed

lemma reverse_index_total: "vt_wf v \<Longrightarrow> margins_in v \<Longrightarrow> \<exists>v'. reverse_index v = Some v'"
  using shift_down_total [of "v_top v" "v_bot v" "v_buf v"]
  by (auto simp: reverse_index_def vt_wf_def margins_in_def)

section \<open>Drawing\<close>

text \<open>One step of the model: the invariant is kept, the size is kept, the history only grows.\<close>

definition vt_next :: "vt \<Rightarrow> vt \<Rightarrow> bool" where
  "vt_next v v' \<longleftrightarrow> vt_wf v' \<and> same_size v v' \<and> hist_le v v'"

definition same_margins :: "vt \<Rightarrow> vt \<Rightarrow> bool" where
  "same_margins v v' \<longleftrightarrow> v_top v' = v_top v \<and> v_bot v' = v_bot v \<and> v_rows v' = v_rows v"

lemma vt_next_trans: "vt_next u v \<Longrightarrow> vt_next v w \<Longrightarrow> vt_next u w"
  using hist_le_trans [of u v w] by (auto simp: vt_next_def same_size_def)

lemma vt_next_refl: "vt_wf v \<Longrightarrow> vt_next v v \<and> same_margins v v"
  by (simp add: vt_next_def same_size_def same_margins_def)

lemma vt_next_wf: "vt_next v v' \<Longrightarrow> vt_wf v'"
  by (simp add: vt_next_def)

lemma same_margins_in: "same_margins v v' \<Longrightarrow> margins_in v' = margins_in v"
  by (auto simp: same_margins_def margins_in_def)

lemma line_feed_next: "line_feed v = Some v' \<Longrightarrow> vt_wf v \<Longrightarrow> vt_next v v' \<and> same_margins v v'"
  using line_feed_wf [of v v'] line_feed_frame [of v v'] by (simp add: vt_next_def same_margins_def same_size_def)

lemma reverse_index_next: "reverse_index v = Some v' \<Longrightarrow> vt_wf v \<Longrightarrow> vt_next v v' \<and> same_margins v v'"
  using reverse_index_wf [of v v'] by (simp add: vt_next_def same_margins_def same_size_def)

lemma vt_frames [simp]:
  "vt_wf (v\<lparr>v_wrap := b\<rparr>) = vt_wf v" "vt_wf (v\<lparr>v_st := st\<rparr>) = vt_wf v" "vt_wf (v\<lparr>v_pend := p\<rparr>) = vt_wf v"
  "vt_wf (v\<lparr>v_parm := p\<rparr>) = vt_wf v" "vt_wf (v\<lparr>v_csi_pv := b\<rparr>) = vt_wf v" "vt_wf (v\<lparr>v_pen := s\<rparr>) = vt_wf v"
  "vt_wf (v\<lparr>v_sync := b\<rparr>) = vt_wf v" "vt_wf (v\<lparr>v_top := i\<rparr>) = vt_wf v" "vt_wf (v\<lparr>v_bot := i\<rparr>) = vt_wf v"
  by (simp_all add: vt_wf_def)

lemma hist_le_frames [simp]:
  "hist_le v (v'\<lparr>v_cx := i\<rparr>) = hist_le v v'" "hist_le v (v'\<lparr>v_cy := i\<rparr>) = hist_le v v'"
  "hist_le v (v'\<lparr>v_wrap := b\<rparr>) = hist_le v v'" "hist_le v (v'\<lparr>v_st := st\<rparr>) = hist_le v v'"
  "hist_le (v\<lparr>v_cx := i\<rparr>) v' = hist_le v v'" "hist_le (v\<lparr>v_pend := p\<rparr>) v' = hist_le v v'"
  by (simp_all add: hist_le_def)

lemma vt_wf_row: "vt_wf v \<Longrightarrow> 0 \<le> y \<Longrightarrow> y < v_rows v \<Longrightarrow> int (length (v_buf v ! nat y)) = v_cols v"
  unfolding vt_wf_def by (metis nat_less_iff nth_mem)

lemma set_cell_next:
  assumes "set_cell v x y c = Some v'" "vt_wf v"
  shows "vt_next v v' \<and> same_margins v v' \<and> v_cx v' = v_cx v \<and> v_cy v' = v_cy v \<and> v_pend v' = v_pend v
     \<and> v_pen v' = v_pen v"
proof -
  from assms(1) obtain row row' buf where
    row: "idx (v_buf v) y = Some row" and row': "upd row x c = Some row'" and
    buf: "upd (v_buf v) y row' = Some buf" and v': "v' = v\<lparr>v_buf := buf\<rparr>"
    by (auto simp: set_cell_def bind_Some_conv)
  have "row \<in> set (v_buf v)" using row by (auto simp: idx_Some_iff)
  then have "int (length row') = v_cols v" using assms(2) row' by (auto simp: vt_wf_def upd_length)
  then have "\<forall>r\<in>set buf. int (length r) = v_cols v" using upd_set [OF buf] assms(2) by (auto simp: vt_wf_def)
  then show ?thesis using assms(2) upd_length [OF buf]
    by (auto simp: v' vt_next_def vt_wf_def same_size_def same_margins_def)
qed

lemma set_cell_total:
  "vt_wf v \<Longrightarrow> 0 \<le> x \<Longrightarrow> x < v_cols v \<Longrightarrow> 0 \<le> y \<Longrightarrow> y < v_rows v \<Longrightarrow> \<exists>v'. set_cell v x y c = Some v'"
  using vt_wf_row [of v y] by (simp add: set_cell_def) (simp add: vt_wf_def)

lemma set_cx_next: "vt_wf v \<Longrightarrow> 0 \<le> x \<Longrightarrow> x < v_cols v \<Longrightarrow> vt_next v (v\<lparr>v_cx := x\<rparr>) \<and> same_margins v (v\<lparr>v_cx := x\<rparr>)"
  by (simp add: vt_next_def vt_wf_def same_size_def same_margins_def)

lemma wrap_line_next:
  assumes "line_feed (v\<lparr>v_cx := 0\<rparr>) = Some v'" "vt_wf v"
  shows "vt_next v v' \<and> same_margins v v' \<and> v_cx v' = 0 \<and> v_pend v' = v_pend v \<and> v_cols v' = v_cols v \<and> v_pen v' = v_pen v"
proof -
  have 0: "vt_next v (v\<lparr>v_cx := 0\<rparr>)" "vt_wf (v\<lparr>v_cx := 0\<rparr>)" using assms(2) by (auto simp: vt_next_def vt_wf_def same_size_def)
  with line_feed_next [OF assms(1)] line_feed_frame [OF assms(1)] show ?thesis
    by (simp add: same_margins_def vt_next_def same_size_def)
qed

lemma wrap_line_total:
  "vt_wf v \<Longrightarrow> margins_in v \<Longrightarrow> \<exists>v'. line_feed (v\<lparr>v_cx := 0\<rparr>) = Some v'"
  by (rule line_feed_total) (auto simp: vt_wf_def margins_in_def)

lemma place_next:
  assumes "place r w v = Some v'" "vt_wf v" "0 < w"
  shows "vt_next v v' \<and> same_margins v v' \<and> v_pend v' = v_pend v"
proof -
  from assms(1) obtain a b c where
    a: "(if v_cx v + w > v_cols v then line_feed (v\<lparr>v_cx := 0\<rparr>) else Some v) = Some a" and
    b: "set_cell a (v_cx a) (v_cy a) \<lparr>c_r = r, c_cont = False, c_st = v_pen a\<rparr> = Some b" and
    c: "(if w = 2 \<and> v_cx b + 1 < v_cols b
           then set_cell b (v_cx b + 1) (v_cy b) \<lparr>c_r = 0, c_cont = True, c_st = v_pen b\<rparr>
           else Some b) = Some c" and
    v': "v' = (if v_cols c \<le> v_cx c + w then c\<lparr>v_cx := v_cols c - 1, v_wrap := True\<rparr> else c\<lparr>v_cx := v_cx c + w\<rparr>)"
    by (auto simp: place_def bind_Some_conv Let_def cong: if_cong)
  have A: "vt_next v a \<and> same_margins v a \<and> v_pend a = v_pend v"
  proof (cases "v_cx v + w > v_cols v")
    case True
    with a show ?thesis using wrap_line_next [of v a] assms(2) by simp
  next
    case False
    with a show ?thesis using vt_next_refl [OF assms(2)] by simp
  qed
  have B: "vt_next a b \<and> same_margins a b \<and> v_pend b = v_pend a"
    using set_cell_next [OF b vt_next_wf] A by blast
  have C: "vt_next b c \<and> same_margins b c \<and> v_pend c = v_pend b"
  proof (cases "w = 2 \<and> v_cx b + 1 < v_cols b")
    case True
    with c have "set_cell b (v_cx b + 1) (v_cy b) \<lparr>c_r = 0, c_cont = True, c_st = v_pen b\<rparr> = Some c" by simp
    from set_cell_next [OF this] vt_next_wf [of a b] B show ?thesis by simp
  next
    case False
    with c show ?thesis using vt_next_refl vt_next_wf [of a b] B by simp
  qed
  have "vt_next c v' \<and> same_margins c v' \<and> v_pend v' = v_pend c"
    using C assms(3) by (auto simp: v' vt_next_def vt_wf_def same_size_def same_margins_def)
  with A B C show ?thesis by (auto simp: same_margins_def intro: vt_next_trans)
qed

lemma place_total:
  assumes "vt_wf v" "margins_in v" "0 \<le> w" "w \<le> 2"
  shows "\<exists>v'. place r w v = Some v'"
proof -
  obtain a where a: "(if v_cx v + w > v_cols v then line_feed (v\<lparr>v_cx := 0\<rparr>) else Some v) = Some a"
    and A: "vt_wf a"
  proof (cases "v_cx v + w > v_cols v")
    case True
    with wrap_line_total [OF assms(1,2)] wrap_line_next [OF _ assms(1)] vt_next_wf that show ?thesis by fastforce
  next
    case False
    with that assms(1) show ?thesis by simp
  qed
  have cur: "0 \<le> v_cx a" "v_cx a < v_cols a" "0 \<le> v_cy a" "v_cy a < v_rows a" using A by (simp_all add: vt_wf_def)
  obtain b where b: "set_cell a (v_cx a) (v_cy a) \<lparr>c_r = r, c_cont = False, c_st = v_pen a\<rparr> = Some b"
    using set_cell_total [OF A cur] by blast
  have B: "vt_wf b" using set_cell_next [OF b A] by (simp add: vt_next_def)
  then have "0 \<le> v_cx b" "0 \<le> v_cy b" "v_cy b < v_rows b" by (simp_all add: vt_wf_def)
  then have "\<exists>c. (if w = 2 \<and> v_cx b + 1 < v_cols b
      then set_cell b (v_cx b + 1) (v_cy b) \<lparr>c_r = 0, c_cont = True, c_st = v_pen b\<rparr> else Some b) = Some c"
    using set_cell_total [OF B, of "v_cx b + 1" "v_cy b"] by simp
  then obtain c where "(if w = 2 \<and> v_cx b + 1 < v_cols b
      then set_cell b (v_cx b + 1) (v_cy b) \<lparr>c_r = 0, c_cont = True, c_st = v_pen b\<rparr> else Some b) = Some c"
    by blast
  with a b show ?thesis unfolding place_def by (simp add: Let_def del: if_split)
qed

text \<open>The pending wrap, resolved before the next character is drawn.\<close>

definition unwrap :: "vt \<Rightarrow> vt option" where
  "unwrap v = (if v_wrap v
     then map_option (\<lambda>v. v\<lparr>v_wrap := False\<rparr>) (line_feed (v\<lparr>v_cx := 0\<rparr>)) else Some v)"

lemma draw_unwrap:
  "draw rw v r = (if rw r = 0 then Some v else Option.bind (unwrap v) (place r (int (rw r))))"
  by (simp add: draw_def unwrap_def Let_def)

lemma unwrap_next:
  assumes "unwrap v = Some v'" "vt_wf v"
  shows "vt_next v v' \<and> same_margins v v' \<and> v_pend v' = v_pend v"
proof (cases "v_wrap v")
  case True
  with assms(1) obtain a where "line_feed (v\<lparr>v_cx := 0\<rparr>) = Some a" "v' = a\<lparr>v_wrap := False\<rparr>"
    by (auto simp: unwrap_def)
  with wrap_line_next [of v a] assms(2) show ?thesis by (simp add: vt_next_def same_size_def same_margins_def)
next
  case False
  with assms show ?thesis by (simp add: unwrap_def vt_next_def same_size_def same_margins_def)
qed

lemma unwrap_total: "vt_wf v \<Longrightarrow> margins_in v \<Longrightarrow> \<exists>v'. unwrap v = Some v'"
  using wrap_line_total [of v] by (auto simp: unwrap_def)

lemma draw_next:
  assumes "draw rw v r = Some v'" "vt_wf v"
  shows "vt_next v v' \<and> same_margins v v' \<and> v_pend v' = v_pend v"
proof (cases "rw r = 0")
  case True
  with assms show ?thesis by (simp add: draw_unwrap vt_next_def same_size_def same_margins_def)
next
  case False
  then obtain a where a: "unwrap v = Some a" and p: "place r (int (rw r)) a = Some v'"
    using assms(1) by (auto simp: draw_unwrap bind_Some_conv)
  from unwrap_next [OF a assms(2)] place_next [OF p] False show ?thesis
    by (auto simp: same_margins_def intro: vt_next_trans dest: vt_next_wf)
qed

lemma draw_total:
  assumes "vt_wf v" "margins_in v" "rw r \<le> 2"
  shows "\<exists>v'. draw rw v r = Some v'"
proof -
  obtain a where a: "unwrap v = Some a" using unwrap_total assms by blast
  with unwrap_next [OF a assms(1)] have "vt_wf a" "margins_in a"
    using assms(2) same_margins_in by (auto dest: vt_next_wf)
  then show ?thesis using a place_total [of a "int (rw r)" r] assms(3) by (simp add: draw_unwrap)
qed

section \<open>Erasing\<close>

lemma clear_span_length [simp]: "length (clear_span x0 x1 row) = length row"
  by (simp add: clear_span_def)

lemma erase_line_next:
  assumes "vt_wf v"
  shows "\<exists>v'. erase_line mode v = Some v' \<and> vt_next v v' \<and> same_margins v v' \<and> v_pend v' = v_pend v"
proof -
  have y: "0 \<le> v_cy v" "v_cy v < int (length (v_buf v))" "v_cy v < v_rows v" using assms by (auto simp: vt_wf_def)
  have wf: "vt_wf (v\<lparr>v_buf := (v_buf v)[nat (v_cy v) := row]\<rparr>)" if "int (length row) = v_cols v" for row
    using assms that by (auto simp: vt_wf_def dest: set_update_subset_insert [THEN subsetD])
  show ?thesis
    using y wf vt_wf_row [OF assms y(1,3)]
    by (simp add: erase_line_def Let_def vt_next_def same_size_def same_margins_def)
qed

lemma blank_rows_next: "vt_wf v \<Longrightarrow> vt_next v (blank_rows y0 y1 v) \<and> same_margins v (blank_rows y0 y1 v)
     \<and> v_pend (blank_rows y0 y1 v) = v_pend v"
  by (auto simp: blank_rows_def vt_next_def vt_wf_def same_size_def same_margins_def)

lemma blank_wf: "vt_wf v \<Longrightarrow> vt_wf (v\<lparr>v_buf := blank (v_cols v) (v_rows v)\<rparr>)"
  by (auto simp: vt_wf_def blank_def)

lemma drop_hist_wf: "vt_wf v \<Longrightarrow> vt_wf (v\<lparr>v_hist := []\<rparr>)"
  by (simp add: vt_wf_def)

lemma erase_display_next:
  assumes "vt_wf v"
  shows "\<exists>v'. erase_display mode v = Some v' \<and> vt_next v v' \<and> same_margins v v' \<and> v_pend v' = v_pend v"
proof -
  consider "mode = 0" | "mode = 1" | "mode = 2" | "mode = 3" | "mode \<notin> {0, 1, 2, 3}" by auto
  then show ?thesis
  proof cases
    case 1
    obtain a where a: "erase_line 0 v = Some a" "vt_next v a \<and> same_margins v a \<and> v_pend a = v_pend v"
      using erase_line_next [OF assms] by blast
    from blank_rows_next [OF vt_next_wf, of v a "v_cy v + 1" "v_rows v"] a show ?thesis
      by (auto simp: 1 erase_display_def same_margins_def intro: vt_next_trans)
  next
    case 2
    define a where "a = blank_rows 0 (v_cy v) v"
    have A: "vt_next v a \<and> same_margins v a \<and> v_pend a = v_pend v"
      unfolding a_def by (rule blank_rows_next [OF assms])
    obtain b where "erase_line 1 a = Some b" "vt_next a b \<and> same_margins a b \<and> v_pend b = v_pend a"
      using erase_line_next [OF vt_next_wf] A by blast
    then show ?thesis using A
      by (auto simp: 2 erase_display_def same_margins_def simp flip: a_def intro: vt_next_trans)
  next
    case 3
    show ?thesis using blank_wf [OF assms]
      by (simp add: 3 erase_display_def vt_next_def same_size_def same_margins_def)
  next
    case 4
    show ?thesis using drop_hist_wf [OF blank_wf [OF assms]]
      by (simp add: 4 erase_display_def vt_next_def same_size_def same_margins_def hist_le_def)
  next
    case 5
    then show ?thesis using assms by (simp add: erase_display_def vt_next_def same_size_def same_margins_def)
  qed
qed

section \<open>Control sequences\<close>

text \<open>After \<open>clampCursor\<close> the cursor is on the screen whatever the handler computed.\<close>

definition vt_wf_grid :: "vt \<Rightarrow> bool" where
  "vt_wf_grid v \<longleftrightarrow> vt_wf (v\<lparr>v_cx := 0, v_cy := 0\<rparr>)"

lemma clamp_int_range: "1 \<le> n \<Longrightarrow> 0 \<le> clamp_int n x \<and> clamp_int n x < n"
  by (auto simp: clamp_int_def Let_def)

lemma clamp_cursor_wf: "vt_wf_grid v \<Longrightarrow> vt_wf (clamp_cursor v)"
  using clamp_int_range [of "v_cols v" "v_cx v"] clamp_int_range [of "v_rows v" "v_cy v"]
  by (simp add: vt_wf_grid_def clamp_cursor_def vt_wf_def)

lemma vt_wf_gridI: "vt_wf v \<Longrightarrow> vt_wf_grid v"
  by (simp add: vt_wf_grid_def vt_wf_def)

lemma vt_wf_grid_frames [simp]:
  "vt_wf_grid (v\<lparr>v_cx := x\<rparr>) = vt_wf_grid v" "vt_wf_grid (v\<lparr>v_cy := x\<rparr>) = vt_wf_grid v"
  "vt_wf_grid (v\<lparr>v_wrap := b\<rparr>) = vt_wf_grid v" "vt_wf_grid (v\<lparr>v_top := x\<rparr>) = vt_wf_grid v"
  "vt_wf_grid (v\<lparr>v_bot := x\<rparr>) = vt_wf_grid v" "vt_wf_grid (v\<lparr>v_sync := b\<rparr>) = vt_wf_grid v"
  "vt_wf_grid (v\<lparr>v_pen := s\<rparr>) = vt_wf_grid v"
  by (simp_all add: vt_wf_grid_def vt_wf_def)

definition csi_next :: "vt \<Rightarrow> vt \<Rightarrow> bool" where
  "csi_next v v' \<longleftrightarrow> vt_wf_grid v' \<and> same_size v v' \<and> hist_le v v' \<and> v_pend v' = v_pend v"

lemma set_modes_next: "vt_wf v \<Longrightarrow> csi_next v (set_modes c ps v) \<and> same_margins v (set_modes c ps v)"
  using vt_wf_gridI [of v] by (simp add: set_modes_def csi_next_def same_size_def same_margins_def)

definition cursor_finals :: "byte set" where
  "cursor_finals = {CHR ''A'', CHR ''B'', CHR ''C'', CHR ''D'', CHR ''G'', CHR ''d'', CHR ''H'', CHR ''f''}"

lemma csi_op_next:
  assumes "vt_wf v"
  shows "\<exists>v'. csi_op c ps v = Some v' \<and> csi_next v v' \<and> (c \<noteq> CHR ''r'' \<longrightarrow> same_margins v v')"
proof -
  have er: "vt_next v v' \<Longrightarrow> v_pend v' = v_pend v \<Longrightarrow> csi_next v v'" for v'
    by (auto simp: vt_next_def csi_next_def intro: vt_wf_gridI)
  note vt_wf_gridI [OF assms, simp]
  consider "c = CHR ''J''" | "c = CHR ''K''" | "c = CHR ''r''" | "c = CHR ''m''"
    | "c \<in> cursor_finals"
    | "c \<notin> cursor_finals" "c \<noteq> CHR ''J''" "c \<noteq> CHR ''K''" "c \<noteq> CHR ''r''" "c \<noteq> CHR ''m''"
    by blast
  then show ?thesis
  proof cases
    case 1 with erase_display_next [OF assms, of "arg_or0 ps"] er show ?thesis by (auto simp: csi_op_def)
  next
    case 2 with erase_line_next [OF assms, of "arg_or0 ps"] er show ?thesis by (auto simp: csi_op_def)
  next
    case 3 then show ?thesis
      by (simp add: csi_op_def set_margins_def Let_def csi_next_def same_size_def)
  next
    case 4 then show ?thesis
      by (simp add: csi_op_def sgr_def csi_next_def same_size_def same_margins_def)
  next
    case 5 then show ?thesis
      unfolding cursor_finals_def
      by (elim insertE) (simp_all add: csi_op_def csi_next_def same_size_def same_margins_def)
  next
    case 6
    then have "csi_op c ps v = Some (set_modes c ps v)" by (simp add: csi_op_def cursor_finals_def)
    with set_modes_next [OF assms] show ?thesis by simp
  qed
qed

lemma csi_next:
  assumes "vt_wf v"
  shows "\<exists>v'. csi c v = Some v' \<and> vt_next v v' \<and> v_pend v' = v_pend v \<and> (c \<noteq> CHR ''r'' \<longrightarrow> same_margins v v')"
proof -
  obtain a where "csi_op c (params (v_parm v)) v = Some a" "csi_next v a" "c \<noteq> CHR ''r'' \<longrightarrow> same_margins v a"
    using csi_op_next [OF assms] by blast
  moreover from \<open>csi_next v a\<close> have "vt_wf (clamp_cursor (a\<lparr>v_wrap := False\<rparr>))"
    by (intro clamp_cursor_wf) (simp add: csi_next_def)
  ultimately show ?thesis
    by (auto simp: csi_def vt_next_def csi_next_def clamp_cursor_def same_size_def same_margins_def)
qed

end
