(* ===== verification/VTFeed.thy ===== *)
theory VTFeed
  imports VTWf
begin

text \<open>
  Properties of \<open>VT.Feed\<close> as a whole: it does not matter how the output stream is cut into reads,
  every read keeps the invariant, the history only grows, and the only way to panic is a scroll
  region outside the screen.
\<close>

section \<open>One step of the loop\<close>

lemma vt_next_frames [simp]:
  "vt_next v (v'\<lparr>v_st := st\<rparr>) = vt_next v v'" "vt_next v (v'\<lparr>v_wrap := b\<rparr>) = vt_next v v'"
  "vt_next v (v'\<lparr>v_parm := p\<rparr>) = vt_next v v'" "vt_next v (v'\<lparr>v_csi_pv := b\<rparr>) = vt_next v v'"
  "vt_next v (v'\<lparr>v_pend := p\<rparr>) = vt_next v v'"
  by (simp_all add: vt_next_def same_size_def hist_le_def)

lemma ground_ctl_next:
  assumes "ground_ctl v c = Some v'" "vt_wf v"
  shows "vt_next v v'"
proof -
  have cur: "0 \<le> v_cx v" "v_cx v < v_cols v" "1 \<le> v_cols v" using assms(2) by (simp_all add: vt_wf_def)
  have cx: "0 \<le> x \<Longrightarrow> x < v_cols v \<Longrightarrow> vt_next v (v\<lparr>v_cx := x\<rparr>)" for x
    using set_cx_next [OF assms(2)] by simp
  have cx': "vt_next v (v\<lparr>v_cx := 0\<rparr>)" "0 < v_cx v \<Longrightarrow> vt_next v (v\<lparr>v_cx := v_cx v - 1\<rparr>)"
    using cx cur by simp_all
  have lf: "line_feed v = Some u \<Longrightarrow> vt_next v u" for u
    using line_feed_next [OF _ assms(2)] by simp
  show ?thesis
    using assms(1) cur cx' vt_next_refl [OF assms(2)]
    by (auto simp: ground_ctl_def Let_def split: if_splits intro: cx dest: lf)
qed

lemma restore_next: "vt_wf v \<Longrightarrow> vt_next v (clamp_cursor (v\<lparr>v_cx := v_scx v, v_cy := v_scy v\<rparr>))"
  using clamp_cursor_wf [of "v\<lparr>v_cx := v_scx v, v_cy := v_scy v\<rparr>"] vt_wf_gridI [of v]
  by (simp add: vt_next_def same_size_def) (simp add: clamp_cursor_def)

lemma save_next: "vt_wf v \<Longrightarrow> vt_next v (v\<lparr>v_scx := v_cx v, v_scy := v_cy v\<rparr>)"
  by (simp add: vt_next_def same_size_def) (simp add: vt_wf_def)

lemma esc_byte_next:
  assumes "esc_byte v c = Some v'" "vt_wf v"
  shows "vt_next v v'"
proof -
  have lf: "line_feed v = Some u \<Longrightarrow> vt_next v u" for u using line_feed_next [OF _ assms(2)] by simp
  have nel: "line_feed (v\<lparr>v_cx := 0\<rparr>) = Some u \<Longrightarrow> vt_next v u" for u using wrap_line_next [OF _ assms(2)] by simp
  have ri: "reverse_index v = Some u \<Longrightarrow> vt_next v u" for u using reverse_index_next [OF _ assms(2)] by simp
  show ?thesis
    using assms(1) restore_next [OF assms(2)] save_next [OF assms(2)] vt_next_refl [OF assms(2)]
    by (auto simp: esc_byte_def split: if_splits dest: lf nel ri)
qed

lemma csi_byte_next:
  assumes "csi_byte v c = Some v'" "vt_wf v"
  shows "vt_next v v'"
proof (cases "c = CHR ''?'' \<or> c = CHR ''>'' \<or> c = CHR ''=''")
  case True
  then have "v' = (if c = CHR ''?'' then v\<lparr>v_csi_pv := True\<rparr> else v)" using assms(1) by (simp only: csi_byte_def if_True option.inject)
  then show ?thesis using vt_next_refl [OF assms(2)] by simp
next
  case False
  note c = False
  show ?thesis
  proof (cases "(48 \<le> ord c \<and> ord c \<le> (57::nat)) \<or> c = CHR '';''")
    case True
    then have "v' = v\<lparr>v_parm := v_parm v @ [c]\<rparr>" using assms(1) c by (simp only: csi_byte_def if_True if_False option.inject)
    then show ?thesis using vt_next_refl [OF assms(2)] by simp
  next
    case False
    then have "map_option (\<lambda>v. v\<lparr>v_st := StGround\<rparr>) (csi c v) = Some v'" using assms(1) c by (simp only: csi_byte_def if_False)
    then show ?thesis using csi_next [OF assms(2), of c] by auto
  qed
qed

lemma csi_byte_total: "vt_wf v \<Longrightarrow> \<exists>v'. csi_byte v c = Some v'"
  using csi_next [of v c] by (cases "csi c v") (simp_all only: csi_byte_def option.map option.distinct split: if_split, simp_all)

lemma ctl_byte_next: "ctl_byte v c = Some v' \<Longrightarrow> vt_wf v \<Longrightarrow> vt_next v v'"
  using ground_ctl_next [of v c v'] esc_byte_next [of v c v'] csi_byte_next [of v c v'] vt_next_refl [of v]
  by (cases "v_st v") (auto simp: ctl_byte_def split: if_splits)

lemma ctl_byte_total:
  assumes "vt_wf v" "margins_in v"
  shows "\<exists>v'. ctl_byte v c = Some v'"
proof (cases "v_st v")
  case StGround
  then show ?thesis using line_feed_total [OF assms] by (auto simp: ctl_byte_def ground_ctl_def)
next
  case StEsc
  then show ?thesis
    using line_feed_total [OF assms] wrap_line_total [OF assms] reverse_index_total [OF assms]
    by (auto simp: ctl_byte_def esc_byte_def)
next
  case StCSI
  then show ?thesis using csi_byte_total [OF assms(1), of c] by (simp add: ctl_byte_def)
qed (simp_all add: ctl_byte_def)

text \<open>Only an incomplete character is carried over to the next read.\<close>

lemma erase_line_pend: "erase_line m v = Some v' \<Longrightarrow> v_pend v' = v_pend v"
  by (auto simp: erase_line_def bind_Some_conv Let_def)

lemma erase_display_pend: "erase_display m v = Some v' \<Longrightarrow> v_pend v' = v_pend v"
  by (auto simp: erase_display_def blank_rows_def dest: erase_line_pend split: if_splits)

lemma csi_op_cases:
  assumes "csi_op c ps v = Some v'"
  obtains "\<exists>m. erase_display m v = Some v'" | "\<exists>m. erase_line m v = Some v'" | "c = CHR ''r''" "v' = set_margins ps v"
    | "v' = sgr ps v" | "v' = set_modes c ps v" | "\<exists>x y. v' = v\<lparr>v_cx := x, v_cy := y\<rparr>"
proof -
  have "\<exists>x y. v\<lparr>v_cx := x'\<rparr> = v\<lparr>v_cx := x, v_cy := y\<rparr>" for x'
    by (intro exI [of _ x'] exI [of _ "v_cy v"]) simp
  moreover have "\<exists>x y. v\<lparr>v_cy := y'\<rparr> = v\<lparr>v_cx := x, v_cy := y\<rparr>" for y'
    by (intro exI [of _ "v_cx v"] exI [of _ y']) simp
  moreover have "\<exists>x y. v\<lparr>v_cy := y', v_cx := x'\<rparr> = v\<lparr>v_cx := x, v_cy := y\<rparr>" for x' y'
    by (intro exI [of _ x'] exI [of _ y']) simp
  ultimately show ?thesis using assms that unfolding csi_op_def by (metis (no_types) option.inject)
qed

lemma csi_op_pend:
  assumes "csi_op c ps v = Some v'"
  shows "v_pend v' = v_pend v"
  using assms
  by (cases rule: csi_op_cases)
     (auto simp: sgr_def set_margins_def set_modes_def Let_def dest: erase_display_pend erase_line_pend)

lemma ctl_byte_pend:
  assumes "ctl_byte v c = Some v'"
  shows "v_pend v' = v_pend v"
proof -
  have lf: "line_feed u = Some u' \<Longrightarrow> v_pend u' = v_pend u" for u u' by (simp add: line_feed_frame)
  have lf0: "line_feed (v\<lparr>v_cx := 0\<rparr>) = Some u' \<Longrightarrow> v_pend u' = v_pend v" for u'
    using line_feed_frame [of "v\<lparr>v_cx := 0\<rparr>" u'] by simp
  have ri: "reverse_index v = Some u' \<Longrightarrow> v_pend u' = v_pend v" for u'
    by (auto simp: reverse_index_def bind_Some_conv split: if_splits)
  have cs: "csi c v = Some u' \<Longrightarrow> v_pend u' = v_pend v" for u'
    by (auto simp: csi_def clamp_cursor_def dest: csi_op_pend)
  show ?thesis
  proof (cases "v_st v")
    case StGround
    with assms show ?thesis by (auto simp: ctl_byte_def ground_ctl_def Let_def dest: lf split: if_splits)
  next
    case StEsc
    with assms show ?thesis
      by (auto simp: ctl_byte_def esc_byte_def clamp_cursor_def dest: lf lf0 ri split: if_splits)
  next
    case StCSI
    with assms show ?thesis by (auto simp: ctl_byte_def csi_byte_def dest: cs split: if_splits)
  qed (use assms in \<open>auto simp: ctl_byte_def split: if_splits\<close>)
qed

lemma utf8_len_bounds: "utf8_len b = Some n \<Longrightarrow> 1 \<le> n \<and> n \<le> 4"
  by (auto simp: utf8_len_def Let_def split: if_splits)

section \<open>The loop\<close>

lemma put_byte_next:
  "put_byte rw v p = Some (v', k, inc) \<Longrightarrow> vt_wf v \<Longrightarrow> vt_next v v'"
  using draw_next vt_next_refl [of v]
  by (fastforce simp: put_byte_def Let_def split: list.splits option.splits if_splits)

lemma draw_pend: "draw rw v r = Some v' \<Longrightarrow> v_pend v' = v_pend v"
proof -
  have sc: "set_cell u x y c = Some u' \<Longrightarrow> v_pend u' = v_pend u" for u u' x y c
    by (auto simp: set_cell_def bind_Some_conv)
  have lf: "line_feed u = Some u' \<Longrightarrow> v_pend u' = v_pend u" for u u' by (simp add: line_feed_frame)
  have pl: "place r w u = Some u' \<Longrightarrow> v_pend u' = v_pend u" for w u u'
    unfolding place_def Let_def by (auto simp: bind_Some_conv dest!: sc lf split: if_splits)
  have uw: "unwrap u = Some u' \<Longrightarrow> v_pend u' = v_pend u" for u u'
    by (auto simp: unwrap_def dest!: lf split: if_splits)
  assume "draw rw v r = Some v'"
  then show ?thesis by (auto simp: draw_unwrap bind_Some_conv dest!: pl uw split: if_splits)
qed

lemma put_byte_complete:
  assumes "put_byte rw v p = Some (v', k, False)"
  shows "put_byte rw v (p @ q) = Some (v', k, False) \<and> k < length p \<and> v_pend v' = v_pend v"
proof -
  obtain b r n where p: "p = b # r" and n: "utf8_len b = Some n \<or> utf8_len b = None"
    using assms by (cases p; cases "utf8_len (hd p)") (auto simp: put_byte_def)
  have t: "\<not> Suc (length r) < m \<Longrightarrow> take m (b # r @ q) = take m (b # r)" for m
    using take_append [of m "b # r" q] by simp
  show ?thesis
    using assms utf8_len_bounds [of b]
    by (auto simp: p t put_byte_def Let_def dest: draw_pend split: option.splits if_splits)
qed

lemma put_byte_incomplete:
  "put_byte rw v p = Some (v', k, True) \<Longrightarrow> v' = v\<lparr>v_pend := p\<rparr>"
  by (auto simp: put_byte_def Let_def split: option.splits if_splits list.splits)

lemma put_byte_None: "p \<noteq> [] \<Longrightarrow> put_byte rw v p = None \<Longrightarrow> put_byte rw v (p @ q) = None"
  by (auto simp: put_byte_def Let_def split: option.splits if_splits list.splits)

lemma pend_id: "v_pend v = [] \<Longrightarrow> v\<lparr>v_pend := []\<rparr> = v"
  by (cases v) simp

lemma feed_loop_append:
  assumes "v_pend v = []"
  shows "feed_loop rw v (p @ q) = Option.bind (feed_loop rw v p) (\<lambda>v'. feed rw v' q)"
  using assms
proof (induction rw v p rule: feed_loop.induct)
  case (1 rw v)
  then show ?case by (simp add: feed_def pend_id)
next
  case (2 rw v c p)
  show ?case
  proof (cases "v_st v = StGround \<and> 32 \<le> (ord c :: nat)")
    case False
    then show ?thesis using 2 by (auto simp: ctl_byte_pend split: option.splits)
  next
    case True
    show ?thesis
    proof (cases "put_byte rw v (c # p)")
      case None
      then show ?thesis using True put_byte_None [of "c # p" rw v q] by simp
    next
      case (Some r)
      obtain v' k inc where r: "r = (v', k, inc)" by (cases r)
      show ?thesis
      proof (cases inc)
        case inc: True
        have v': "v' = v\<lparr>v_pend := c # p\<rparr>" using Some r inc by (simp add: put_byte_incomplete)
        then show ?thesis using Some r inc True 2(3) by (simp add: feed_def pend_id)
      next
        case False
        have pc: "put_byte rw v ((c # p) @ q) = Some (v', k, False)" "k \<le> length p" "v_pend v' = []"
          using put_byte_complete [of rw v "c # p" v' k q] Some r False 2(3) by auto
        have "feed_loop rw v' (drop k p @ q) = Option.bind (feed_loop rw v' (drop k p)) (\<lambda>v'. feed rw v' q)"
          using 2(1) [OF True Some, of v' "(k, inc)" k inc] r False pc(3) by simp
        with pc Some r False True show ?thesis by simp
      qed
    qed
  qed
qed

lemma feed_loop_next: "feed_loop rw v p = Some v' \<Longrightarrow> vt_wf v \<Longrightarrow> vt_next v v'"
proof (induction rw v p rule: feed_loop.induct)
  case (2 rw v c p)
  show ?case
  proof (cases "v_st v = StGround \<and> 32 \<le> (ord c :: nat)")
    case False
    with 2(3) obtain u where u: "ctl_byte v c = Some u" "feed_loop rw u p = Some v'"
      by (simp split: option.splits)
    have "vt_next v u" using ctl_byte_next u 2(4) by blast
    with 2(2) [OF False u] show ?thesis using vt_next_trans vt_next_wf by blast
  next
    case True
    with 2(3) obtain u k inc where u: "put_byte rw v (c # p) = Some (u, k, inc)"
        "if inc then v' = u else feed_loop rw u (drop k p) = Some v'"
      by (simp split: option.splits prod.splits if_splits)
    have n: "vt_next v u" using put_byte_next u(1) 2(4) by blast
    show ?thesis
    proof (cases inc)
      case False
      with 2(1) [OF True u(1) refl refl] u(2) n show ?thesis using vt_next_trans vt_next_wf by auto
    qed (use n u(2) in simp)
  qed
qed (simp add: vt_next_refl)

lemma feed_next: "feed rw v p = Some v' \<Longrightarrow> vt_wf v \<Longrightarrow> vt_next v v'"
  using feed_loop_next [of rw "v\<lparr>v_pend := []\<rparr>" "v_pend v @ p" v']
  by (simp add: feed_def vt_next_def same_size_def hist_le_def)

lemma feed_append: "feed rw v (p @ q) = Option.bind (feed rw v p) (\<lambda>v'. feed rw v' q)"
  using feed_loop_append [of "v\<lparr>v_pend := []\<rparr>" rw "v_pend v @ p" q] by (simp add: feed_def)

section \<open>The carried-over bytes\<close>

definition pend_ok :: "vt \<Rightarrow> bool" where
  "pend_ok v \<longleftrightarrow> (case v_pend v of [] \<Rightarrow> True
     | b # r \<Rightarrow> v_st v = StGround \<and> 32 \<le> (ord b :: nat)
         \<and> (case utf8_len b of None \<Rightarrow> False | Some n \<Rightarrow> length (b # r) < n))"

lemma put_byte_incomplete_len:
  "put_byte rw v p = Some (v', k, True) \<Longrightarrow> \<exists>b r n. p = b # r \<and> utf8_len b = Some n \<and> length p < n"
  by (auto simp: put_byte_def Let_def split: option.splits if_splits list.splits)

lemma feed_loop_pend_ok: "feed_loop rw v p = Some v' \<Longrightarrow> v_pend v = [] \<Longrightarrow> pend_ok v'"
proof (induction rw v p rule: feed_loop.induct)
  case (2 rw v c p)
  show ?case
  proof (cases "v_st v = StGround \<and> 32 \<le> (ord c :: nat)")
    case False
    with 2(3) obtain u where u: "ctl_byte v c = Some u" "feed_loop rw u p = Some v'"
      by (simp split: option.splits)
    with 2(2) [OF False u] 2(4) ctl_byte_pend [OF u(1)] show ?thesis by simp
  next
    case True
    with 2(3) obtain u k inc where u: "put_byte rw v (c # p) = Some (u, k, inc)"
        "if inc then v' = u else feed_loop rw u (drop k p) = Some v'"
      by (simp split: option.splits prod.splits if_splits)
    show ?thesis
    proof (cases inc)
      case False
      with 2(1) [OF True u(1) refl refl] u put_byte_complete [of rw v "c # p" u k "[]"] 2(4) show ?thesis by simp
    next
      case inc: True
      then show ?thesis using u put_byte_incomplete [of rw v "c # p" u k]
          put_byte_incomplete_len [of rw v "c # p" u k] True by (auto simp: pend_ok_def)
    qed
  qed
qed (simp add: pend_ok_def)

lemma feed_pend_ok: "feed rw v p = Some v' \<Longrightarrow> pend_ok v'"
  unfolding feed_def by (erule feed_loop_pend_ok) simp

lemma feed_byte_total:
  assumes "vt_wf v" "margins_in v" "pend_ok v" "\<And>r. rw r \<le> 2"
  shows "\<exists>v'. feed rw v [c] = Some v'"
proof (cases "v_pend v")
  case Nil
  have ctl: "\<exists>u. ctl_byte v c = Some u" using ctl_byte_total assms(1,2) .
  have dr: "\<exists>u. draw rw v r = Some u" for r using draw_total assms by blast
  show ?thesis
  proof (cases "v_st v = StGround \<and> 32 \<le> (ord c :: nat)")
    case True
    have "\<exists>u k inc. put_byte rw v [c] = Some (u, k, inc)"
      using dr [of "ord c"] by (cases "utf8_len c") (auto simp: put_byte_def utf8_len_def Let_def split: if_splits)
    then show ?thesis using True by (auto simp: feed_def Nil pend_id)
  next
    case False
    then show ?thesis using ctl by (auto simp: feed_def Nil pend_id)
  qed
next
  case (Cons b r)
  then obtain n where n: "v_st v = StGround" "32 \<le> (ord b :: nat)" "utf8_len b = Some n" "length (b # r) < n"
    using assms(3) by (auto simp: pend_ok_def split: option.splits)
  let ?v = "v\<lparr>v_pend := []\<rparr>"
  have dr: "\<exists>u. draw rw ?v x = Some u" for x
    by (rule draw_total) (use assms in \<open>simp_all add: margins_in_def\<close>)
  have "\<exists>u k inc. put_byte rw ?v (b # r @ [c]) = Some (u, k, inc) \<and> (inc \<or> k = Suc (length r))"
  proof (cases "n = Suc (Suc (length r))")
    case True
    obtain u where "(if fst (decode_rune (b # r @ [c])) \<noteq> 0 then draw rw ?v (fst (decode_rune (b # r @ [c]))) else Some ?v) = Some u"
      using dr by fastforce
    with True n(3) have "put_byte rw ?v (b # r @ [c]) = Some (u, n - 1, False)"
      by (simp add: put_byte_def Let_def del: if_split)
    with True show ?thesis by auto
  next
    case False
    with n(3,4) show ?thesis by (simp add: put_byte_def) blast
  qed
  then show ?thesis using n(1,2) by (auto simp: feed_def Cons split: option.splits)
qed

lemma feed_total:
  assumes "vt_wf v" "pend_ok v" "\<And>r. rw r \<le> 2"
    and "\<And>n v'. n < length p \<Longrightarrow> feed rw v (take n p) = Some v' \<Longrightarrow> margins_in v'"
  shows "\<exists>v'. feed rw v p = Some v'"
  using assms(4)
proof (induction p rule: rev_induct)
  case Nil
  show ?case
  proof (cases "v_pend v")
    case (Cons b r)
    then obtain n where "v_st v = StGround" "32 \<le> (ord b :: nat)" "utf8_len b = Some n" "length (b # r) < n"
      using assms(2) by (auto simp: pend_ok_def split: option.splits)
    then show ?thesis using Cons by (auto simp: feed_def put_byte_def)
  qed (simp add: feed_def)
next
  case (snoc c p)
  have "\<exists>u. feed rw v p = Some u" 
  proof (rule snoc.IH)
    fix n u
    assume "n < length p" "feed rw v (take n p) = Some u"
    then show "margins_in u" using snoc.prems [of n u] by simp
  qed
  then obtain u where u: "feed rw v p = Some u" by blast
  have "margins_in u" using snoc.prems [of "length p" u] u by simp
  moreover have "vt_wf u" "pend_ok u" using feed_next [OF u assms(1)] feed_pend_ok [OF u] by (auto dest: vt_next_wf)
  ultimately show ?case using feed_byte_total [of u rw c] assms(3) u by (simp add: feed_append)
qed

end
