(* ===== verification/VTProps.thy ===== *)
theory VTProps
  imports VTFeed
begin

text \<open>
  What the screen model promises: it is a function of the byte stream alone, it keeps its invariant
  and history, it implements the log of a plain text stream, and the cursor can be saved, moved
  and restored by the escape sequences the child sends.
\<close>

section \<open>Plain text\<close>

text \<open>The grid row that shows a line, and the state after a line has been typed from column 0.\<close>

definition text_cells :: "style \<Rightarrow> bytes \<Rightarrow> cell list" where
  "text_cells p l = map (\<lambda>b. \<lparr>c_r = ord b, c_cont = False, c_st = p\<rparr>) l"

definition text_row :: "int \<Rightarrow> bytes \<Rightarrow> cell list" where
  "text_row cols l = text_cells style0 l @ replicate (nat cols - length l) cell0"

definition plain :: "bytes \<Rightarrow> bool" where
  "plain l \<longleftrightarrow> (\<forall>b\<in>set l. 32 \<le> (ord b :: nat) \<and> ord b < (127 :: nat))"

definition narrow :: "(rune \<Rightarrow> nat) \<Rightarrow> bool" where
  "narrow rw \<longleftrightarrow> (\<forall>r. 32 \<le> r \<and> r < 127 \<longrightarrow> rw r = 1)"

definition plain_stream :: "bytes list \<Rightarrow> bytes" where
  "plain_stream ls = concat (map (\<lambda>l. l @ [CHR 0x0D, CHR 0x0A]) ls)"

definition typed :: "vt \<Rightarrow> bytes \<Rightarrow> vt" where
  "typed v l = v\<lparr>v_buf := (v_buf v)[nat (v_cy v) :=
       text_cells (v_pen v) l @ drop (length l) (v_buf v ! nat (v_cy v))],
     v_cx := min (int (length l)) (v_cols v - 1), v_wrap := (int (length l) = v_cols v)\<rparr>"

definition at_line_start :: "vt \<Rightarrow> bool" where
  "at_line_start v \<longleftrightarrow> vt_wf v \<and> v_st v = StGround \<and> v_pend v = [] \<and> v_cx v = 0 \<and> \<not> v_wrap v"

lemma typed_Nil: "at_line_start v \<Longrightarrow> typed v [] = v"
proof -
  assume "at_line_start v"
  then have "v_cx v = 0" "v_wrap v = False" "1 \<le> v_cols v" by (auto simp: at_line_start_def vt_wf_def)
  then show ?thesis by (cases v) (simp add: typed_def text_cells_def)
qed

lemma text_cells_simps [simp]:
  "length (text_cells p l) = length l"
  "text_cells p (l @ [c]) = text_cells p l @ [\<lparr>c_r = ord c, c_cont = False, c_st = p\<rparr>]"
  by (simp_all add: text_cells_def)

lemma draw_plain:
  assumes v: "vt_wf v" "\<not> v_wrap v" and rw: "rw r = 1"
  shows "draw rw v r = Some (v\<lparr>v_buf := (v_buf v)[nat (v_cy v) :=
           (v_buf v ! nat (v_cy v))[nat (v_cx v) := \<lparr>c_r = r, c_cont = False, c_st = v_pen v\<rparr>]],
         v_cx := min (v_cx v + 1) (v_cols v - 1), v_wrap := (v_cx v + 1 = v_cols v)\<rparr>)"
proof -
  have c: "0 \<le> v_cx v" "v_cx v < v_cols v" "0 \<le> v_cy v" "v_cy v < int (length (v_buf v))" "v_cy v < v_rows v"
    using v(1) by (auto simp: vt_wf_def)
  have row: "int (length (v_buf v ! nat (v_cy v))) = v_cols v" using vt_wf_row [OF v(1) c(3,5)] .
  from c row v(2) rw show ?thesis
    by (cases "v_cx v + 1 = v_cols v") (simp_all add: draw_unwrap unwrap_def place_def set_cell_def Let_def)
qed

lemma typed_snoc:
  assumes v: "at_line_start v" and l: "int (length l) < v_cols v" and c: "32 \<le> (ord c :: nat)" "ord c < (127 :: nat)"
    and rw: "narrow rw" and wf: "vt_wf (typed v l)"
  shows "feed rw (typed v l) [c] = Some (typed v (l @ [c]))"
proof -
  have y: "0 \<le> v_cy v" "v_cy v < v_rows v" "nat (v_cy v) < length (v_buf v)"
    using v by (auto simp: at_line_start_def vt_wf_def)
  have row: "length (v_buf v ! nat (v_cy v)) = nat (v_cols v)"
    using vt_wf_row [of v "v_cy v"] y v by (simp add: at_line_start_def)
  have u: "utf8_len c = Some 1" using c by (simp add: utf8_len_def)
  have d: "draw rw (typed v l) (ord c) = Some (typed v (l @ [c]))"
    using draw_plain [OF wf, of rw "ord c"] rw c l y row
    by (simp add: typed_def narrow_def) (simp add: list_update_append Cons_nth_drop_Suc [symmetric] add.commute)
  have p: "v_pend (typed v l) = []" "v_st (typed v l) = StGround" using v by (simp_all add: typed_def at_line_start_def)
  show ?thesis using c u d p by (simp add: feed_def pend_id put_byte_def)
qed

lemma typed_line:
  assumes v: "at_line_start v" and rw: "narrow rw"
  shows "plain l \<Longrightarrow> int (length l) \<le> v_cols v \<Longrightarrow> feed rw v l = Some (typed v l) \<and> vt_wf (typed v l)"
proof (induction l rule: rev_induct)
  case Nil
  then show ?case using v by (simp add: typed_Nil feed_def pend_id at_line_start_def)
next
  case (snoc c l)
  then have IH: "feed rw v l = Some (typed v l)" "vt_wf (typed v l)" by (auto simp: plain_def)
  have "feed rw (typed v l) [c] = Some (typed v (l @ [c]))"
    by (rule typed_snoc [OF v]) (use snoc.prems rw IH in \<open>auto simp: plain_def\<close>)
  with IH show ?case by (auto simp: feed_append dest: feed_next vt_next_wf)
qed

text \<open>The log the screen implements: the lines typed so far, the last of them still on the screen.\<close>

definition shows_log :: "vt \<Rightarrow> cell list list \<Rightarrow> bool" where
  "shows_log v L \<longleftrightarrow> at_line_start v \<and> v_top v = 0 \<and> v_bot v = v_rows v - 1 \<and> v_pen v = style0
     \<and> v_cy v = min (int (length L)) (v_rows v - 1)
     \<and> v_hist_total v = int (length L) - v_cy v
     \<and> v_hist v = keep_last hist_max (take (length L - nat (v_cy v)) L)
     \<and> take (nat (v_cy v)) (v_buf v) = drop (length L - nat (v_cy v)) L
     \<and> drop (nat (v_cy v)) (v_buf v) = replicate (nat (v_rows v - v_cy v)) (blank_line (v_cols v))"

lemma keep_last_keep_last_snoc: "keep_last h (keep_last h xs @ [x]) = keep_last h (xs @ [x])"
  by (cases "h = length xs") (auto simp: keep_last_def Suc_diff_le)

lemma drop_to_last: "xs \<noteq> [] \<Longrightarrow> drop (length xs - 1) xs = [last xs]"
  by (metis append_butlast_last_id append_eq_conv_conj length_butlast)

lemma newline:
  assumes v: "at_line_start v" and l: "int (length l) \<le> v_cols v" and wf: "vt_wf (typed v l)"
    and m: "v_top v = 0" "v_bot v = v_rows v - 1"
  shows "feed rw (typed v l) [CHR 0x0D, CHR 0x0A] = Some (
     let buf = v_buf (typed v l) in
     if v_cy v = v_rows v - 1
     then v\<lparr>v_hist := keep_last hist_max (v_hist v @ [hd buf]), v_hist_total := v_hist_total v + 1,
            v_buf := tl buf @ [blank_line (v_cols v)]\<rparr>
     else v\<lparr>v_cy := v_cy v + 1, v_buf := buf\<rparr>)"
proof -
  define w where "w = v\<lparr>v_buf := v_buf (typed v l)\<rparr>"
  have cr: "ctl_byte (typed v l) (CHR 0x0D) = Some w"
    using v by (cases v) (simp add: ctl_byte_def ground_ctl_def typed_def w_def at_line_start_def)
  have w: "int (length (v_buf w)) = v_rows v" "1 \<le> v_rows v" "v_cy v < v_rows v"
    "\<forall>row\<in>set (v_buf w). int (length row) = v_cols v"
    using wf by (simp_all add: vt_wf_def w_def typed_def)
  then obtain r0 rs where buf: "v_buf w = r0 # rs" by (cases "v_buf w") auto
  have su: "shift_up (v_buf w) 0 (v_rows v - 1) = Some (rs @ [last (r0 # rs)])"
  proof -
    have n: "nat (v_rows v - 1) = length rs" using w(1) buf by simp
    have "drop (length rs) (r0 # rs) = [last (r0 # rs)]" using drop_to_last [of "r0 # rs"] by simp
    then show ?thesis using shift_up_Some [of 0 "v_rows v - 1" "v_buf w"] w(1,2) n buf by simp
  qed
  have lf: "line_feed w = Some (if v_cy v = v_rows v - 1
     then v\<lparr>v_hist := keep_last hist_max (v_hist v @ [r0]), v_hist_total := v_hist_total v + 1,
            v_buf := rs @ [blank_line (v_cols v)]\<rparr>
     else v\<lparr>v_cy := v_cy v + 1, v_buf := v_buf w\<rparr>)"
  proof (cases "v_cy v = v_rows v - 1")
    case True
    have "copy_line (v_cols v) r0 = r0" using w(4) buf by (intro copy_line_id) auto
    moreover have "upd (rs @ [last (r0 # rs)]) (v_rows v - 1) (blank_line (v_cols v)) = Some (rs @ [blank_line (v_cols v)])"
    proof -
      have "v_rows v - 1 = int (length rs)" using w(1) buf by simp
      then show ?thesis by (simp add: upd_def list_update_append)
    qed
    moreover have "idx (v_buf w) 0 = Some r0" using buf by (simp add: idx_def)
    ultimately show ?thesis using True su m by (simp add: line_feed_def w_def)
  next
    case False
    then show ?thesis using m w(3) by (simp add: line_feed_def w_def)
  qed
  have nw: "\<not> v_wrap u \<Longrightarrow> u\<lparr>v_wrap := False\<rparr> = u" for u by (cases u) simp
  have st: "v_st (typed v l) = StGround" "v_pend (typed v l) = []" "v_st w = StGround" "\<not> v_wrap v"
    using v by (simp_all add: typed_def w_def at_line_start_def)
  have "feed rw (typed v l) [CHR 0x0D, CHR 0x0A] = map_option (\<lambda>u. u\<lparr>v_wrap := False\<rparr>) (line_feed w)"
    using st cr by (cases "line_feed w") (simp_all add: feed_def pend_id ctl_byte_def [of w] ground_ctl_def)
  moreover have "hd (v_buf (typed v l)) = r0" "tl (v_buf (typed v l)) = rs" "v_buf w = v_buf (typed v l)"
    using buf by (simp_all add: w_def)
  ultimately show ?thesis using lf st(4) by (simp add: nw Let_def)
qed

lemma typed_row:
  assumes L: "shows_log v L" and l: "int (length l) \<le> v_cols v" and m: "v_cy v = int m"
  shows "v_buf (typed v l) = drop (length L - m) L @ text_row (v_cols v) l # drop (Suc m) (v_buf v)"
proof -
  have v: "vt_wf v" "v_pen v = style0" using L by (simp_all add: shows_log_def at_line_start_def)
  then have R: "v_rows v = int (length (v_buf v))" "m < length (v_buf v)" using m by (simp_all add: vt_wf_def)
  have "drop m (v_buf v) = replicate (length (v_buf v) - m) (blank_line (v_cols v))"
    using L by (simp add: shows_log_def m R nat_diff_distrib nat_minus_as_int)
  then have "v_buf v ! m = blank_line (v_cols v)"
    by (metis R(2) hd_drop_conv_nth hd_replicate replicate_empty zero_less_diff less_numeral_extra(3))
  moreover have "take m (v_buf v) = drop (length L - m) L" using L by (simp add: shows_log_def m)
  ultimately show ?thesis using v(2) l R(2) m by (simp add: typed_def text_row_def blank_line_def upd_conv_take_nth_drop)
qed

lemma log_scrolled:
  assumes L: "shows_log v L" and wf: "vt_wf v'" and m: "v_cy v = int m" "length (v_buf v) = Suc m"
    and K_def: "K = L @ [r]" and k_def: "k = length L - m"
    and ve: "v' = v\<lparr>v_hist := keep_last hist_max (v_hist v @ [K ! k]), v_hist_total := v_hist_total v + 1,
    v_buf := drop (Suc k) K @ [blank_line (v_cols v)]\<rparr>"
  shows "shows_log v' K"
proof -
  have R: "v_rows v = int (Suc m)" using L m(2) by (simp add: shows_log_def at_line_start_def vt_wf_def)
  have "v_cy v = min (int (length L)) (v_rows v - 1)" using L by (simp add: shows_log_def)
  then have mL: "m \<le> length L" using m(1) by linarith
  have "take (Suc k) K = take k K @ [K ! k]" by (rule take_Suc_conv_app_nth) (simp add: K_def k_def)
  moreover have "v_hist v = keep_last hist_max (take k K)" using L by (simp add: shows_log_def m k_def K_def)
  ultimately have h: "v_hist v' = keep_last hist_max (take (Suc k) K)" by (simp add: ve keep_last_keep_last_snoc)
  have k: "length K - m = Suc k" "length K = Suc (length L)" "length (drop (Suc k) K) = m" using mL by (simp_all add: K_def k_def)
  have st: "at_line_start v'" using L wf by (simp add: shows_log_def at_line_start_def ve)
  have f: "v_top v' = 0" "v_bot v' = v_rows v' - 1" "v_pen v' = style0" "v_cy v' = int m" "v_rows v' = int (Suc m)"
    "v_hist_total v' = int (length L) - int m + 1" "v_buf v' = drop (Suc k) K @ [blank_line (v_cols v')]"
    using L m R by (simp_all add: shows_log_def ve)
  have c: "int m = min (int (length K)) (v_rows v' - 1)" using mL by (simp add: f k)
  show ?thesis unfolding shows_log_def using st h c mL k by (simp add: f)
qed

lemma log_appended:
  assumes L: "shows_log v L" and wf: "vt_wf v'" and m: "v_cy v = int (length L)" "Suc (length L) < length (v_buf v)"
    and ve: "v' = v\<lparr>v_cy := v_cy v + 1, v_buf := L @ r # drop (Suc (length L)) (v_buf v)\<rparr>"
  shows "shows_log v' (L @ [r])"
proof -
  have R: "v_rows v = int (length (v_buf v))" using L by (simp add: shows_log_def at_line_start_def vt_wf_def)
  have "drop (length L) (v_buf v) = replicate (length (v_buf v) - length L) (blank_line (v_cols v))"
    using L by (simp add: shows_log_def m R nat_diff_distrib nat_minus_as_int)
  then have "drop (Suc (length L)) (v_buf v) = replicate (length (v_buf v) - Suc (length L)) (blank_line (v_cols v))"
    by (metis drop_Suc tl_drop tl_replicate diff_Suc_eq_diff_pred diff_commute diff_Suc_1)
  moreover have "nat (int (length L) + 1) = Suc (length L)" by simp
  moreover have "v_hist v = []" using L by (simp add: shows_log_def m)
  ultimately show ?thesis
    using wf L R m by (simp add: shows_log_def at_line_start_def ve nat_diff_distrib')
qed

lemma log_step:
  assumes L: "shows_log v L" and l: "plain l" "int (length l) \<le> v_cols v" and rw: "narrow rw"
  shows "\<exists>v'. feed rw v (l @ [CHR 0x0D, CHR 0x0A]) = Some v' \<and> shows_log v' (L @ [text_row (v_cols v) l])
     \<and> same_size v v'"
proof -
  have v: "at_line_start v" using L by (simp add: shows_log_def)
  have t: "feed rw v l = Some (typed v l)" "vt_wf (typed v l)" using typed_line [OF v rw] l by auto
  obtain m where m: "v_cy v = int m" "m < length (v_buf v)" and R: "v_rows v = int (length (v_buf v))"
    using v by (metis at_line_start_def vt_wf_def nonneg_int_cases of_nat_less_iff)
  define r k where "r = text_row (v_cols v) l" and "k = length L - m"
  have cy: "int m = min (int (length L)) (v_rows v - 1)" using L m by (simp add: shows_log_def)
  have buf: "v_buf (typed v l) = drop k L @ r # drop (Suc m) (v_buf v)" using typed_row [OF L l(2) m(1)] by (simp add: r_def k_def)
  have tb: "v_top v = 0" "v_bot v = v_rows v - 1" using L by (simp_all add: shows_log_def)
  obtain v' where v': "feed rw (typed v l) [CHR 0x0D, CHR 0x0A] = Some v'" using newline [OF v l(2) t(2) tb] by blast
  have wf: "vt_wf v'" "same_size v v'"
    using feed_next [OF v' t(2)] by (simp_all add: vt_next_def same_size_def typed_def)
  have "shows_log v' (L @ [r])"
  proof (cases "v_cy v = v_rows v - 1")
    case True
    then have mB: "length (v_buf v) = Suc m" using m R by simp
    have k: "k < length (L @ [r])" "k \<le> length L" by (simp_all add: k_def)
    then have "v_buf (typed v l) = drop k (L @ [r])" using buf mB by simp
    then have hb: "hd (v_buf (typed v l)) = (L @ [r]) ! k" "tl (v_buf (typed v l)) = drop (Suc k) (L @ [r])"
      using k by (simp_all only: hd_drop_conv_nth drop_Suc tl_drop)
    show ?thesis
      using newline [OF v l(2) t(2) tb, of rw] v' True hb
      by (intro log_scrolled [OF L wf(1) m(1) mB refl k_def]) simp
  next
    case False
    then have mn: "m = length L" "Suc (length L) < length (v_buf v)" using m R cy by (auto simp: min_def split: if_splits)
    then show ?thesis
      using newline [OF v l(2) t(2) tb, of rw] v' False buf
      by (intro log_appended [OF L wf(1)]) (simp_all add: m(1) k_def)
  qed
  with v' wf t show ?thesis by (auto simp: r_def feed_append)
qed

lemma log_stream:
  assumes "narrow rw"
  shows "shows_log v L \<Longrightarrow> (\<And>l. l \<in> set ls \<Longrightarrow> plain l \<and> int (length l) \<le> v_cols v) \<Longrightarrow>
    \<exists>v'. feed rw v (plain_stream ls) = Some v' \<and> shows_log v' (L @ map (text_row (v_cols v)) ls) \<and> same_size v v'"
proof (induction ls arbitrary: v L)
  case Nil
  then show ?case
    by (auto simp: plain_stream_def feed_def pend_id shows_log_def at_line_start_def same_size_def)
next
  case (Cons l ls)
  obtain u where u: "feed rw v (l @ [CHR 0x0D, CHR 0x0A]) = Some u" "shows_log u (L @ [text_row (v_cols v) l])"
      "same_size v u"
    using log_step [OF Cons.prems(1) _ _ assms] Cons.prems(2) by force
  have "v_cols u = v_cols v" using u(3) by (simp add: same_size_def)
  then obtain v' where "feed rw u (plain_stream ls) = Some v'"
      "shows_log v' ((L @ [text_row (v_cols v) l]) @ map (text_row (v_cols v)) ls)" "same_size u v'"
    using Cons.IH [OF u(2)] Cons.prems(2) by auto
  moreover have "plain_stream (l # ls) = (l @ [CHR 0x0D, CHR 0x0A]) @ plain_stream ls"
    by (simp add: plain_stream_def)
  ultimately show ?case using u(1,3) feed_append [of rw v "l @ [CHR 0x0D, CHR 0x0A]" "plain_stream ls"]
    by (simp add: same_size_def)
qed

lemma line_text_row:
  assumes "plain l"
  shows "line_text (text_row cols l) = trim_right_set l '' ''"
proof -
  have 1: "plain l \<Longrightarrow> concat (map (\<lambda>c. if c_cont c then [] else if c_r c = 0 then '' '' else encode_rune (c_r c))
      (text_cells style0 l)) = l" for l
    by (induction l) (auto simp: plain_def text_cells_def)
  have 2: "concat (map (\<lambda>c. if c_cont c then [] else if c_r c = 0 then '' '' else encode_rune (c_r c))
      (replicate n cell0)) = replicate n (CHR '' '')" for n
    by (induction n) (simp_all add: cell0_def)
  show ?thesis
    unfolding line_text_def text_row_def map_append concat_append 1 [OF assms] 2
    by (rule trim_right_set_append_cut) (simp add: set_replicate_conv_if)
qed

section \<open>Cursor addressing\<close>

abbreviation digit_step :: "int \<Rightarrow> byte \<Rightarrow> int" where
  "digit_step n ch \<equiv> i64 (n * 10 + (int (ord ch) - 48))"

lemma digits_value: "int n < 2 ^ 63 \<Longrightarrow> foldl digit_step 0 (show_nat n) = int n"
proof (induction n rule: show_nat.induct)
  case (1 n)
  show ?case
  proof (cases "n < 10")
    case True
    then show ?thesis by (subst show_nat.simps) simp
  next
    case False
    have "int (n div 10) * 10 + int (n mod 10) = int n" using div_mult_mod_eq [of n 10] by linarith
    moreover have "int (n div 10) < 2 ^ 63" using 1(2) by linarith
    ultimately show ?thesis using False 1 by (subst show_nat.simps) simp
  qed
qed

lemma show_nat_csi: "c \<in> set (show_nat n) \<Longrightarrow> 48 \<le> (ord c :: nat) \<and> ord c \<le> (57 :: nat) \<and> c \<noteq> CHR '';''"
  using show_nat_digits [of c n] by (auto simp: is_digit_def)

lemma params_two: "int a < 2 ^ 63 \<Longrightarrow> int b < 2 ^ 63 \<Longrightarrow>
    params (show_nat a @ CHR '';'' # show_nat b) = [int a, int b]"
proof -
  have no: "CHR '';'' \<notin> set (show_nat n)" for n using show_nat_csi by blast
  assume "int a < 2 ^ 63" "int b < 2 ^ 63"
  then show ?thesis using digits_value [of a] digits_value [of b]
    by (simp add: params_def split_on_sep [OF no] split_on_word [OF no])
qed

lemma feed_csi_params:
  assumes "v_st v = StCSI"
  shows "(\<And>c. c \<in> set s \<Longrightarrow> (48 \<le> (ord c :: nat) \<and> ord c \<le> (57 :: nat)) \<or> c = CHR '';'') \<Longrightarrow>
     feed_loop rw v (s @ p) = feed_loop rw (v\<lparr>v_parm := v_parm v @ s\<rparr>) p"
  using assms
proof (induction s arbitrary: v)
  case (Cons c s)
  have "c \<noteq> CHR ''?''" "c \<noteq> CHR ''>''" "c \<noteq> CHR ''=''" using Cons.prems(1) [of c] by auto
  moreover have "(48 \<le> (ord c :: nat) \<and> ord c \<le> (57 :: nat)) \<or> c = CHR '';''" using Cons.prems(1) by simp
  ultimately have "ctl_byte v c = Some (v\<lparr>v_parm := v_parm v @ [c]\<rparr>)"
    using Cons.prems(2) by (simp add: ctl_byte_def csi_byte_def)
  then show ?case using Cons.IH [of "v\<lparr>v_parm := v_parm v @ [c]\<rparr>"] Cons.prems by simp
qed simp

definition ground :: "vt \<Rightarrow> bool" where
  "ground v \<longleftrightarrow> v_st v = StGround \<and> v_pend v = []"

definition cup :: "int \<Rightarrow> int \<Rightarrow> bytes" where
  "cup x y = ESC # CHR ''['' # show_nat (nat (y + 1)) @ CHR '';'' # show_nat (nat (x + 1)) @ ''H''"

lemma feed_cup:
  assumes v: "ground v" and x: "0 \<le> x" "x < 2 ^ 62" and y: "0 \<le> y" "y < 2 ^ 62"
  shows "feed rw v (cup x y) = Some (clamp_cursor (v\<lparr>v_st := StGround, v_csi_pv := False,
     v_parm := show_nat (nat (y + 1)) @ CHR '';'' # show_nat (nat (x + 1)), v_cx := x, v_cy := y, v_wrap := False\<rparr>))"
proof -
  let ?ps = "show_nat (nat (y + 1)) @ CHR '';'' # show_nat (nat (x + 1))"
  let ?v = "v\<lparr>v_st := StCSI, v_parm := [], v_csi_pv := False\<rparr>"
  have ps: "params ?ps = [y + 1, x + 1]" using x y by (subst params_two) auto
  have 1: "feed_loop rw v (cup x y) = feed_loop rw ?v (?ps @ ''H'')"
    using v by (simp add: ground_def cup_def ctl_byte_def ground_ctl_def esc_byte_def)
  have 2: "feed_loop rw ?v (?ps @ ''H'') = feed_loop rw (?v\<lparr>v_parm := ?ps\<rparr>) ''H''"
    using feed_csi_params [of ?v ?ps rw "''H''"] show_nat_csi by fastforce
  have 3: "csi_op (CHR ''H'') [y + 1, x + 1] (?v\<lparr>v_parm := ?ps\<rparr>) = Some (?v\<lparr>v_parm := ?ps, v_cx := x, v_cy := y\<rparr>)"
    using x y by (simp add: csi_op_def arg_def)
  show ?thesis
    using v 1 2 ps 3
    by (simp add: feed_def pend_id ground_def ctl_byte_def csi_byte_def csi_def clamp_cursor_def)
qed

end
