(* ===== verification/VTClaims.thy ===== *)
theory VTClaims
  imports VTProps
begin

text \<open>
  The properties of the screen model (\<open>internal/screen/vt.go\<close>), stated over \<open>feed\<close>, each with a
  concrete instance where it has hypotheses.
\<close>

definition rw1 :: "rune \<Rightarrow> nat" where
  "rw1 r = (if r < 32 then 0 else if r < 4352 then 1 else 2)"

lemma rw1_narrow: "narrow rw1" "rw1 r \<le> 2"
  by (simp_all add: narrow_def rw1_def)

text \<open>C1: How the child's output is cut into reads does not matter: feeding the chunks one after the
  other gives the same screen (or the same panic) as feeding their concatenation, whatever the state
  and even when a chunk boundary falls inside an escape sequence or a multi-byte character.\<close>

theorem vt_feed_chunks: "run_steps (feed rw) v (c # cs) = feed rw v (c @ concat cs)"
proof (induction cs arbitrary: v c)
  case (Cons d cs)
  then show ?case by (simp add: feed_append)
qed simp

text \<open>C2: Every read keeps the screen well formed: the grid keeps its dimensions, the cursor and the
  saved cursor stay on it, the history rows keep their width and their number stays within
  \<open>histMax\<close> and the running total.\<close>

theorem vt_feed_invariant: "vt_wf v \<Longrightarrow> feed rw v p = Some v' \<Longrightarrow> vt_wf v' \<and> same_size v v'"
  using feed_next [of rw v p v'] by (simp add: vt_next_def)

theorem vt_feed_invariant_witness:
  "\<exists>v'. feed rw1 (new_model 4 2) ''ab'' = Some v' \<and> vt_wf v'"
  using vt_feed_invariant [OF new_model_wf, of 4 2 rw1 "''ab''"]
  by (simp add: feed_def new_model_def blank_def blank_line_def put_byte_def utf8_len_def draw_def rw1_def
      place_def set_cell_def Let_def)

text \<open>C7: The history is append-only: a read appends the rows it scrolls out, counts each of them in
  \<open>histTotal\<close>, and otherwise only drops rows at the old end (the \<open>histMax\<close> trim, or all of them for
  \<open>ED 3\<close>). A retained row therefore keeps its global index \<open>histTotal - distance from the end\<close>.\<close>

theorem vt_history_append_only:
  "vt_wf v \<Longrightarrow> feed rw v p = Some v' \<Longrightarrow>
   \<exists>new. v_hist_total v' = v_hist_total v + int (length new) \<and> suffix (v_hist v') (v_hist v @ new)"
  using feed_next [of rw v p v'] by (simp add: vt_next_def hist_le_def)

theorem vt_history_append_only_witness:
  "\<exists>v' new. feed rw1 (new_model 4 1) [CHR 0x0A] = Some v' \<and> v_hist_total v' = 0 + int (length new)
     \<and> suffix (v_hist v') ([] @ new) \<and> v_hist_total v' = 1"
proof -
  let ?v = "new_model 4 1"
  have f: "\<exists>v'. feed rw1 ?v [CHR 0x0A] = Some v' \<and> v_hist_total v' = 1"
    by (simp add: feed_def new_model_def blank_def ctl_byte_def ground_ctl_def line_feed_def shift_up.simps)
  have "vt_wf ?v" by (rule new_model_wf) simp_all
  with f vt_history_append_only [of ?v rw1 "[CHR 0x0A]"] show ?thesis by (auto simp: new_model_def)
qed

text \<open>C19: The only way to panic is a scroll region outside the screen: if after every proper prefix of
  the input the margins set by DECSTBM lie on the screen, the read returns.\<close>

theorem vt_no_panic:
  assumes "vt_wf v" and "pend_ok v" and "\<And>r. rw r \<le> 2"
    and "\<And>n v'. n < length p \<Longrightarrow> feed rw v (take n p) = Some v' \<Longrightarrow> margins_in v'"
  shows "\<exists>v'. feed rw v p = Some v'"
  using assms by (rule feed_total)

theorem vt_no_panic_witness: "\<exists>v'. feed rw1 (new_model 4 2) [CHR 0x0A] = Some v'"
proof (rule vt_no_panic)
  fix n v'
  assume "n < length [CHR 0x0A]" "feed rw1 (new_model 4 2) (take n [CHR 0x0A]) = Some v'"
  then show "margins_in v'" by (auto simp: feed_def new_model_def margins_in_def)
next
  show "vt_wf (new_model 4 2)" by (rule new_model_wf) simp_all
  show "pend_ok (new_model 4 2)" by (simp add: pend_ok_def new_model_def)
qed (rule rw1_narrow)

text \<open>\<open>DECSTBM\<close> does not clamp its margins: on any screen with fewer than 100 rows the input
  \<open>ESC [ 1 ; 100 r ESC M\<close> (a reverse index at the top of the region) indexes the grid out of range,
  so the relay process panics on output the child is free to send.\<close>

theorem vt_margins_panic:
  assumes "1 \<le> cols" and "1 \<le> rows" and "rows < 100"
  shows "feed rw (new_model cols rows) (ESC # ''[1;100r'' @ [ESC, CHR ''M'']) = None"
proof -
  let ?v = "new_model cols rows\<lparr>v_st := StCSI, v_parm := ''1;100''\<rparr>"
  have c: "csi_byte ?v (CHR ''r'') = Some (?v\<lparr>v_st := StGround, v_bot := 99\<rparr>)"
    using assms by (simp add: csi_byte_def csi_def params_def csi_op_def set_margins_def Let_def
        clamp_cursor_def clamp_int_def new_model_def)
  have d: "shift_down b 99 0 = None" if "int (length b) = rows" for b
    using that assms by (subst shift_down.simps) (auto simp: bind_None_conv upd_def)
  have "reverse_index (new_model cols rows\<lparr>v_st := StEsc, v_parm := ''1;100'', v_bot := 99\<rparr>) = None"
    using d [of "blank cols rows"] assms by (simp add: reverse_index_def new_model_def blank_def)
  then show ?thesis
    using c by (simp add: feed_def ctl_byte_def ground_ctl_def esc_byte_def csi_byte_def [of _ "CHR ''1''"]
        csi_byte_def [of _ "CHR '';''"] csi_byte_def [of _ "CHR ''0''"] new_model_def)
qed

theorem vt_margins_panic_witness: "feed rw1 (new_model 80 24) (ESC # ''[1;100r'' @ [ESC, CHR ''M'']) = None"
  by (rule vt_margins_panic) simp_all

text \<open>C12: On a stream of plain text lines the screen implements the log of those lines: after \<open>n\<close>
  lines on \<open>rows\<close> rows the history holds the lines that no longer fit (up to \<open>histMax\<close>), the rows above the cursor show
  the latest ones, each without trailing spaces, and \<open>histTotal\<close> counts the scrolled-out lines.\<close>

theorem vt_plain_log:
  assumes "1 \<le> cols" and "1 \<le> rows" and "narrow rw" and "\<And>l. l \<in> set ls \<Longrightarrow> plain l \<and> int (length l) \<le> cols"
  defines "full \<equiv> map (\<lambda>l. trim_right_set l '' '') ls"
  defines "gone \<equiv> length ls - nat (rows - 1)"
  shows "\<exists>v'. feed rw (new_model cols rows) (plain_stream ls) = Some v'
    \<and> history_lines v' = keep_last hist_max (take gone full)
    \<and> take (nat (v_cy v')) (visible_lines v') = drop gone full
    \<and> v_hist_total v' = int gone"
proof -
  let ?v = "new_model cols rows"
  have "shows_log ?v []" using new_model_wf [OF assms(1,2)] assms(2)
    by (simp add: shows_log_def at_line_start_def) (simp add: new_model_def blank_def min_def)
  from log_stream [OF assms(3) this, of ls] assms(4) obtain v' where
    f: "feed rw ?v (plain_stream ls) = Some v'" and L: "shows_log v' (map (text_row cols) ls)" and s: "same_size ?v v'"
    by (auto simp: new_model_def)
  have tx: "map line_text (map (text_row cols) xs) = map (\<lambda>l. trim_right_set l '' '') xs"
    if "set xs \<subseteq> set ls" for xs
    using that assms(4) by (auto simp: line_text_row)
  have cy: "v_cy v' = min (int (length ls)) (rows - 1)" using L s by (simp add: shows_log_def same_size_def new_model_def)
  then have g: "length ls - nat (v_cy v') = gone" "int (length ls) - v_cy v' = int gone"
    using assms(2) by (auto simp: gone_def min_def)
  have h: "v_hist v' = map (text_row cols) (keep_last hist_max (take gone ls))"
    using L g by (simp add: shows_log_def keep_last_def take_map drop_map)
  have "history_lines v' = map (\<lambda>l. trim_right_set l '' '') (keep_last hist_max (take gone ls))"
    unfolding history_lines_def h by (rule tx) (use keep_last_set set_take_subset in \<open>fast\<close>)
  then have "history_lines v' = keep_last hist_max (take gone full)" by (simp add: full_def keep_last_def take_map drop_map)
  moreover have "take (nat (v_cy v')) (visible_lines v') = map (\<lambda>l. trim_right_set l '' '') (drop gone ls)"
  proof -
    have "take (nat (v_cy v')) (v_buf v') = drop (length (map (text_row cols) ls) - nat (v_cy v')) (map (text_row cols) ls)"
      using L unfolding shows_log_def by blast
    then have "take (nat (v_cy v')) (v_buf v') = map (text_row cols) (drop gone ls)" by (simp add: g(1) drop_map)
    then show ?thesis by (simp only: visible_lines_def take_map tx [OF set_drop_subset])
  qed
  moreover have "v_hist_total v' = int gone" using L g(2) by (simp add: shows_log_def)
  ultimately show ?thesis using f by (simp add: full_def drop_map)
qed

theorem vt_plain_log_witness:
  "\<exists>v'. feed rw1 (new_model 4 1) (plain_stream [''ab '']) = Some v' \<and> history_lines v' = [''ab''] \<and> v_hist_total v' = 1"
proof -
  have "\<exists>v'. feed rw1 (new_model 4 1) (plain_stream [''ab '']) = Some v'
    \<and> history_lines v' = keep_last hist_max (take (length [''ab ''] - nat (1 - 1)) (map (\<lambda>l. trim_right_set l '' '') [''ab '']))
    \<and> take (nat (v_cy v')) (visible_lines v') = drop (length [''ab ''] - nat (1 - 1)) (map (\<lambda>l. trim_right_set l '' '') [''ab ''])
    \<and> v_hist_total v' = int (length [''ab ''] - nat (1 - 1))"
    by (rule vt_plain_log) (simp_all add: rw1_narrow plain_def)
  then show ?thesis by (auto simp: trim_right_set_def hist_max_def)
qed

text \<open>\<open>DECSC\<close>, an absolute move, \<open>DECRC\<close>: the cursor the child saved comes back exactly, and the move
  in between puts it where \<open>CUP\<close> says (clamped to the screen), touching neither grid nor history.\<close>

theorem vt_save_move_restore:
  assumes "vt_wf v" and "ground v" and "0 \<le> x" "x < 2 ^ 62" and "0 \<le> y" "y < 2 ^ 62"
  shows "\<exists>v1 v2. feed rw v (ESC # ''7'' @ cup x y) = Some v1
    \<and> cursor v1 = (min x (v_cols v - 1), min y (v_rows v - 1))
    \<and> feed rw v1 (ESC # ''8'') = Some v2 \<and> cursor v2 = cursor v
    \<and> v_buf v2 = v_buf v \<and> v_hist v2 = v_hist v"
proof -
  define u where "u = v\<lparr>v_st := StGround, v_scx := v_cx v, v_scy := v_cy v\<rparr>"
  have "feed rw v (ESC # ''7'') = Some u"
    using assms(2) by (simp add: feed_def ground_def pend_id ctl_byte_def ground_ctl_def esc_byte_def u_def)
  then have 1: "feed rw v (ESC # ''7'' @ cup x y) = feed rw u (cup x y)"
    using feed_append [of rw v "ESC # ''7''" "cup x y"] by simp
  have "ground u" using assms(2) by (simp add: ground_def u_def)
  with assms have 2: "feed rw u (cup x y) = Some (clamp_cursor (u\<lparr>v_st := StGround, v_csi_pv := False,
     v_parm := show_nat (nat (y + 1)) @ CHR '';'' # show_nat (nat (x + 1)), v_cx := x, v_cy := y, v_wrap := False\<rparr>))"
    by (simp add: feed_cup)
  show ?thesis
    unfolding 1 2 using assms
    by (auto simp: feed_def pend_id ctl_byte_def ground_ctl_def esc_byte_def clamp_cursor_def clamp_int_def
        Let_def u_def cursor_def ground_def vt_wf_def)
qed

theorem vt_save_move_restore_witness:
  "\<exists>v1 v2. feed rw1 (new_model 80 24) (ESC # ''7'' @ cup 3 99) = Some v1 \<and> cursor v1 = (3, 23)
    \<and> feed rw1 v1 (ESC # ''8'') = Some v2 \<and> cursor v2 = (0, 0)"
proof -
  have "vt_wf (new_model 80 24)" by (rule new_model_wf) simp_all
  from vt_save_move_restore [OF this, of 3 99 rw1] show ?thesis
    by (auto simp: ground_def cursor_def) (auto simp: new_model_def)
qed

end
