(* ===== verification/Scroll.thy ===== *)
theory Scroll
  imports VTFeed
begin

text \<open>
  \<open>internal/screen/scroll.go\<close>: the scrollback view. \<open>ScrollRenderer\<close> keeps an absolute anchor into the
  canvas (history followed by the visible rows); \<open>ViewLines\<close>/\<open>ViewCells\<close> cut the viewport out of it and
  \<open>RenderANSI\<close> prints it as one synchronised ANSI frame.
\<close>

record scroller =
  s_follow :: bool
  s_anchor :: int
  s_last_max :: int
  s_last_oy :: int

definition new_scroll_renderer :: scroller where
  "new_scroll_renderer = \<lparr>s_follow = True, s_anchor = 0, s_last_max = 0, s_last_oy = 0\<rparr>"

definition follow_bottom :: "scroller \<Rightarrow> scroller" where
  "follow_bottom s = s\<lparr>s_follow := True\<rparr>"

definition scroll :: "int \<Rightarrow> scroller \<Rightarrow> scroller" where
  "scroll dy s =
     (if dy = 0 then s
      else if s_follow s then
        (if dy < 0 then s\<lparr>s_anchor := (let a = s_last_max s + dy in if a < 0 then 0 else a), s_follow := False\<rparr>
         else s)
      else
        let s = s\<lparr>s_anchor := s_anchor s + dy\<rparr> in
        if s_anchor s \<ge> s_last_max s then s\<lparr>s_follow := True\<rparr>
        else if s_anchor s < 0 then s\<lparr>s_anchor := 0\<rparr>
        else s)"

definition scrollback :: "scroller \<Rightarrow> int" where
  "scrollback s = (if s_follow s then 0 else let d = s_last_max s - s_anchor s in if d < 0 then 0 else d)"

text \<open>The offset computation \<open>ViewLines\<close> and \<open>ViewCells\<close> share: the first canvas row shown, and the
  updated scroller.\<close>

definition view_oy :: "int \<Rightarrow> int \<Rightarrow> scroller \<Rightarrow> int \<times> scroller" where
  "view_oy tot vrows s =
     (let max_oy = (if tot - vrows < 0 then 0 else tot - vrows);
          s = s\<lparr>s_last_max := max_oy\<rparr> in
      if s_follow s then (max_oy, s)
      else if s_anchor s \<ge> max_oy then (max_oy, s\<lparr>s_follow := True, s_anchor := max_oy\<rparr>)
      else let oy = (if s_anchor s < 0 then 0 else s_anchor s) in (oy, s\<lparr>s_anchor := oy\<rparr>))"

text \<open>The rows from canvas row \<open>oy\<close> on, at most \<open>vrows\<close> of them, stopping at the end of the canvas.\<close>

definition canvas_row :: "'a list \<Rightarrow> 'a list \<Rightarrow> 'a \<Rightarrow> nat \<Rightarrow> 'a" where
  "canvas_row hist vis dflt i =
     (if i < length hist then hist ! i
      else let j = i - length hist in if j < length vis then vis ! j else dflt)"

definition view_rows :: "'a list \<Rightarrow> 'a list \<Rightarrow> 'a \<Rightarrow> nat \<Rightarrow> nat \<Rightarrow> 'a list" where
  "view_rows hist vis dflt oy vrows =
     map (canvas_row hist vis dflt) (takeWhile (\<lambda>l. l < length hist + length vis) [oy..<oy + vrows])"

definition view_lines :: "scroller \<Rightarrow> bytes list \<Rightarrow> bytes list \<Rightarrow> nat \<Rightarrow> bytes list \<times> scroller" where
  "view_lines s hist vis vrows =
     (let (oy, s) = view_oy (int (length hist + length vis)) (int vrows) s
      in (view_rows hist vis [] (nat oy) vrows, s))"

definition view_cells :: "scroller \<Rightarrow> cell list list \<Rightarrow> cell list list \<Rightarrow> nat \<Rightarrow> cell list list \<times> scroller" where
  "view_cells s hist vis vrows =
     (let (oy, s) = view_oy (int (length hist + length vis)) (int vrows) s
      in (view_rows hist vis [] (nat oy) vrows, s\<lparr>s_last_oy := oy\<rparr>))"

section \<open>ANSI rendering\<close>

definition color_seq :: "color \<Rightarrow> bool \<Rightarrow> bytes" where
  "color_seq c fg =
     (if c = 0 then []
      else
        let p = (if fg then ''38'' else ''48'') in
        if c AND 0x1000000 \<noteq> 0 then
          ESC # ''['' @ p @ '';2;'' @ show_int (uint (ucast (drop_bit 16 c) :: 8 word)) @ '';''
            @ show_int (uint (ucast (drop_bit 8 c) :: 8 word)) @ '';'' @ show_int (uint (ucast c :: 8 word)) @ ''m''
        else ESC # ''['' @ p @ '';5;'' @ show_int (uint c - 1) @ ''m'')"

definition sgr_seq :: "style \<Rightarrow> bytes" where
  "sgr_seq st = ESC # ''[0m''
     @ (if st_bold st then ESC # ''[1m'' else []) @ (if st_italic st then ESC # ''[3m'' else [])
     @ (if st_under st then ESC # ''[4m'' else []) @ (if st_reverse st then ESC # ''[7m'' else [])
     @ (if st_fg st \<noteq> 0 then color_seq (st_fg st) True else [])
     @ (if st_bg st \<noteq> 0 then color_seq (st_bg st) False else [])"

text \<open>The loop of \<open>appendRow\<close>: \<open>cur\<close> is the style last written, \<open>None\<close> before the first cell.\<close>

fun append_cells :: "style option \<Rightarrow> cell list \<Rightarrow> bytes" where
  "append_cells cur [] = []"
| "append_cells cur (ch # row) =
     (if c_cont ch then append_cells cur row
      else
        let st = (if c_r ch \<noteq> 0 then c_st ch else style0);
            data = (if c_r ch \<noteq> 0 then encode_rune (c_r ch) else '' '')
        in (if cur \<noteq> Some st then sgr_seq st else []) @ data @ append_cells (Some st) row)"

definition append_row :: "cell list \<Rightarrow> nat \<Rightarrow> bytes" where
  "append_row row vcols =
     append_cells None (take vcols row @ replicate (vcols - length row) cell0) @ ESC # ''[0m''"

definition clear_seq :: bytes where
  "clear_seq = ESC # ''[?2026h'' @ ESC # ''[?25l'' @ ESC # ''[2J'' @ ESC # ''[9999;1H'' @ ESC # ''[H''"

definition cursor_seq :: "vt \<Rightarrow> scroller \<Rightarrow> int \<Rightarrow> int \<Rightarrow> bytes" where
  "cursor_seq v s vrows vcols =
     (let crow = int (length (v_hist v)) + v_cy v - s_last_oy s + 1; ccol = v_cx v + 1 in
      if crow \<ge> 1 \<and> crow \<le> vrows then
        let ccol = (if ccol < 1 then 1 else ccol); ccol = (if ccol > vcols then vcols else ccol)
        in ESC # ''['' @ show_int crow @ '';'' @ show_int ccol @ ''H'' @ ESC # ''[?25h''
      else [])"

definition render_ansi :: "scroller \<Rightarrow> vt \<Rightarrow> nat \<Rightarrow> nat \<Rightarrow> bytes \<times> scroller" where
  "render_ansi s v vrows vcols =
     (let (rows, s) = view_cells s (v_hist v) (v_buf v) vrows in
      (clear_seq @ join [CHR 0x0D, CHR 0x0A] (map (\<lambda>row. append_row row vcols) rows)
        @ cursor_seq v s (int vrows) (int vcols) @ ESC # ''[?2026l'', s))"

section \<open>The view\<close>

lemma view_rows_take: "view_rows hist vis d oy n = take n (drop oy (hist @ vis))"
proof -
  have tw: "takeWhile (\<lambda>l. l < m) [oy..<oy + n] = [oy..<min m (oy + n)]" for m
  proof (induction n arbitrary: oy)
    case (Suc n)
    show ?case using Suc [of "Suc oy"] by (simp add: upt_conv_Cons min_def del: upt_Suc)
  qed (simp add: min_def)
  have "canvas_row hist vis d i = (hist @ vis) ! i" if "i < length hist + length vis" for i
    using that by (auto simp: canvas_row_def nth_append Let_def)
  moreover have "take n (drop oy xs) ! i = xs ! (oy + i)" if "i < min (length xs) (oy + n) - oy" for i and xs :: "'a list"
    using that by (subst nth_take) (auto simp: min_def split: if_splits)
  moreover have "[oy..<m] ! i = oy + i" "oy + i < m" if "i < m - oy" for i m using that by auto
  ultimately show ?thesis
    by (intro nth_equalityI) (auto simp: view_rows_def tw simp del: drop_append take_append)
qed

lemma view_oy_bounds:
  assumes "view_oy tot vrows s = (oy, s')" "0 \<le> tot" "0 \<le> vrows"
  shows "0 \<le> oy" "oy \<le> max 0 (tot - vrows)" "s_last_max s' = max 0 (tot - vrows)"
    "\<not> s_follow s' \<Longrightarrow> 0 \<le> s_anchor s \<Longrightarrow> s_anchor s' = oy \<and> oy < max 0 (tot - vrows)"
  using assms by (auto simp: view_oy_def Let_def split: if_splits)

lemma view_oy_anchor:
  "\<not> s_follow s \<Longrightarrow> 0 \<le> s_anchor s \<Longrightarrow> s_anchor s < tot - vrows \<Longrightarrow>
   view_oy tot vrows s = (s_anchor s, s\<lparr>s_last_max := tot - vrows\<rparr>)"
  by (cases s) (auto simp: view_oy_def Let_def)

lemma view_oy_live: "s_follow s \<Longrightarrow> fst (view_oy tot vrows s) = max 0 (tot - vrows)"
  by (auto simp: view_oy_def Let_def)

section \<open>What the reader sees while the child keeps writing\<close>

lemma view_hist_part: "take (length h - i) (take n (drop i (h @ w))) = take n (drop i h)"
  by (simp add: take_take min.commute del: drop_append take_append) (simp add: take_take [symmetric])



text \<open>Once the history is full this stability is lost: every further scrolled-out row drops the
  oldest one, so the same anchor shows the next row of the log, and the reader's view drifts.\<close>

theorem scroll_trim_drift:
  assumes "\<not> s_follow s" and "0 \<le> s_anchor s" and "s_anchor s < int (length (hist @ vis)) - int vrows"
    and "length hist = hist_max" and "length vis' = length vis"
  shows "fst (view_lines s (keep_last hist_max (hist @ [x])) vis' vrows)
       = take vrows (drop (nat (s_anchor s) + 1) (hist @ [x] @ vis'))"
proof -
  have k: "keep_last hist_max (hist @ [x]) = drop 1 (hist @ [x])" using assms(4) by (simp add: keep_last_def)
  have h: "0 < length hist" using assms(4) by (simp add: hist_max_def)
  have b: "s_anchor s < int (length (drop 1 (hist @ [x])) + length vis') - int vrows"
    using assms(3,5) h by simp
  have "drop 1 (hist @ [x]) @ vis' = drop 1 (hist @ [x] @ vis')" using h by (cases hist) simp_all
  then show ?thesis
    unfolding k view_lines_def view_oy_anchor [OF assms(1,2) b]
    by (simp add: view_rows_take add.commute del: drop_append take_append)
qed

theorem scroll_trim_drift_witness:
  "fst (view_lines \<lparr>s_follow = False, s_anchor = 0, s_last_max = 1, s_last_oy = 0\<rparr>
     (keep_last hist_max (replicate hist_max ''a'' @ [''b''])) [''live''] 1) = [''a'']"
proof -
  let ?s = "\<lparr>s_follow = False, s_anchor = 0, s_last_max = 1, s_last_oy = 0\<rparr>"
  have "fst (view_lines ?s (keep_last hist_max (replicate hist_max ''a'' @ [''b''])) [''live''] 1)
      = take 1 (drop (nat (s_anchor ?s) + 1) (replicate hist_max ''a'' @ [''b''] @ [''live'']))"
    by (rule scroll_trim_drift [where vis = "[''v'']"]) (simp_all add: hist_max_def)
  then show ?thesis by (simp add: hist_max_def)
qed

end
