(* ===== verification/InputKeys.thy ===== *)
theory InputKeys
  imports VTProps
begin

unbundle bit_operations_syntax

text \<open>
  \<open>internal/screen/input.go\<close>: what a block of terminal input means for the scroll position. The two
  regular expressions are matched by explicit functions: \<open>sgr_mouse\<close> is \<open>^ESC\[<(\d+);\d+;\d+[Mm]\<close>
  (returning the captured digits) and \<open>dev_report\<close> is \<open>^ESC\[[\d;?>=]*[Rcny]$\<close>.
\<close>

definition span_digits :: "bytes \<Rightarrow> bytes \<times> bytes" where
  "span_digits s = (takeWhile is_digit s, dropWhile is_digit s)"

definition sgr_mouse :: "bytes \<Rightarrow> bytes option" where
  "sgr_mouse s =
     (if \<not> has_prefix s (ESC # ''[<'') then None
      else
        let (d1, r1) = span_digits (drop 3 s) in
        if d1 = [] \<or> \<not> has_prefix r1 '';'' then None
        else
          let (d2, r2) = span_digits (drop 1 r1) in
          if d2 = [] \<or> \<not> has_prefix r2 '';'' then None
          else
            let (d3, r3) = span_digits (drop 1 r2) in
            if d3 = [] \<or> \<not> (has_prefix r3 ''M'' \<or> has_prefix r3 ''m'') then None
            else Some d1)"

definition dev_report :: "bytes \<Rightarrow> bool" where
  "dev_report s \<longleftrightarrow> has_prefix s (ESC # ''['') \<and>
     (case rev (drop 2 s) of
        [] \<Rightarrow> False
      | z # mid \<Rightarrow> z \<in> set ''Rcny'' \<and> list_all (\<lambda>c. is_digit c \<or> c \<in> set '';?>='') mid)"

definition is_live_reset_key :: "bytes \<Rightarrow> bool" where
  "is_live_reset_key s =
     (if s = [] then False
      else if s = ESC # ''[I'' \<or> s = ESC # ''[O'' then False
      else if length s \<ge> 3 \<and> s ! 0 = ESC \<and> s ! 1 = CHR ''['' \<and> s ! 2 = CHR ''M'' then False
      else if sgr_mouse s \<noteq> None then False
      else if length s \<ge> 2 \<and> s ! 0 = ESC \<and> (s ! 1 = CHR '']'' \<or> s ! 1 = CHR ''P'') then False
      else if dev_report s then False
      else True)"

text \<open>\<open>indexOf\<close> returns -1 when the sequence is absent; the offset is the first one.\<close>

fun index_of_from :: "nat \<Rightarrow> bytes \<Rightarrow> bytes \<Rightarrow> int" where
  "index_of_from i [] sub = (if sub = [] then int i else -1)"
| "index_of_from i (c # b) sub =
     (if has_prefix (c # b) sub then int i else index_of_from (Suc i) b sub)"

definition index_of :: "bytes \<Rightarrow> bytes \<Rightarrow> int" where
  "index_of b sub = index_of_from 0 b sub"

definition wheel_dir :: "int \<Rightarrow> int option" where
  "wheel_dir cb =
     (if cb AND 64 \<noteq> 0 \<and> cb AND 32 = 0
      then (if cb AND 3 = 0 then Some (-1) else if cb AND 3 = 1 then Some 1 else None)
      else None)"

definition classify_wheel :: "bytes \<Rightarrow> int option" where
  "classify_wheel s = (case sgr_mouse s of
      Some d \<Rightarrow> wheel_dir (foldl (\<lambda>n c. i64 (n * 10 + (int (ord c) - 48))) 0 d)
    | None \<Rightarrow>
        let i = index_of s (ESC # ''[M'') in
        if i < 0 \<or> int (length s) < i + 4 then None
        else wheel_dir (int (ord (s ! nat (i + 3))) - 32))"

section \<open>Lemmas\<close>

lemma sgr_mouse_prefix: "sgr_mouse s = Some d \<Longrightarrow> has_prefix s (ESC # ''[<'')"
  by (auto simp: sgr_mouse_def split: if_splits)

lemma span_digits_append:
  "list_all is_digit d \<Longrightarrow> \<not> is_digit c \<Longrightarrow> span_digits (d @ c # r) = (d, c # r)"
  by (induction d) (auto simp: span_digits_def)

lemma show_nat_all_digits: "list_all is_digit (show_nat n)"
  using show_nat_digits by (auto simp: list_all_iff)

lemma sgr_mouse_report:
  assumes "z = CHR ''M'' \<or> z = CHR ''m''"
  shows "sgr_mouse (ESC # ''[<'' @ show_nat cb @ '';'' @ show_nat x @ '';'' @ show_nat y @ [z] @ r) = Some (show_nat cb)"
  using assms
  by (auto simp: sgr_mouse_def has_prefix_def show_nat_all_digits span_digits_append is_digit_def)

lemma wheel_dir_modifiers:
  assumes "m < 8"
  shows "wheel_dir (int (64 + 4 * m)) = Some (-1)" "wheel_dir (int (65 + 4 * m)) = Some 1"
proof -
  consider "m = 0" | "m = 1" | "m = 2" | "m = 3" | "m = 4" | "m = 5" | "m = 6" | "m = 7" using assms by linarith
  then show "wheel_dir (int (64 + 4 * m)) = Some (-1)" "wheel_dir (int (65 + 4 * m)) = Some 1"
    by (cases; simp add: wheel_dir_def)+
qed

text \<open>The report a terminal sends for a mouse button in SGR mode.\<close>

definition mouse_report :: "nat \<Rightarrow> nat \<Rightarrow> nat \<Rightarrow> byte \<Rightarrow> bytes" where
  "mouse_report cb x y z = ESC # ''[<'' @ show_nat cb @ '';'' @ show_nat x @ '';'' @ show_nat y @ [z]"

text \<open>SGR mouse reports never bring a scrolled view back to live, whatever the button and position,
  and a wheel step is recognised in both directions under every combination of the shift, alt and ctrl
  modifiers.\<close>

theorem mouse_reports_classified:
  assumes "z = CHR ''M'' \<or> z = CHR ''m''" and "m < 8"
  shows "\<not> is_live_reset_key (mouse_report cb x y z)
    \<and> classify_wheel (mouse_report (64 + 4 * m) x y z) = Some (-1)
    \<and> classify_wheel (mouse_report (65 + 4 * m) x y z) = Some 1"
proof -
  have s: "sgr_mouse (mouse_report c x y z) = Some (show_nat c)" for c
    using sgr_mouse_report [OF assms(1), of c x y "[]"] by (simp add: mouse_report_def)
  have d: "foldl digit_step 0 (show_nat c) = int c" if "c < 128" for c
    using digits_value [of c] that by simp
  have "\<not> is_live_reset_key (mouse_report cb x y z)"
    using s [of cb] by (simp add: is_live_reset_key_def)
  moreover have "classify_wheel (mouse_report c x y z) = wheel_dir (int c)" if "c < 128" for c
    using s [of c] d [OF that] by (simp add: classify_wheel_def)
  ultimately show ?thesis
    using wheel_dir_modifiers [OF assms(2)] assms(2) by simp
qed

theorem mouse_reports_classified_witness:
  "\<not> is_live_reset_key (mouse_report 0 1 1 (CHR ''M'')) \<and> classify_wheel (mouse_report 68 10 20 (CHR ''M'')) = Some (-1)"
  using mouse_reports_classified [of "CHR ''M''" 1 0 1 1] mouse_reports_classified [of "CHR ''M''" 1 0 10 20] by simp

end
