(* ===== verification/Flusher.thy ===== *)
theory Flusher
  imports VTFeed
begin

text \<open>
  \<open>internal/screen/flush.go\<close>: extraction of the rows that scrolled out, for the session log. The
  flusher only relies on the counter \<open>HistTotal\<close> and the retained \<open>HistoryLines\<close>; what it needs of them is the
  locale \<open>history_source\<close>, which the screen model satisfies.
\<close>

record flusher =
  f_armed :: bool
  f_last_total :: int
  f_pending :: "bytes list"

definition new_flusher :: flusher where
  "new_flusher = \<lparr>f_armed = False, f_last_total = 0, f_pending = []\<rparr>"

definition pending_cap :: nat where
  "pending_cap = 100000"

definition flusher_reset :: "flusher \<Rightarrow> flusher" where
  "flusher_reset f = f\<lparr>f_armed := False, f_last_total := 0\<rparr>"

text \<open>\<open>takeNew\<close> over the two values it reads from the screen. The slice expression panics when the
  bounds are out of order; with \<open>firstIdx \<le> lo < total\<close> and \<open>firstIdx = total - len\<close> they never are, so it is a plain
  \<open>drop\<close>.\<close>

definition take_new_at :: "flusher \<Rightarrow> int \<Rightarrow> bytes list \<Rightarrow> flusher \<times> bytes list" where
  "take_new_at f tot ls =
     (if \<not> f_armed f then (f\<lparr>f_armed := True, f_last_total := tot\<rparr>, [])
      else
        let first = tot - int (length ls);
            lo = (if f_last_total f < first then first else f_last_total f);
            f = f\<lparr>f_last_total := tot\<rparr>
        in if lo \<ge> tot then (f, []) else (f, take (nat (tot - first)) (drop (nat (lo - first)) ls)))"

definition take_new :: "flusher \<Rightarrow> vt \<Rightarrow> flusher \<times> bytes list" where
  "take_new f v = take_new_at f (v_hist_total v) (history_lines v)"

definition add_pending :: "flusher \<times> bytes list \<Rightarrow> flusher" where
  "add_pending r = (let (f, n) = r in
     if n \<noteq> [] then f\<lparr>f_pending := keep_last pending_cap (f_pending f @ n)\<rparr> else f)"

definition capture :: "flusher \<Rightarrow> vt \<Rightarrow> flusher" where
  "capture f v = add_pending (take_new f v)"

definition has_pending :: "flusher \<Rightarrow> bool" where
  "has_pending f \<longleftrightarrow> f_pending f \<noteq> []"

definition pending_len :: "flusher \<Rightarrow> nat" where
  "pending_len f = length (f_pending f)"

definition drain :: "flusher \<Rightarrow> flusher \<times> bytes list" where
  "drain f = (f\<lparr>f_pending := []\<rparr>, f_pending f)"

text \<open>Captures after each of several screen updates, given the counter and the rows after each.\<close>

definition capture_seq :: "flusher \<Rightarrow> (int \<times> bytes list) list \<Rightarrow> flusher" where
  "capture_seq f = foldl (\<lambda>f (tot, ls). add_pending (take_new_at f tot ls)) f"

lemma keep_last_drop: "keep_last n xs = drop (length xs - n) xs"
  by (simp add: keep_last_def)

lemma keep_last_append: "keep_last h (keep_last h xs @ ys) = keep_last h (xs @ ys)"
proof (cases "length xs \<le> h")
  case False
  then have "length xs - h + length ys = length xs + length ys - h" by simp
  with False show ?thesis by (simp add: keep_last_drop add.commute)
qed simp

section \<open>What the flusher needs of its source\<close>

locale history_source =
  fixes cnt :: "'s \<Rightarrow> int" and rows :: "'s \<Rightarrow> bytes list" and step :: "'s \<Rightarrow> 's \<Rightarrow> bool" and ok :: "'s \<Rightarrow> bool"
  assumes ok_step: "ok s \<Longrightarrow> step s t \<Longrightarrow> ok t"
    and grows: "ok s \<Longrightarrow> step s t \<Longrightarrow>
      \<exists>new. cnt t = cnt s + int (length new) \<and> suffix (rows t) (rows s @ new)"
begin

text \<open>A capture after a step yields exactly the rows that scrolled out and are still retained: no row
  twice, none out of order, none lost unless the source itself dropped it.\<close>

lemma capture_step:
  assumes "ok s" "step s t" "f_armed f" "f_last_total f = cnt s"
  shows "\<exists>new. cnt t = cnt s + int (length new) \<and> suffix (rows t) (rows s @ new)
    \<and> take_new_at f (cnt t) (rows t) = (f\<lparr>f_last_total := cnt t\<rparr>, keep_last (length (rows t)) new)"
proof -
  obtain new where n: "cnt t = cnt s + int (length new)" and sx: "suffix (rows t) (rows s @ new)"
    using grows [OF assms(1,2)] by blast
  obtain pre where pre: "rows s @ new = pre @ rows t" using sx by (auto simp: suffix_def)
  have "snd (take_new_at f (cnt t) (rows t)) = keep_last (length (rows t)) new"
  proof (cases "length new \<le> length (rows t)")
    case True
    have k: "keep_last (length (rows t)) new = new" using True by simp
    have "suffix new (rows t)" using suffix_length_suffix [OF _ sx True] by (simp add: suffix_def)
    then have "drop (length (rows t) - length new) (rows t) = new" by (metis suffix_conv_drop)
    then show ?thesis using assms(3,4) n True k
      by (auto simp: take_new_at_def Let_def nat_diff_distrib)
  next
    case False
    then have "rows t = drop (length new - length (rows t)) new"
      using sx by (metis suffixI suffix_conv_drop suffix_length_suffix linorder_le_cases)
    then show ?thesis using assms(3,4) n False by (auto simp: take_new_at_def Let_def keep_last_def)
  qed
  moreover have "fst (take_new_at f (cnt t) (rows t)) = f\<lparr>f_last_total := cnt t\<rparr>"
    using assms(3) by (simp add: take_new_at_def Let_def)
  ultimately show ?thesis using n sx by (metis prod.collapse)
qed

fun chain :: "'s \<Rightarrow> 's list \<Rightarrow> bool" where
  "chain s [] = True"
| "chain s (t # ts) = (step s t \<and> cnt t - cnt s \<le> int (length (rows t)) \<and> chain t ts)"

lemma capture_chain:
  assumes "ok s" "chain s ts" "f_armed f" "f_last_total f = cnt s" "length (f_pending f) \<le> pending_cap"
  shows "\<exists>news. cnt (last (s # ts)) = cnt s + int (length news)
    \<and> suffix (rows (last (s # ts))) (rows s @ news)
    \<and> f_pending (capture_seq f (map (\<lambda>t. (cnt t, rows t)) ts)) = keep_last pending_cap (f_pending f @ news)"
  using assms
proof (induction ts arbitrary: s f)
  case Nil
  then show ?case by (auto simp: capture_seq_def intro: exI [of _ "[]"])
next
  case (Cons t ts)
  have st: "step s t" "cnt t - cnt s \<le> int (length (rows t))" "chain t ts" using Cons.prems(2) by auto
  obtain new where n: "cnt t = cnt s + int (length new)" "suffix (rows t) (rows s @ new)"
      "take_new_at f (cnt t) (rows t) = (f\<lparr>f_last_total := cnt t\<rparr>, new)"
    using capture_step [OF Cons.prems(1) st(1) Cons.prems(3,4)] st(2) by fastforce
  define g where "g = add_pending (take_new_at f (cnt t) (rows t))"
  have g: "f_armed g" "f_last_total g = cnt t" "f_pending g = keep_last pending_cap (f_pending f @ new)"
    using n(3) Cons.prems(3,5) by (auto simp: g_def add_pending_def)
  obtain news where m: "cnt (last (t # ts)) = cnt t + int (length news)"
      "suffix (rows (last (t # ts))) (rows t @ news)"
      "f_pending (capture_seq g (map (\<lambda>t. (cnt t, rows t)) ts)) = keep_last pending_cap (f_pending g @ news)"
    using Cons.IH [OF ok_step [OF Cons.prems(1) st(1)] st(3) g(1,2)] g(3) by auto
  have "capture_seq f (map (\<lambda>t. (cnt t, rows t)) (t # ts)) = capture_seq g (map (\<lambda>t. (cnt t, rows t)) ts)"
    by (simp add: capture_seq_def g_def)
  then show ?case
    using m n g(3) suffix_trans_append [OF m(2) n(2)]
    by (intro exI [of _ "new @ news"]) (simp add: keep_last_append)
qed

end

section \<open>The screen is such a source\<close>

definition vt_step :: "vt \<Rightarrow> vt \<Rightarrow> bool" where
  "vt_step v v' \<longleftrightarrow> (\<exists>rw p. feed rw v p = Some v')"

interpretation vth: history_source v_hist_total history_lines vt_step vt_wf
proof unfold_locales
  fix s t
  assume "vt_wf s" "vt_step s t"
  then have n: "vt_next s t" by (auto simp: vt_step_def dest: feed_next)
  then show "vt_wf t" by (rule vt_next_wf)
  from n obtain new where "v_hist_total t = v_hist_total s + int (length new)" "suffix (v_hist t) (v_hist s @ new)"
    by (auto simp: vt_next_def hist_le_def)
  then show "\<exists>new. v_hist_total t = v_hist_total s + int (length new)
      \<and> suffix (history_lines t) (history_lines s @ new)"
    by (intro exI [of _ "map line_text new"]) (auto simp: history_lines_def intro: map_mono_suffix simp flip: map_append)
qed

text \<open>Feed the reads one by one, capturing after each, as \<open>masterPump\<close> does.\<close>

fun feed_capture :: "(rune \<Rightarrow> nat) \<Rightarrow> vt \<Rightarrow> flusher \<Rightarrow> bytes list \<Rightarrow> (vt \<times> flusher) option" where
  "feed_capture rw v f [] = Some (v, f)"
| "feed_capture rw v f (p # ps) = do { v' \<leftarrow> feed rw v p; feed_capture rw v' (capture f v') ps }"

text \<open>No read scrolls out more rows than the screen still retains after it.\<close>

fun retained :: "(rune \<Rightarrow> nat) \<Rightarrow> vt \<Rightarrow> bytes list \<Rightarrow> bool" where
  "retained rw v [] = True"
| "retained rw v (p # ps) = (case feed rw v p of None \<Rightarrow> True
     | Some v' \<Rightarrow> v_hist_total v' - v_hist_total v \<le> hist_len v' \<and> retained rw v' ps)"

lemma feed_capture_chain:
  "feed_capture rw v f ps = Some (v', f') \<Longrightarrow> retained rw v ps \<Longrightarrow>
   \<exists>ts. vth.chain v ts \<and> last (v # ts) = v' \<and> f' = capture_seq f (map (\<lambda>t. (v_hist_total t, history_lines t)) ts)"
proof (induction ps arbitrary: v f)
  case Nil
  then show ?case by (intro exI [of _ "[]"]) (auto simp: capture_seq_def)
next
  case (Cons p ps)
  then obtain u where u: "feed rw v p = Some u" "feed_capture rw u (capture f u) ps = Some (v', f')"
    by (auto simp: bind_Some_conv)
  with Cons obtain ts where "vth.chain u ts" "last (u # ts) = v'"
      "f' = capture_seq (capture f u) (map (\<lambda>t. (v_hist_total t, history_lines t)) ts)"
    by fastforce
  moreover have "vt_step v u" using u by (auto simp: vt_step_def)
  moreover have "length (history_lines w) = nat (hist_len w)" for w by (simp add: history_lines_def hist_len_def)
  ultimately show ?case using u Cons.prems(2)
    by (intro exI [of _ "u # ts"]) (auto simp: capture_seq_def capture_def take_new_def)
qed

text \<open>The session log is complete and exact: capturing after every read collects precisely the
  lines that scrolled out since the flusher was armed, in order and without duplicates (the last
  \<open>pendingCap\<close> of them), provided no single read scrolls out more rows than the history retains.\<close>

theorem flusher_exact:
  assumes "vt_wf v" and "f_armed f" and "f_last_total f = v_hist_total v" and "f_pending f = []"
    and "feed_capture rw v f ps = Some (v', f')" and "retained rw v ps"
  shows "\<exists>news. v_hist_total v' = v_hist_total v + int (length news)
    \<and> suffix (history_lines v') (history_lines v @ news)
    \<and> f_pending f' = keep_last pending_cap news"
proof -
  obtain ts where ts: "vth.chain v ts" "last (v # ts) = v'"
      "f' = capture_seq f (map (\<lambda>t. (v_hist_total t, history_lines t)) ts)"
    using feed_capture_chain [OF assms(5,6)] by blast
  then show ?thesis using vth.capture_chain [OF assms(1) ts(1) assms(2,3)] assms(4) by simp
qed

theorem flusher_exact_witness:
  "\<exists>v' f'. feed_capture (\<lambda>_. 1) (new_model 4 1) (new_flusher\<lparr>f_armed := True\<rparr>) [''ab'' @ [CHR 0x0A]] = Some (v', f')
     \<and> f_pending f' = [''ab'']"
proof -
  let ?v = "new_model 4 1"
  let ?p = "''ab'' @ [CHR 0x0A]"
  let ?f = "new_flusher\<lparr>f_armed := True\<rparr>"
  have r4: "replicate 4 x = [x, x, x, x]" for x :: cell by (simp add: numeral_eq_Suc)
  have ev: "\<exists>u. feed (\<lambda>_. 1) ?v ?p = Some u \<and> v_hist_total u = 1 \<and> history_lines u = [''ab'']"
    by (simp add: feed_def new_model_def blank_def blank_line_def put_byte_def utf8_len_def draw_def place_def
        set_cell_def Let_def ctl_byte_def ground_ctl_def line_feed_def shift_up.simps copy_line_def hist_max_def
        history_lines_def line_text_def trim_right_set_def cell0_def r4 char_of_def bit_iff_odd)
  then obtain u where u: "feed (\<lambda>_. 1) ?v ?p = Some u" "v_hist_total u = 1" "history_lines u = [''ab'']" by blast
  have l: "length (v_hist u) = 1" using arg_cong [OF u(3), of length] by (simp add: history_lines_def)
  have "vt_wf ?v" by (rule new_model_wf) simp_all
  then have "\<exists>news. v_hist_total u = v_hist_total ?v + int (length news)
      \<and> suffix (history_lines u) (history_lines ?v @ news) \<and> f_pending (capture ?f u) = keep_last pending_cap news"
    by (rule flusher_exact [where rw = "\<lambda>_. 1" and ps = "[?p]" and f = ?f])
       (use u l in \<open>simp_all add: new_flusher_def new_model_def hist_len_def\<close>)
  then have "f_pending (capture ?f u) = [''ab'']"
    using u by (auto simp: new_model_def history_lines_def pending_cap_def suffix_def)
  with u(1) show ?thesis by simp
qed

end
