(* ===== verification/Status.thy ===== *)
theory Status
  imports VTFeed
begin

text \<open>
  \<open>internal/screen/status.go\<close>: the usage and reset-time scan of the screen text and the activity test of
  its last rows. A Go regular expression becomes a matcher at a fixed position (\<open>usage_at\<close>,
  \<open>reset_at\<close>, \<open>transient_tail_at\<close>; in all three the repetitions are over disjoint classes, so greedy matching never backtracks)
  and a leftmost search over the positions.
\<close>

definition re_space :: "byte \<Rightarrow> bool" where
  "re_space c \<longleftrightarrow> c \<in> {CHR 0x09, CHR 0x0A, CHR 0x0C, CHR 0x0D, CHR '' ''}"

definition skip_spaces :: "bytes \<Rightarrow> bytes" where
  "skip_spaces s = dropWhile re_space s"

text \<open>A literal word, and one or more spaces.\<close>

definition lit :: "bytes \<Rightarrow> bytes \<Rightarrow> bytes option" where
  "lit w s = (if has_prefix s w then Some (drop (length w) s) else None)"

definition spaces1 :: "bytes \<Rightarrow> bytes option" where
  "spaces1 s = (case s of c # _ \<Rightarrow> if re_space c then Some (skip_spaces s) else None | [] \<Rightarrow> None)"

text \<open>\<open>used\s+(\d+)%\s+of\s+your\s+session\s+limit\<close>, matched at the start of \<open>s\<close>; the captured digits.\<close>

definition usage_at :: "bytes \<Rightarrow> bytes option" where
  "usage_at s = do {
     s \<leftarrow> lit ''used'' s; s \<leftarrow> spaces1 s;
     let d = takeWhile is_digit s;
     s \<leftarrow> (if d = [] then None else lit ''%'' (dropWhile is_digit s));
     s \<leftarrow> spaces1 s; s \<leftarrow> lit ''of'' s; s \<leftarrow> spaces1 s; s \<leftarrow> lit ''your'' s; s \<leftarrow> spaces1 s;
     s \<leftarrow> lit ''session'' s; s \<leftarrow> spaces1 s; s \<leftarrow> lit ''limit'' s;
     Some d }"

text \<open>\<open>(\d{1,2}(?::\d{2})?\s*(?:am|pm))\<close> at the start of \<open>s\<close>: the match and the rest.\<close>

definition hm_digits :: "bytes \<Rightarrow> (bytes \<times> bytes) option" where
  "hm_digits s = (case s of
      a # s1 \<Rightarrow> if \<not> is_digit a then None
        else (case s1 of b # s2 \<Rightarrow> if is_digit b then Some ([a, b], s2) else Some ([a], s1) | [] \<Rightarrow> Some ([a], []))
    | [] \<Rightarrow> None)"

definition colon_mins :: "bytes \<Rightarrow> bytes \<times> bytes" where
  "colon_mins s = (case s of
      c # a # b # r \<Rightarrow> if c = CHR '':'' \<and> is_digit a \<and> is_digit b then ([c, a, b], r) else ([], s)
    | _ \<Rightarrow> ([], s))"

definition clock_at :: "bytes \<Rightarrow> (bytes \<times> bytes) option" where
  "clock_at s = do {
     (h, s) \<leftarrow> hm_digits s;
     let (m, s) = colon_mins s;
     let sp = takeWhile re_space s;
     let s = skip_spaces s;
     if has_prefix s ''am'' \<or> has_prefix s ''pm'' then Some (h @ m @ sp @ take 2 s, drop 2 s) else None }"

text \<open>\<open>resets\s+(clock)\s*\(([^)]+)\)\<close>.\<close>

definition reset_at :: "bytes \<Rightarrow> (bytes \<times> bytes) option" where
  "reset_at s = do {
     s \<leftarrow> lit ''resets'' s; s \<leftarrow> spaces1 s;
     (clock, s) \<leftarrow> clock_at s;
     s \<leftarrow> lit ''('' (skip_spaces s);
     let tz = takeWhile (\<lambda>c. c \<noteq> CHR '')'') s;
     _ \<leftarrow> (if tz = [] then None else lit '')'' (dropWhile (\<lambda>c. c \<noteq> CHR '')'') s));
     Some (clock, tz) }"

text \<open>\<open>U+2026\s*(\([^)]*\))?\s*$\<close>.\<close>

definition transient_tail_at :: "bytes \<Rightarrow> bool" where
  "transient_tail_at s = (case lit [CHR 0xE2, CHR 0x80, CHR 0xA6] s of
      None \<Rightarrow> False
    | Some s \<Rightarrow>
        let s = skip_spaces s in
        s = [] \<or> (case s of [] \<Rightarrow> True
           | c # s \<Rightarrow> c = CHR ''('' \<and> (case dropWhile (\<lambda>c. c \<noteq> CHR '')'') s of
                 [] \<Rightarrow> False | _ # s \<Rightarrow> skip_spaces s = [])))"

fun search :: "(bytes \<Rightarrow> 'a option) \<Rightarrow> bytes \<Rightarrow> 'a option" where
  "search m [] = m []"
| "search m (c # s) = (case m (c # s) of Some x \<Rightarrow> Some x | None \<Rightarrow> search m s)"

definition transient_tail :: "bytes \<Rightarrow> bool" where
  "transient_tail s \<longleftrightarrow> search (\<lambda>s. if transient_tail_at s then Some () else None) s \<noteq> None"

section \<open>StatusScanner\<close>

record status_scanner =
  ss_last_pct :: int
  ss_has_pct :: bool
  ss_reset_time :: bytes
  ss_reset_tz :: bytes

definition new_scanner :: status_scanner where
  "new_scanner = \<lparr>ss_last_pct = 0, ss_has_pct = False, ss_reset_time = [], ss_reset_tz = []\<rparr>"

definition scan_usage :: "bytes \<Rightarrow> status_scanner \<Rightarrow> status_scanner" where
  "scan_usage line sc = (case search usage_at line of
      None \<Rightarrow> sc
    | Some d \<Rightarrow> (case atoi d of
          None \<Rightarrow> sc
        | Some p \<Rightarrow> if \<not> ss_has_pct sc \<or> p > ss_last_pct sc
                   then sc\<lparr>ss_last_pct := p, ss_has_pct := True\<rparr> else sc))"

definition scan_reset :: "bytes \<Rightarrow> status_scanner \<Rightarrow> status_scanner" where
  "scan_reset line sc = (case search reset_at line of
      None \<Rightarrow> sc
    | Some (t, tz) \<Rightarrow> sc\<lparr>ss_reset_time := trim_space t, ss_reset_tz := trim_space tz\<rparr>)"

definition scan_line :: "status_scanner \<Rightarrow> bytes \<Rightarrow> status_scanner" where
  "scan_line sc line = scan_reset line (scan_usage line sc)"

record usage =
  us_pct :: int
  us_has_pct :: bool
  us_reset_time :: bytes
  us_reset_tz :: bytes
  us_any :: bool

definition usage_report :: "status_scanner \<Rightarrow> usage" where
  "usage_report sc =
     (let u = \<lparr>us_pct = 0, us_has_pct = False, us_reset_time = [], us_reset_tz = [], us_any = False\<rparr>;
          u = (if ss_has_pct sc then u\<lparr>us_pct := ss_last_pct sc, us_has_pct := True, us_any := True\<rparr> else u);
          u = (if ss_reset_time sc \<noteq> []
               then u\<lparr>us_reset_time := ss_reset_time sc, us_reset_tz := ss_reset_tz sc, us_any := True\<rparr> else u)
      in u)"

definition extract_usage :: "status_scanner \<Rightarrow> vt \<Rightarrow> status_scanner \<times> usage" where
  "extract_usage sc v =
     (let sc = foldl scan_line sc (history_lines v @ visible_lines v) in (sc, usage_report sc))"

definition active_prefix_chars :: "rune list" where
  "active_prefix_chars = [10043, 10045, 10038, 10039, 10040, 10041, 10042, 10018, 10019, 10020, 10021, 10022,
     10023, 10025, 10026, 10027, 10028, 10029, 10030, 10031, 10032, 10033, 10034, 10035, 10036, 10037, 183, 9210]"

definition active_footer_keywords :: "bytes list" where
  "active_footer_keywords = [''esc to interrupt'', ''Do you want to proceed?'', ''accept edits'', ''don'' @ [CHR 0x27] @ ''t ask again for:'']"

definition active_line :: "bytes \<Rightarrow> bool" where
  "active_line raw =
     (let text = trim_space raw in
      if text = [] then False
      else fst (decode_rune text) \<in> set active_prefix_chars \<or> transient_tail text
        \<or> list_ex (contains_sub text) active_footer_keywords)"

text \<open>The last six rows (\<open>y > n-7\<close>), from the bottom up; the result does not depend on the order.\<close>

definition is_active :: "vt \<Rightarrow> bool" where
  "is_active v = list_ex active_line (rev (keep_last 6 (visible_lines v)))"

section \<open>The scan is a maximum\<close>

lemma scan_reset_pct [simp]: "ss_last_pct (scan_reset l sc) = ss_last_pct sc" "ss_has_pct (scan_reset l sc) = ss_has_pct sc"
  by (simp_all add: scan_reset_def split: option.splits prod.splits)

definition line_pct :: "bytes \<Rightarrow> int option" where
  "line_pct line = Option.bind (search usage_at line) atoi"

lemma scan_usage_alt:
  "scan_usage line sc = (case line_pct line of None \<Rightarrow> sc
     | Some p \<Rightarrow> if \<not> ss_has_pct sc \<or> p > ss_last_pct sc then sc\<lparr>ss_last_pct := p, ss_has_pct := True\<rparr> else sc)"
  by (auto simp: scan_usage_def line_pct_def split: option.splits)

definition pcts :: "bytes list \<Rightarrow> int set" where
  "pcts ls = {p. \<exists>l\<in>set ls. line_pct l = Some p}"

definition known_pct :: "status_scanner \<Rightarrow> int set" where
  "known_pct sc = (if ss_has_pct sc then {ss_last_pct sc} else {})"

lemma finite_pcts: "finite (pcts ls)"
proof -
  have "pcts ls \<subseteq> (\<lambda>l. the (line_pct l)) ` set ls" by (force simp: pcts_def)
  then show ?thesis by (rule finite_subset) simp
qed

lemma scan_lines_max:
  "ss_has_pct (foldl scan_line sc ls) = (known_pct sc \<union> pcts ls \<noteq> {})
   \<and> (known_pct sc \<union> pcts ls \<noteq> {} \<longrightarrow> ss_last_pct (foldl scan_line sc ls) = Max (known_pct sc \<union> pcts ls))"
proof (induction ls arbitrary: sc)
  case Nil
  then show ?case by (simp add: known_pct_def pcts_def)
next
  case (Cons l ls)
  have p: "pcts (l # ls) = (case line_pct l of None \<Rightarrow> {} | Some p \<Rightarrow> {p}) \<union> pcts ls"
    by (auto simp: pcts_def split: option.splits)
  show ?case
  proof (cases "line_pct l")
    case None
    then have "known_pct (scan_line sc l) = known_pct sc" by (simp add: scan_line_def scan_usage_alt known_pct_def)
    then show ?thesis using Cons [of "scan_line sc l"] None by (simp add: p)
  next
    case (Some q)
    have k: "known_pct (scan_line sc l) = {if ss_has_pct sc \<and> q \<le> ss_last_pct sc then ss_last_pct sc else q}"
      using Some by (auto simp: scan_line_def scan_usage_alt known_pct_def)
    have m: "Max (known_pct (scan_line sc l) \<union> pcts ls) = Max (known_pct sc \<union> (insert q (pcts ls)))"
      unfolding k using finite_pcts [of ls]
      by (cases "pcts ls = {}") (auto simp: known_pct_def Max_insert max_def)
    show ?thesis using Cons [of "scan_line sc l"] Some m k by (simp add: p)
  qed
qed

lemma usage_report_pct: "us_has_pct (usage_report sc) = ss_has_pct sc
    \<and> (ss_has_pct sc \<longrightarrow> us_pct (usage_report sc) = ss_last_pct sc \<and> us_any (usage_report sc))"
  by (simp add: usage_report_def Let_def)

text \<open>The usage scan reports the largest percentage that any line of history or screen shows, or
  that an earlier scan has seen, and reports one exactly when there is one.\<close>

theorem usage_is_maximum:
  assumes "extract_usage sc v = (sc', u)"
  defines "seen \<equiv> known_pct sc \<union> pcts (history_lines v @ visible_lines v)"
  shows "us_has_pct u = (seen \<noteq> {}) \<and> (seen \<noteq> {} \<longrightarrow> us_pct u = Max seen \<and> us_any u)"
  using assms(1) scan_lines_max [of sc "history_lines v @ visible_lines v"] usage_report_pct [of sc']
  by (auto simp: extract_usage_def Let_def seen_def simp del: foldl_append)

theorem usage_is_maximum_witness:
  "\<exists>sc' u. extract_usage (new_scanner\<lparr>ss_last_pct := 7, ss_has_pct := True\<rparr>) (new_model 1 1) = (sc', u)
     \<and> us_pct u = 7"
proof -
  let ?sc = "new_scanner\<lparr>ss_last_pct := 7, ss_has_pct := True\<rparr>"
  obtain sc' u where u: "extract_usage ?sc (new_model 1 1) = (sc', u)" by fastforce
  have "search usage_at [] = None" by (simp add: usage_at_def lit_def has_prefix_def)
  then have "history_lines (new_model 1 1) @ visible_lines (new_model 1 1) = [[]]"
    by (simp add: history_lines_def visible_lines_def new_model_def blank_def blank_line_def line_text_def
        cell0_def trim_right_set_def)
  then have "known_pct ?sc \<union> pcts (history_lines (new_model 1 1) @ visible_lines (new_model 1 1)) = {7}"
    by (simp only:) (simp add: known_pct_def pcts_def line_pct_def usage_at_def lit_def has_prefix_def)
  with usage_is_maximum [OF u] u show ?thesis by auto
qed

end
