(* ===== verification/Codec.thy ===== *)
theory Codec
  imports Prelude
begin

text \<open>
  Decoders that are fed a byte stream in pieces and keep the undecoded tail for the next piece: the loop they share, the
  law that makes the result independent of the cuts, and the law of a frame format. The marker filter of the terminal
  relay and the wire format between clients and proxy are instances.
\<close>

text \<open>Feed the pieces one by one, the tail of each decoding being put before the next piece.\<close>

fun dec_chunks :: "(bytes \<Rightarrow> 'a list \<times> bytes) \<Rightarrow> bytes \<Rightarrow> bytes list \<Rightarrow> 'a list \<times> bytes" where
  "dec_chunks dec r [] = ([], r)"
| "dec_chunks dec r (x # xs) =
     (let (c, r1) = dec (r @ x); (cs, r2) = dec_chunks dec r1 xs in (c @ cs, r2))"

text \<open>Every intermediate result but the last satisfies \<open>settled\<close>.\<close>

fun all_settled :: "(bytes \<Rightarrow> 'a list \<times> bytes) \<Rightarrow> ('a list \<Rightarrow> bool) \<Rightarrow> bytes \<Rightarrow> bytes list \<Rightarrow> bool" where
  "all_settled dec settled r [] \<longleftrightarrow> True"
| "all_settled dec settled r (x # xs) \<longleftrightarrow>
     (xs = [] \<or> settled (fst (dec (r @ x)))) \<and> all_settled dec settled (snd (dec (r @ x))) xs"

locale chunk_decoder =
  fixes dec :: "bytes \<Rightarrow> 'a list \<times> bytes" and settled :: "'a list \<Rightarrow> bool"
  assumes dec_nil: "dec [] = ([], [])"
    and dec_append: "settled (fst (dec a)) \<Longrightarrow>
      dec (a @ b) = (fst (dec a) @ fst (dec (snd (dec a) @ b)), snd (dec (snd (dec a) @ b)))"
begin

lemma chunks_from:
  "xs = [] \<or> settled (fst (dec a)) \<Longrightarrow> all_settled dec settled (snd (dec a)) xs \<Longrightarrow>
    dec (a @ concat xs) = (fst (dec a) @ fst (dec_chunks dec (snd (dec a)) xs), snd (dec_chunks dec (snd (dec a)) xs))"
proof (induction xs arbitrary: a)
  case (Cons x xs)
  have s: "settled (fst (dec a))" using Cons.prems by simp
  let ?b = "snd (dec a) @ x"
  have b: "dec (?b @ concat xs) = (fst (dec ?b) @ fst (dec_chunks dec (snd (dec ?b)) xs), snd (dec_chunks dec (snd (dec ?b)) xs))"
    using Cons.IH [of ?b] Cons.prems by simp
  show ?case using dec_append [OF s, of "x @ concat xs"] b by (simp add: split_beta)
qed simp

lemma chunks: "all_settled dec settled [] xs \<Longrightarrow> dec_chunks dec [] xs = dec (concat xs)"
proof (cases xs)
  case (Cons x ys)
  assume a: "all_settled dec settled [] xs"
  show ?thesis using chunks_from [of ys x] a Cons by (simp add: split_beta)
qed (simp add: dec_nil)

end

locale frame_codec = chunk_decoder dec settled
  for dec :: "bytes \<Rightarrow> 'a list \<times> bytes" and settled :: "'a list \<Rightarrow> bool" +
  fixes enc :: "'m \<Rightarrow> bytes" and out :: "'m \<Rightarrow> 'a list" and ok :: "'m \<Rightarrow> bool"
  assumes dec_frame: "ok m \<Longrightarrow> dec (enc m @ r) = (out m @ fst (dec r), snd (dec r))"
begin

lemma stream: "list_all ok ms \<Longrightarrow> dec (concat (map enc ms)) = (concat (map out ms), [])"
  by (induction ms) (simp_all add: dec_nil dec_frame)

text \<open>However the encoded messages are cut into pieces, they come out in order and nothing is left over.\<close>

lemma chunked_stream:
  "list_all ok ms \<Longrightarrow> concat xs = concat (map enc ms) \<Longrightarrow> all_settled dec settled [] xs \<Longrightarrow>
    dec_chunks dec [] xs = (concat (map out ms), [])"
  by (simp add: chunks stream)

end

end
