(* ===== verification/AnsiSync.thy ===== *)
theory AnsiSync
  imports GoStrings Codec
begin

text \<open>
  \<open>internal/ttysync/ansi.go\<close> and \<open>syncwrap.go\<close>: the byte automata of the terminal relay. \<open>ansi_feed\<close> reports the
  control sequences that blank the screen, \<open>strip_sync_markers\<close> removes the synchronised-output markers,
  and \<open>tt_feed\<close> tracks where in the buffer the unfinished control sequence or character starts.
\<close>

datatype ansi_state = AsGround | AsEsc | AsCSI | AsOSC | AsDCS | AsOSCEsc | AsDCSEsc

section \<open>ansiParser\<close>

record ansi_parser =
  ap_state :: ansi_state
  ap_params :: bytes

definition new_parser :: ansi_parser where
  "new_parser = \<lparr>ap_state = AsGround, ap_params = []\<rparr>"

definition is_destructive_csi :: "byte \<Rightarrow> bytes \<Rightarrow> bool" where
  "is_destructive_csi fin ps \<longleftrightarrow> fin = CHR ''J'' \<or> fin = CHR ''K''"

definition ansi_feed :: "ansi_parser \<Rightarrow> byte \<Rightarrow> ansi_parser \<times> bool" where
  "ansi_feed p b = (case ap_state p of
      AsGround \<Rightarrow> (if b = ESC then p\<lparr>ap_state := AsEsc\<rparr> else p, False)
    | AsEsc \<Rightarrow>
        (if b = CHR ''['' then p\<lparr>ap_state := AsCSI, ap_params := []\<rparr>
         else if b = CHR '']'' then p\<lparr>ap_state := AsOSC\<rparr>
         else if b = CHR ''P'' then p\<lparr>ap_state := AsDCS\<rparr>
         else p\<lparr>ap_state := AsGround\<rparr>, False)
    | AsCSI \<Rightarrow>
        if is_digit b \<or> b = CHR '';'' \<or> b = CHR ''?'' then (p\<lparr>ap_params := ap_params p @ [b]\<rparr>, False)
        else if 64 \<le> (ord b :: nat) \<and> ord b \<le> (126 :: nat)
        then (p\<lparr>ap_state := AsGround\<rparr>, is_destructive_csi b (ap_params p))
        else (p\<lparr>ap_state := AsGround\<rparr>, False)
    | AsOSC \<Rightarrow> (if b = CHR 0x07 then p\<lparr>ap_state := AsGround\<rparr>
               else if b = ESC then p\<lparr>ap_state := AsOSCEsc\<rparr> else p, False)
    | AsOSCEsc \<Rightarrow> (p\<lparr>ap_state := AsGround\<rparr>, False)
    | AsDCS \<Rightarrow> (if b = CHR 0x07 then p\<lparr>ap_state := AsGround\<rparr>
               else if b = ESC then p\<lparr>ap_state := AsDCSEsc\<rparr> else p, False)
    | AsDCSEsc \<Rightarrow> (p\<lparr>ap_state := AsGround\<rparr>, False))"

section \<open>Marker stripping\<close>

definition bsu_seq :: bytes where "bsu_seq = ESC # ''[?2026h''"

definition esu_seq :: bytes where "esu_seq = ESC # ''[?2026l''"

definition sync_prefix :: bytes where "sync_prefix = ESC # ''[?2026''"

text \<open>\<open>strip_sync_markers\<close> returns the payload and the carry; the block copy up to the next ESC is the
  byte-wise copy.\<close>

definition is_marker :: "bytes \<Rightarrow> bool" where
  "is_marker rest \<longleftrightarrow> length rest \<ge> 8 \<and> has_prefix rest sync_prefix \<and> (rest ! 7 = CHR ''h'' \<or> rest ! 7 = CHR ''l'')"

function strip_sync_markers :: "bytes \<Rightarrow> bytes \<times> bytes" where
  "strip_sync_markers d =
     (if d = [] then ([], [])
      else if hd d \<noteq> ESC then (let (pl, cy) = strip_sync_markers (tl d) in (hd d # pl, cy))
      else if is_marker d then strip_sync_markers (drop 8 d)
      else if length d < 8 \<and> has_prefix sync_prefix d then ([], d)
      else (let (pl, cy) = strip_sync_markers (tl d) in (hd d # pl, cy)))"
  by pat_completeness auto
termination
  by (relation "measure length") (auto simp: is_marker_def)

declare strip_sync_markers.simps [simp del]

definition wrap_sync :: "bytes \<Rightarrow> bytes" where
  "wrap_sync pl = bsu_seq @ pl @ esu_seq"

section \<open>tailTracker\<close>

record tail_tracker =
  tt_state :: ansi_state
  tt_rem :: nat
  tt_seq_start :: int

definition new_tail_tracker :: tail_tracker where
  "new_tail_tracker = \<lparr>tt_state = AsGround, tt_rem = 0, tt_seq_start = -1\<rparr>"

definition tt_done :: "tail_tracker \<Rightarrow> tail_tracker" where
  "tt_done t = t\<lparr>tt_state := AsGround, tt_seq_start := -1\<rparr>"

definition utf8_cont_len :: "byte \<Rightarrow> nat" where
  "utf8_cont_len b = (let n = ord b in
     if n div 32 = 6 then 1 else if n div 16 = (14::nat) then 2 else if n div 8 = 30 then 3 else 0)"

definition tt_ground :: "tail_tracker \<Rightarrow> byte \<Rightarrow> int \<Rightarrow> tail_tracker" where
  "tt_ground t b off =
     (if b = ESC then t\<lparr>tt_state := AsEsc, tt_seq_start := off\<rparr>
      else if 192 \<le> (ord b :: nat) then
        (if utf8_cont_len b = 0 then t else t\<lparr>tt_rem := utf8_cont_len b, tt_seq_start := off\<rparr>)
      else t)"

definition tt_step :: "tail_tracker \<Rightarrow> byte \<Rightarrow> int \<Rightarrow> tail_tracker" where
  "tt_step t b off = (case tt_state t of
      AsGround \<Rightarrow> tt_ground t b off
    | AsEsc \<Rightarrow>
        if b = CHR ''['' then t\<lparr>tt_state := AsCSI\<rparr>
        else if b = CHR '']'' then t\<lparr>tt_state := AsOSC\<rparr>
        else if b = CHR ''P'' then t\<lparr>tt_state := AsDCS\<rparr>
        else if b = ESC then t\<lparr>tt_seq_start := off\<rparr>
        else tt_done t
    | AsCSI \<Rightarrow>
        if is_digit b \<or> b \<in> set '';?:'' \<or> (32 \<le> (ord b :: nat) \<and> ord b \<le> (47 :: nat)) then t else tt_done t
    | AsOSC \<Rightarrow> if b = CHR 0x07 then tt_done t else if b = ESC then t\<lparr>tt_state := AsOSCEsc\<rparr> else t
    | AsOSCEsc \<Rightarrow> if b = CHR 0x5C then tt_done t else t\<lparr>tt_state := AsOSC\<rparr>
    | AsDCS \<Rightarrow> if b = CHR 0x07 then tt_done t else if b = ESC then t\<lparr>tt_state := AsDCSEsc\<rparr> else t
    | AsDCSEsc \<Rightarrow> if b = CHR 0x5C then tt_done t else t\<lparr>tt_state := AsDCS\<rparr>)"

definition is_utf8_cont :: "byte \<Rightarrow> bool" where
  "is_utf8_cont b \<longleftrightarrow> (ord b :: nat) div 64 = 2"

definition tt_feed :: "tail_tracker \<Rightarrow> byte \<Rightarrow> int \<Rightarrow> tail_tracker" where
  "tt_feed t b off =
     (if tt_rem t > 0 then
        (if is_utf8_cont b then
           (let t = t\<lparr>tt_rem := tt_rem t - 1\<rparr> in if tt_rem t = 0 then t\<lparr>tt_seq_start := -1\<rparr> else t)
         else tt_step (t\<lparr>tt_rem := 0, tt_seq_start := -1\<rparr>) b off)
      else tt_step t b off)"

definition split_at :: "tail_tracker \<Rightarrow> int \<Rightarrow> int" where
  "split_at t buf_len = (if tt_seq_start t < 0 \<or> tt_seq_start t > buf_len then buf_len else tt_seq_start t)"

definition rebase :: "tail_tracker \<Rightarrow> int \<Rightarrow> tail_tracker" where
  "rebase t keep_from =
     (if tt_seq_start t \<ge> 0 then
        let s = tt_seq_start t - keep_from in t\<lparr>tt_seq_start := (if s < 0 then 0 else s)\<rparr>
      else t)"

definition tt_reset :: "tail_tracker \<Rightarrow> tail_tracker" where
  "tt_reset t = t\<lparr>tt_state := AsGround, tt_rem := 0, tt_seq_start := -1\<rparr>"

section \<open>Feeding a buffer\<close>

text \<open>The loop \<open>tracker.Feed(data[i], base+i)\<close> of the pump.\<close>

fun tt_run :: "tail_tracker \<Rightarrow> bytes \<Rightarrow> int \<Rightarrow> tail_tracker" where
  "tt_run t [] base = t"
| "tt_run t (b # bs) base = tt_run (tt_feed t b base) bs (base + 1)"

lemma tt_run_append: "tt_run t (xs @ ys) base = tt_run (tt_run t xs base) ys (base + int (length xs))"
  by (induction xs arbitrary: t base) (auto simp: algebra_simps)

text \<open>What the automaton knows apart from the offset, and that it does not depend on offsets.\<close>

definition core :: "tail_tracker \<Rightarrow> ansi_state \<times> nat" where
  "core t = (tt_state t, tt_rem t)"

lemma tt_step_core: "core t = core u \<Longrightarrow> core (tt_step t b o1) = core (tt_step u b o2)"
  by (cases "tt_state u") (auto simp: core_def tt_step_def tt_ground_def tt_done_def)

lemma tt_feed_core:
  assumes "core t = core u"
  shows "core (tt_feed t b o1) = core (tt_feed u b o2)"
proof -
  have r: "tt_rem t = tt_rem u" "tt_state t = tt_state u" using assms by (simp_all add: core_def)
  have "core (t\<lparr>tt_rem := 0, tt_seq_start := -1\<rparr>) = core (u\<lparr>tt_rem := 0, tt_seq_start := -1\<rparr>)"
    using r by (simp add: core_def)
  from tt_step_core [OF this, of b o1 o2] tt_step_core [OF assms, of b o1 o2] r show ?thesis
    by (simp add: tt_feed_def Let_def) (simp add: core_def)
qed

lemma tt_run_core: "core t = core u \<Longrightarrow> core (tt_run t bs o1) = core (tt_run u bs o2)"
proof (induction bs arbitrary: t u o1 o2)
  case (Cons b bs)
  then show ?case using Cons.IH [OF tt_feed_core [OF Cons.prems, of b o1 o2]] by simp
qed simp

definition core_idle :: "ansi_state \<times> nat" where
  "core_idle = (AsGround, 0)"

text \<open>A buffer may be cut here: the head ends between sequences, or what it leaves pending is cancelled by
  the first byte of the tail (a second ESC, or a byte that does not continue the character).\<close>

definition clean_cut :: "bytes \<Rightarrow> bytes \<Rightarrow> bool" where
  "clean_cut h tail \<longleftrightarrow> (let c = core (tt_run new_tail_tracker h 0) in
     c = core_idle
     \<or> c = (AsEsc, 0) \<and> tail \<noteq> [] \<and> hd tail = ESC
     \<or> fst c = AsGround \<and> tail \<noteq> [] \<and> \<not> is_utf8_cont (hd tail))"

text \<open>The tracker is right about a buffer: its state is that of a fresh automaton run over the buffer and
  over the tail from \<open>split_at\<close> on, and the buffer may be cut there.\<close>

definition tracks :: "tail_tracker \<Rightarrow> bytes \<Rightarrow> bool" where
  "tracks t buf \<longleftrightarrow>
     (tt_seq_start t = -1 \<longleftrightarrow> core t = core_idle)
     \<and> -1 \<le> tt_seq_start t \<and> tt_seq_start t < max 0 (int (length buf))
     \<and> (tt_rem t > 0 \<longrightarrow> tt_state t = AsGround)
     \<and> core (tt_run new_tail_tracker buf 0) = core t
     \<and> (let k = nat (split_at t (int (length buf))) in
          core (tt_run new_tail_tracker (drop k buf) 0) = core t \<and> clean_cut (take k buf) (drop k buf))"

lemma core_new: "core new_tail_tracker = core_idle"
  by (simp add: new_tail_tracker_def core_def core_idle_def)

lemma clean_cut_Nil: "clean_cut [] tail"
  by (simp add: clean_cut_def core_new)

lemma tracks_new: "tracks new_tail_tracker []"
  by (simp add: tracks_def core_new clean_cut_Nil) (simp add: new_tail_tracker_def)

text \<open>How one byte moves the start of the pending sequence.\<close>

lemma tt_feed_start:
  assumes "tt_seq_start t = -1 \<longleftrightarrow> core t = core_idle" "tt_rem t > 0 \<longrightarrow> tt_state t = AsGround" "0 \<le> off"
  shows "(tt_seq_start (tt_feed t b off) = -1 \<longleftrightarrow> core (tt_feed t b off) = core_idle)
    \<and> (tt_rem (tt_feed t b off) > 0 \<longrightarrow> tt_state (tt_feed t b off) = AsGround)
    \<and> (tt_seq_start (tt_feed t b off) = -1
       \<or> tt_seq_start (tt_feed t b off) = off \<and> core (tt_feed t b off) = core (tt_feed new_tail_tracker b 0)
           \<and> (core t = core_idle \<or> core t = (AsEsc, 0) \<and> b = ESC \<or> tt_state t = AsGround \<and> \<not> is_utf8_cont b)
       \<or> tt_seq_start (tt_feed t b off) = tt_seq_start t)"
proof (cases "tt_rem t > 0")
  case True
  then have "tt_state t = AsGround" using assms(2) by simp
  then show ?thesis using assms(1,3) True
    by (auto simp: core_def core_idle_def tt_feed_def tt_step_def tt_ground_def new_tail_tracker_def Let_def)
next
  case False
  show ?thesis
    using assms False
    by (cases "tt_state t")
       (auto simp: core_def core_idle_def tt_feed_def tt_step_def tt_ground_def tt_done_def new_tail_tracker_def Let_def)
qed

lemma tracks_feed:
  assumes "tracks t buf"
  shows "tracks (tt_feed t b (int (length buf))) (buf @ [b])"
proof -
  define u where "u = tt_feed t b (int (length buf))"
  note t = assms [unfolded tracks_def Let_def]
  have st: "(tt_seq_start u = -1 \<longleftrightarrow> core u = core_idle) \<and> (tt_rem u > 0 \<longrightarrow> tt_state u = AsGround)
    \<and> (tt_seq_start u = -1
       \<or> tt_seq_start u = int (length buf) \<and> core u = core (tt_feed new_tail_tracker b 0)
           \<and> (core t = core_idle \<or> core t = (AsEsc, 0) \<and> b = ESC \<or> tt_state t = AsGround \<and> \<not> is_utf8_cont b)
       \<or> tt_seq_start u = tt_seq_start t)"
    unfolding u_def using t by (intro tt_feed_start) auto
  have cu: "core (tt_run new_tail_tracker (xs @ [b]) 0) = core u"
    if "core (tt_run new_tail_tracker xs 0) = core t" for xs
    using tt_feed_core [OF that] by (simp add: tt_run_append u_def)
  have whole: "core (tt_run new_tail_tracker (buf @ [b]) 0) = core u" using cu t by blast
  consider "tt_seq_start u = -1" | "tt_seq_start u = int (length buf)" "tt_seq_start u \<noteq> tt_seq_start t"
    | s where "tt_seq_start u = int s" "tt_seq_start t = int s"
    using st t by (metis int_nat_eq linorder_not_less nonneg_int_cases zle_iff_zadd order_antisym_conv zless_imp_add1_zle add.left_inverse)
  then have "tracks u (buf @ [b])"
  proof cases
    case 1
    then show ?thesis using st whole
      by (simp add: tracks_def split_at_def core_new clean_cut_def)
  next
    case 2
    then have n: "core u = core (tt_feed new_tail_tracker b 0)"
      "core t = core_idle \<or> core t = (AsEsc, 0) \<and> b = ESC \<or> tt_state t = AsGround \<and> \<not> is_utf8_cont b" using st by simp_all
    have "core (tt_run new_tail_tracker buf 0) = core t" using t by blast
    then have "clean_cut buf [b]" using n(2) unfolding clean_cut_def Let_def core_def by auto
    then show ?thesis using st whole n(1) 2(1) by (simp add: tracks_def split_at_def)
  next
    case 3
    have s: "s < length buf" using t 3 by auto
    then have d: "drop s (buf @ [b]) = drop s buf @ [b]" "take s (buf @ [b]) = take s buf"
      "hd (drop s buf @ [b]) = hd (drop s buf)" by simp_all
    have "core (tt_run new_tail_tracker (drop s buf) 0) = core t" "clean_cut (take s buf) (drop s buf)"
      using t 3 s by (auto simp: split_at_def)
    with cu d st whole 3 s show ?thesis
      by (simp add: tracks_def split_at_def) (simp add: clean_cut_def)
  qed
  then show ?thesis by (simp add: u_def)
qed

lemma tracks_run: "tracks t buf \<Longrightarrow> tracks (tt_run t bs (int (length buf))) (buf @ bs)"
proof (induction bs arbitrary: t buf)
  case (Cons b bs)
  then show ?case using Cons.IH [OF tracks_feed [OF Cons.prems, of b]] by (simp add: add.commute)
qed simp

lemma tracks_rebase:
  assumes "tracks t buf"
  defines "k \<equiv> split_at t (int (length buf))"
  shows "tracks (rebase t k) (drop (nat k) buf)"
proof (cases "tt_seq_start t = -1")
  case True
  then have "core t = core_idle" "rebase t k = t" using assms by (auto simp: tracks_def rebase_def)
  then show ?thesis using True assms by (simp add: tracks_def split_at_def core_new clean_cut_Nil)
next
  case False
  then have k: "k = tt_seq_start t" "0 \<le> k" "nat k < length buf" using assms by (auto simp: tracks_def split_at_def)
  then have "rebase t k = t\<lparr>tt_seq_start := 0\<rparr>" by (simp add: rebase_def)
  moreover have "core (t\<lparr>tt_seq_start := 0\<rparr>) = core t" by (simp add: core_def)
  moreover have "core (tt_run new_tail_tracker (drop (nat k) buf) 0) = core t"
    "core t \<noteq> core_idle" "tt_rem t > 0 \<longrightarrow> tt_state t = AsGround"
    using assms(1) False unfolding k_def by (simp_all add: tracks_def Let_def)
  ultimately show ?thesis using k by (simp add: tracks_def split_at_def clean_cut_Nil)
qed

section \<open>Stripping is a stream operation\<close>

lemma has_prefix_Nil2 [simp]: "has_prefix s []"
  by (simp add: has_prefix_def)

lemma prefix_shorter: "has_prefix p (xs @ ys) \<Longrightarrow> has_prefix p xs"
  by (auto simp: has_prefix_iff)

lemma marker_append: "\<not> is_marker xs \<Longrightarrow> \<not> (length xs < 8 \<and> has_prefix sync_prefix xs) \<Longrightarrow> \<not> is_marker (xs @ ys)"
proof -
  assume n: "\<not> is_marker xs" and p: "\<not> (length xs < 8 \<and> has_prefix sync_prefix xs)"
  show "\<not> is_marker (xs @ ys)"
  proof (cases "length xs < 8")
    case False
    then show ?thesis using n by (auto simp: is_marker_def has_prefix_def sync_prefix_def nth_append)
  next
    case True
    then have np: "\<not> has_prefix sync_prefix xs" using p by simp
    have len: "length sync_prefix = 7" by (simp add: sync_prefix_def)
    have "take (length xs) sync_prefix = xs" if "take 7 (xs @ ys) = sync_prefix"
    proof -
      have "length xs \<le> 7" using True by simp
      then show ?thesis using that by (metis append_eq_conv_conj min_def take_take)
    qed
    then have "\<not> has_prefix (xs @ ys) sync_prefix" using np len by (auto simp: has_prefix_def)
    then show ?thesis by (simp add: is_marker_def)
  qed
qed

text \<open>The branches of the stripping loop.\<close>

lemma strip_Nil: "strip_sync_markers [] = ([], [])"
  by (subst strip_sync_markers.simps) simp

lemma strip_plain: "d \<noteq> [] \<Longrightarrow> hd d \<noteq> ESC \<Longrightarrow>
    strip_sync_markers d = (let (pl, cy) = strip_sync_markers (tl d) in (hd d # pl, cy))"
  by (subst strip_sync_markers.simps) simp

lemma strip_marker: "d \<noteq> [] \<Longrightarrow> hd d = ESC \<Longrightarrow> is_marker d \<Longrightarrow> strip_sync_markers d = strip_sync_markers (drop 8 d)"
  by (subst strip_sync_markers.simps) simp

lemma strip_carry: "d \<noteq> [] \<Longrightarrow> hd d = ESC \<Longrightarrow> \<not> is_marker d \<Longrightarrow> length d < 8 \<and> has_prefix sync_prefix d \<Longrightarrow>
    strip_sync_markers d = ([], d)"
  by (subst strip_sync_markers.simps) simp

lemma strip_other: "d \<noteq> [] \<Longrightarrow> hd d = ESC \<Longrightarrow> \<not> is_marker d \<Longrightarrow> \<not> (length d < 8 \<and> has_prefix sync_prefix d) \<Longrightarrow>
    strip_sync_markers d = (let (pl, cy) = strip_sync_markers (tl d) in (hd d # pl, cy))"
  by (subst strip_sync_markers.simps) auto

lemma strip_append:
  "strip_sync_markers (xs @ ys) =
     (let (p1, c1) = strip_sync_markers xs; (p2, c2) = strip_sync_markers (c1 @ ys) in (p1 @ p2, c2))"
proof (induction xs rule: strip_sync_markers.induct)
  case (1 xs)
  consider (nil) "xs = []" | (plain) "xs \<noteq> []" "hd xs \<noteq> ESC" | (marker) "xs \<noteq> []" "hd xs = ESC" "is_marker xs"
    | (carry) "xs \<noteq> []" "hd xs = ESC" "\<not> is_marker xs" "length xs < 8 \<and> has_prefix sync_prefix xs"
    | (other) "xs \<noteq> []" "hd xs = ESC" "\<not> is_marker xs" "\<not> (length xs < 8 \<and> has_prefix sync_prefix xs)" by blast
  then show ?case
  proof cases
    case nil
    then show ?thesis by (simp add: strip_Nil split: prod.splits)
  next
    case plain
    then show ?thesis using 1(1) by (simp add: strip_plain split: prod.splits)
  next
    case marker
    then have "is_marker (xs @ ys)" "drop 8 (xs @ ys) = drop 8 xs @ ys"
      by (auto simp: is_marker_def has_prefix_def sync_prefix_def nth_append)
    then show ?thesis using marker 1(2) by (simp add: strip_marker)
  next
    case carry
    then show ?thesis by (simp add: strip_carry split: prod.splits)
  next
    case other
    have "\<not> is_marker (xs @ ys)" using marker_append other by blast
    moreover have "\<not> (length (xs @ ys) < 8 \<and> has_prefix sync_prefix (xs @ ys))"
      using other prefix_shorter by auto
    ultimately show ?thesis using other 1(3)
      by (simp add: strip_other split: prod.splits)
  qed
qed

interpretation strip: chunk_decoder strip_sync_markers "\<lambda>_. True"
proof (unfold_locales, goal_cases)
  case (2 a b)
  show ?case using strip_append [of a b] by (simp add: split_beta)
qed (rule strip_Nil)

lemma all_settled_True: "all_settled dec (\<lambda>_. True) r xs"
  by (induction xs arbitrary: r) auto

text \<open>C40: Marker stripping does not depend on how the stream is cut: stripping the chunks one by one, each with the
  carry of the previous one put before it, gives the payload and the carry of stripping the whole stream at once.\<close>

theorem strip_chunks: "dec_chunks strip_sync_markers [] chunks = strip_sync_markers (concat chunks)"
  by (rule strip.chunks) (rule all_settled_True)

text \<open>Stripping is a single pass: a marker inside a marker leaves a complete marker in the payload, so
  the flush built from it contains a third, inner synchronised-output marker.\<close>

theorem strip_leaves_marker:
  "strip_sync_markers (ESC # ''[?20'' @ bsu_seq @ ''26h'') = (bsu_seq, [])"
  by (simp add: strip_sync_markers.simps bsu_seq_def is_marker_def has_prefix_def sync_prefix_def)

end
