(* ===== verification/Pump.thy ===== *)
theory Pump
  imports AnsiSync
begin

text \<open>
  \<open>internal/ttysync/wrap.go\<close>, \<open>PumpWithIdleConfig\<close>: the relay loop between the child's pty and the terminal.
  One iteration of its \<open>select\<close> is \<open>pump_step\<close> on an event: a read, the end of the reads, or one of the two timers.
  Durations are natural numbers; an armed timer is recorded by its duration (\<open>p_idle\<close>) or as a flag
  (\<open>p_max\<close>). Whether a \<open>dst.Write\<close> made while handling the event fails is part of the event.
\<close>

record pump_cfg =
  k_idle :: nat
  k_hold_destructive :: nat
  k_sync_wrap :: bool
  k_max_hold :: nat
  k_max_buffer :: nat

record pump =
  p_buf :: bytes
  p_parser :: ansi_parser
  p_tracker :: tail_tracker
  p_hold :: bool
  p_idle :: "nat option"
  p_max :: bool

definition new_pump :: pump where
  "new_pump = \<lparr>p_buf = [], p_parser = new_parser, p_tracker = new_tail_tracker, p_hold = False,
     p_idle = None, p_max = False\<rparr>"

definition max_tail_hold :: nat where
  "max_tail_hold = 32768"

text \<open>\<open>flush\<close>: the new state and the bytes handed to \<open>dst.Write\<close>, if it is called.\<close>

definition flush_head :: "bytes \<Rightarrow> bytes" where
  "flush_head h =
     (let (payload, carry) = strip_sync_markers h;
          payload = (if carry \<noteq> [] then payload @ carry else payload)
      in if payload \<noteq> [] then wrap_sync payload else [])"

definition flush :: "pump_cfg \<Rightarrow> bool \<Rightarrow> pump \<Rightarrow> pump \<times> bytes option" where
  "flush cfg eof p =
     (if p_buf p = [] then (p, None)
      else
        let p = p\<lparr>p_idle := None, p_max := False, p_hold := False\<rparr>; buf = p_buf p in
        if \<not> k_sync_wrap cfg then (p\<lparr>p_buf := []\<rparr>, Some buf)
        else
          let split = nat (split_at (p_tracker p) (int (length buf))) in
          if length buf - split > max_tail_hold
          then (p\<lparr>p_buf := [], p_tracker := tt_reset (p_tracker p)\<rparr>, Some buf)
          else
            let out = flush_head (take split buf) in
            if eof then
              let out = out @ drop split buf in
              (p\<lparr>p_buf := [], p_tracker := tt_reset (p_tracker p)\<rparr>, if out = [] then None else Some out)
            else
              (p\<lparr>p_buf := drop split buf, p_tracker := rebase (p_tracker p) (int split)\<rparr>,
               if out = [] then None else Some out))"

text \<open>The scan for destructive sequences: it stops at the first one (\<open>break\<close>).\<close>

fun scan_until :: "ansi_parser \<Rightarrow> bytes \<Rightarrow> ansi_parser \<times> bool" where
  "scan_until a [] = (a, False)"
| "scan_until a (b # bs) = (let (a', d) = ansi_feed a b in if d then (a', True) else scan_until a' bs)"

fun scan_all :: "ansi_parser \<Rightarrow> bytes \<Rightarrow> ansi_parser" where
  "scan_all a [] = a"
| "scan_all a (b # bs) = scan_all (fst (ansi_feed a b)) bs"

definition detect :: "pump_cfg \<Rightarrow> bytes \<Rightarrow> pump \<Rightarrow> pump" where
  "detect cfg d p =
     (if k_hold_destructive cfg > 0 \<and> \<not> p_hold p then
        let (a, found) = scan_until (p_parser p) d in p\<lparr>p_parser := a, p_hold := found\<rparr>
      else if k_hold_destructive cfg > 0 then p\<lparr>p_parser := scan_all (p_parser p) d\<rparr>
      else p)"

definition append_data :: "pump_cfg \<Rightarrow> bytes \<Rightarrow> pump \<Rightarrow> pump" where
  "append_data cfg d p =
     (let p = (if k_sync_wrap cfg
               then p\<lparr>p_tracker := tt_run (p_tracker p) d (int (length (p_buf p)))\<rparr> else p)
      in p\<lparr>p_buf := p_buf p @ d\<rparr>)"

definition arm :: "pump_cfg \<Rightarrow> pump \<Rightarrow> pump" where
  "arm cfg p =
     (let p = (if k_max_hold cfg > 0 \<and> \<not> p_max p then p\<lparr>p_max := True\<rparr> else p);
          d = (if p_hold p \<and> k_hold_destructive cfg > 0 then k_hold_destructive cfg else k_idle cfg)
      in p\<lparr>p_idle := Some d\<rparr>)"

section \<open>The select loop\<close>

datatype pump_event =
    EvRead bytes (* a successful read; the bytes *)
  | EvErr bool (* a read error; True for io.EOF *)
  | EvClosed
  | EvIdle
  | EvMaxHold

datatype pump_result = Running | Finished | ReadError | WriteError

type_synonym pump_out = "pump \<times> bytes option \<times> pump_result"

text \<open>\<open>if err := flush(..); err != nil { return err }\<close>, where \<open>ok\<close> says whether \<open>dst.Write\<close> succeeds.\<close>

definition flush_or_fail :: "pump_cfg \<Rightarrow> bool \<Rightarrow> pump \<Rightarrow> bool \<Rightarrow> pump_result \<Rightarrow> pump_out" where
  "flush_or_fail cfg eof p ok r =
     (let (p, w) = flush cfg eof p in (p, w, if w \<noteq> None \<and> \<not> ok then WriteError else r))"

definition pump_step :: "pump_cfg \<Rightarrow> pump \<Rightarrow> pump_event \<Rightarrow> bool \<Rightarrow> pump_out" where
  "pump_step cfg p ev ok = (case ev of
      EvClosed \<Rightarrow> flush_or_fail cfg True p ok Finished
    | EvErr eof \<Rightarrow> (let (p, w) = flush cfg True p in (p, w, if eof then Finished else ReadError))
    | EvRead d \<Rightarrow>
        let p = append_data cfg d (detect cfg d p) in
        if k_max_buffer cfg > 0 \<and> length (p_buf p) \<ge> k_max_buffer cfg
        then flush_or_fail cfg False p ok Running
        else (arm cfg p, None, Running)
    | EvIdle \<Rightarrow> flush_or_fail cfg False (p\<lparr>p_idle := None\<rparr>) ok Running
    | EvMaxHold \<Rightarrow> flush_or_fail cfg False (p\<lparr>p_max := False\<rparr>) ok Running)"

text \<open>The reader goroutine only sends reads of at least one byte, and a timer case is only taken while its
  timer is armed.\<close>

definition enabled :: "pump \<Rightarrow> pump_event \<Rightarrow> bool" where
  "enabled p ev = (case ev of
      EvRead d \<Rightarrow> d \<noteq> [] | EvErr _ \<Rightarrow> True | EvClosed \<Rightarrow> True | EvIdle \<Rightarrow> p_idle p \<noteq> None | EvMaxHold \<Rightarrow> p_max p)"

definition event_data :: "pump_event \<Rightarrow> bytes" where
  "event_data ev = (case ev of EvRead d \<Rightarrow> d | _ \<Rightarrow> [])"

text \<open>A run of the loop: the bytes read, the pieces handed to the terminal side (ghost), and the writes.\<close>

inductive pump_run :: "pump_cfg \<Rightarrow> bytes \<Rightarrow> bytes list \<Rightarrow> pump \<Rightarrow> pump_result \<Rightarrow> bool" for cfg where
  start: "pump_run cfg [] [] new_pump Running"
| step: "pump_run cfg input outs p Running \<Longrightarrow> enabled p ev \<Longrightarrow> pump_step cfg p ev True = (q, w, r)
     \<Longrightarrow> pump_run cfg (input @ event_data ev) (case w of None \<Rightarrow> outs | Some x \<Rightarrow> outs @ [x]) q r"

inductive_cases pump_run_Running: "pump_run cfg input outs p Running"

section \<open>Effect of the parts\<close>

lemma detect_frame [simp]:
  "p_buf (detect cfg d p) = p_buf p" "p_tracker (detect cfg d p) = p_tracker p"
  "p_idle (detect cfg d p) = p_idle p" "p_max (detect cfg d p) = p_max p"
  by (auto simp: detect_def Let_def split: prod.splits)

lemma append_data_frame [simp]:
  "p_buf (append_data cfg d p) = p_buf p @ d" "p_idle (append_data cfg d p) = p_idle p"
  "p_max (append_data cfg d p) = p_max p"
  by (auto simp: append_data_def Let_def)

lemma arm_frame [simp]: "p_buf (arm cfg p) = p_buf p" "p_tracker (arm cfg p) = p_tracker p" "p_idle (arm cfg p) \<noteq> None"
  by (auto simp: arm_def Let_def)

text \<open>What a flush hands out: a raw block, or the head of the buffer, wrapped, followed at the end of the stream by the tail.\<close>

inductive emits :: "pump_cfg \<Rightarrow> bytes \<Rightarrow> bytes \<Rightarrow> bool" for cfg where
  raw: "\<not> k_sync_wrap cfg \<Longrightarrow> emits cfg h h"
| long: "k_sync_wrap cfg \<Longrightarrow> length h > max_tail_hold \<Longrightarrow> emits cfg h h"
| head: "k_sync_wrap cfg \<Longrightarrow> clean_cut h tail \<Longrightarrow> emits cfg h (flush_head h)"
| final: "k_sync_wrap cfg \<Longrightarrow> clean_cut h tail \<Longrightarrow> emits cfg (h @ tail) (flush_head h @ tail)"

definition out_bytes :: "bytes option \<Rightarrow> bytes" where
  "out_bytes w = (case w of None \<Rightarrow> [] | Some x \<Rightarrow> x)"

definition pump_ok :: "pump_cfg \<Rightarrow> pump \<Rightarrow> bool" where
  "pump_ok cfg p \<longleftrightarrow> (k_sync_wrap cfg \<longrightarrow> tracks (p_tracker p) (p_buf p))"

lemma tracks_reset: "tracks (tt_reset t) []"
  using tracks_new by (simp add: tracks_def tt_reset_def new_tail_tracker_def core_def split_at_def)

lemma out_bytes_simps [simp]: "out_bytes (Some x) = x" "out_bytes None = []" "out_bytes (if x = [] then None else Some x) = x"
  by (simp_all add: out_bytes_def)

lemma flush_sync:
  assumes "k_sync_wrap cfg" "p_buf p \<noteq> []" "k = nat (split_at (p_tracker p) (int (length (p_buf p))))"
  defines "r \<equiv> p\<lparr>p_idle := None, p_max := False, p_hold := False\<rparr>"
  shows "flush cfg eof p =
     (if length (p_buf p) - k > max_tail_hold
      then (r\<lparr>p_buf := [], p_tracker := tt_reset (p_tracker p)\<rparr>, Some (p_buf p))
      else if eof then (r\<lparr>p_buf := [], p_tracker := tt_reset (p_tracker p)\<rparr>,
        if flush_head (take k (p_buf p)) @ drop k (p_buf p) = [] then None
        else Some (flush_head (take k (p_buf p)) @ drop k (p_buf p)))
      else (r\<lparr>p_buf := drop k (p_buf p), p_tracker := rebase (p_tracker p) (int k)\<rparr>,
        if flush_head (take k (p_buf p)) = [] then None else Some (flush_head (take k (p_buf p)))))"
  using assms(1,2) unfolding flush_def Let_def r_def by (simp del: append_is_Nil_conv add: assms(3) [symmetric])

lemma flush_spec:
  assumes "flush cfg eof p = (q, w)" "pump_ok cfg p" "p_buf p \<noteq> []"
  shows "\<exists>h. p_buf p = h @ p_buf q \<and> emits cfg h (out_bytes w) \<and> pump_ok cfg q
    \<and> (eof \<longrightarrow> p_buf q = []) \<and> p_idle q = None \<and> \<not> p_max q
    \<and> (p_buf q \<noteq> [] \<longrightarrow> k_sync_wrap cfg \<and> tt_seq_start (p_tracker q) = 0)"
proof (cases "k_sync_wrap cfg")
  case False
  with assms show ?thesis by (auto simp: flush_def Let_def out_bytes_def pump_ok_def intro: emits.raw)
next
  case sync: True
  define k where "k = nat (split_at (p_tracker p) (int (length (p_buf p))))"
  have tr: "tracks (p_tracker p) (p_buf p)" using assms(2) sync by (simp add: pump_ok_def)
  then have cut: "clean_cut (take k (p_buf p)) (drop k (p_buf p))" by (simp add: tracks_def k_def Let_def)
  have kk: "int k = split_at (p_tracker p) (int (length (p_buf p)))" by (simp add: k_def split_at_def)
  note fe = flush_sync [OF sync assms(3) k_def, of eof]
  consider (long) "length (p_buf p) - k > max_tail_hold" | (eof) "\<not> length (p_buf p) - k > max_tail_hold" eof
    | (cut) "\<not> length (p_buf p) - k > max_tail_hold" "\<not> eof" by blast
  then show ?thesis
  proof cases
    case long
    then have q: "q = p\<lparr>p_idle := None, p_max := False, p_hold := False, p_buf := [], p_tracker := tt_reset (p_tracker p)\<rparr>"
      "out_bytes w = p_buf p"
      using assms(1) fe by auto
    have "emits cfg (p_buf p) (p_buf p)" using sync long by (intro emits.long) simp_all
    with q show ?thesis by (simp add: pump_ok_def tracks_reset)
  next
    case eof
    then have q: "q = p\<lparr>p_idle := None, p_max := False, p_hold := False, p_buf := [], p_tracker := tt_reset (p_tracker p)\<rparr>"
      "out_bytes w = flush_head (take k (p_buf p)) @ drop k (p_buf p)"
      using assms(1) fe by (simp_all del: append_is_Nil_conv)
    have "emits cfg (take k (p_buf p) @ drop k (p_buf p)) (flush_head (take k (p_buf p)) @ drop k (p_buf p))"
      using sync cut by (rule emits.final)
    with q show ?thesis by (simp add: pump_ok_def tracks_reset)
  next
    case cut': cut
    then have q: "q = p\<lparr>p_idle := None, p_max := False, p_hold := False, p_buf := drop k (p_buf p),
        p_tracker := rebase (p_tracker p) (int k)\<rparr>" "out_bytes w = flush_head (take k (p_buf p))"
      using assms(1) fe by (simp_all split: if_splits)
    have "emits cfg (take k (p_buf p)) (flush_head (take k (p_buf p)))" using sync cut by (rule emits.head)
    moreover have "tracks (rebase (p_tracker p) (int k)) (drop k (p_buf p))"
      using tracks_rebase [OF tr] by (simp add: kk [symmetric])
    moreover have "drop k (p_buf p) \<noteq> [] \<Longrightarrow> tt_seq_start (rebase (p_tracker p) (int k)) = 0"
      using tr by (auto simp: tracks_def k_def split_at_def rebase_def Let_def split: if_splits)
    ultimately show ?thesis using q sync cut'(2)
      by (intro exI [of _ "take k (p_buf p)"]) (simp add: pump_ok_def)
  qed
qed

section \<open>The loop invariant\<close>

definition timers_ok :: "pump_cfg \<Rightarrow> pump \<Rightarrow> bool" where
  "timers_ok cfg p \<longleftrightarrow>
     (p_idle p \<noteq> None \<longrightarrow> p_buf p \<noteq> [] \<and> (k_max_hold cfg > 0 \<longrightarrow> p_max p))
     \<and> (p_buf p \<noteq> [] \<longrightarrow> p_idle p \<noteq> None \<or> k_sync_wrap cfg \<and> tt_seq_start (p_tracker p) = 0)"

definition delivered :: "pump_cfg \<Rightarrow> bytes \<Rightarrow> bytes list \<Rightarrow> pump \<Rightarrow> bool" where
  "delivered cfg input outs p \<longleftrightarrow>
     (\<exists>heads pieces. input = concat heads @ p_buf p \<and> list_all2 (emits cfg) heads pieces \<and> concat outs = concat pieces)"

lemma append_data_ok: "pump_ok cfg p \<Longrightarrow> pump_ok cfg (append_data cfg d (detect cfg d p))"
  by (auto simp: pump_ok_def append_data_def Let_def intro: tracks_run)

lemma flush_delivered:
  assumes "delivered cfg input outs p" "pump_ok cfg p" "flush cfg eof p = (q, w)"
  shows "delivered cfg input (case w of None \<Rightarrow> outs | Some x \<Rightarrow> outs @ [x]) q \<and> pump_ok cfg q"
proof (cases "p_buf p = []")
  case True
  with assms show ?thesis by (simp add: flush_def)
next
  case False
  obtain h where h: "p_buf p = h @ p_buf q" "emits cfg h (out_bytes w)" "pump_ok cfg q"
    using flush_spec [OF assms(3,2) False] by blast
  obtain heads pieces where d: "input = concat heads @ p_buf p" "list_all2 (emits cfg) heads pieces"
      "concat outs = concat pieces" using assms(1) by (auto simp: delivered_def)
  have "concat (case w of None \<Rightarrow> outs | Some x \<Rightarrow> outs @ [x]) = concat (pieces @ [out_bytes w])"
    using d(3) by (cases w) simp_all
  moreover have "list_all2 (emits cfg) (heads @ [h]) (pieces @ [out_bytes w])"
    using d(2) h(2) by (simp add: list_all2_appendI)
  ultimately show ?thesis using d(1) h unfolding delivered_def by (metis append.assoc concat_append concat.simps append_Nil2)
qed

lemma flush_timers:
  assumes "flush cfg eof p = (q, w)" "pump_ok cfg p"
    and "p_buf p = [] \<Longrightarrow> p_idle p = None"
  shows "timers_ok cfg q \<and> (eof \<longrightarrow> p_buf q = [])"
proof (cases "p_buf p = []")
  case True
  with assms show ?thesis by (simp add: flush_def timers_ok_def)
next
  case False
  with flush_spec [OF assms(1,2) False] show ?thesis by (auto simp: timers_ok_def)
qed

lemma flush_sound:
  assumes "flush cfg eof u = (q, w)" "delivered cfg input outs u" "pump_ok cfg u" "p_buf u = [] \<Longrightarrow> p_idle u = None"
  shows "delivered cfg input (case w of None \<Rightarrow> outs | Some x \<Rightarrow> outs @ [x]) q \<and> pump_ok cfg q \<and> timers_ok cfg q
    \<and> (eof \<longrightarrow> p_buf q = [])"
  using flush_delivered [OF assms(2,3,1)] flush_timers [OF assms(1,3,4)] by blast

lemma read_sound:
  assumes I: "delivered cfg input outs p" "pump_ok cfg p" and d: "d \<noteq> []" and s: "pump_step cfg p (EvRead d) True = (q, w, r)"
  shows "delivered cfg (input @ d) (case w of None \<Rightarrow> outs | Some x \<Rightarrow> outs @ [x]) q \<and> pump_ok cfg q \<and> timers_ok cfg q \<and> r = Running"
proof -
  define u where "u = append_data cfg d (detect cfg d p)"
  have u: "delivered cfg (input @ d) outs u" "pump_ok cfg u" "p_buf u \<noteq> []"
    using I append_data_ok d by (auto simp: u_def delivered_def)
  show ?thesis
  proof (cases "k_max_buffer cfg > 0 \<and> length (p_buf u) \<ge> k_max_buffer cfg")
    case True
    then have "flush cfg False u = (q, w)" "r = Running"
      using s by (auto simp: pump_step_def flush_or_fail_def u_def Let_def split: prod.splits)
    then show ?thesis using flush_sound [OF _ u(1,2)] u(3) by simp
  next
    case False
    then have "q = arm cfg u" "w = None" "r = Running" using s by (auto simp: pump_step_def u_def Let_def)
    moreover have "timers_ok cfg (arm cfg u)" using u(3) by (simp add: timers_ok_def arm_def Let_def)
    ultimately show ?thesis using u by (simp add: delivered_def pump_ok_def)
  qed
qed

lemma pump_invariant:
  "pump_run cfg input outs p r \<Longrightarrow>
   delivered cfg input outs p \<and> pump_ok cfg p \<and> timers_ok cfg p \<and> (r \<noteq> Running \<longrightarrow> p_buf p = [])"
proof (induction rule: pump_run.induct)
  case start
  have "list_all2 (emits cfg) [] []" by simp
  then show ?case
    by (auto simp: delivered_def pump_ok_def timers_ok_def new_pump_def tracks_new intro: exI [of _ "[]"])
next
  case (step input outs p ev q w r)
  then have I: "delivered cfg input outs p" "pump_ok cfg p" "timers_ok cfg p" by auto
  have idle: "p_buf p = [] \<Longrightarrow> p_idle p = None" using I(3) by (auto simp: timers_ok_def)
  have I': "delivered cfg input outs (p\<lparr>p_idle := None\<rparr>)" "pump_ok cfg (p\<lparr>p_idle := None\<rparr>)"
    "delivered cfg input outs (p\<lparr>p_max := False\<rparr>)" "pump_ok cfg (p\<lparr>p_max := False\<rparr>)"
    using I by (simp_all add: delivered_def pump_ok_def)
  show ?case
  proof (cases ev)
    case (EvRead d)
    then show ?thesis using read_sound [OF I(1,2)] step.hyps(2,3) by (simp add: enabled_def event_data_def)
  next
    case (EvErr e)
    then have "flush cfg True p = (q, w)" using step.hyps(3) by (auto simp: pump_step_def Let_def split: prod.splits)
    then show ?thesis using flush_sound [OF _ I(1,2) idle] EvErr by (simp add: event_data_def)
  next
    case EvClosed
    then have "flush cfg True p = (q, w)"
      using step.hyps(3) by (auto simp: pump_step_def flush_or_fail_def Let_def split: prod.splits)
    then show ?thesis using flush_sound [OF _ I(1,2) idle] EvClosed by (simp add: event_data_def)
  next
    case EvIdle
    then have f: "flush cfg False (p\<lparr>p_idle := None\<rparr>) = (q, w)" "r = Running"
      using step.hyps(3) by (auto simp: pump_step_def flush_or_fail_def Let_def split: prod.splits)
    then show ?thesis using flush_sound [OF f(1) I'(1,2)] EvIdle by (simp add: event_data_def)
  next
    case EvMaxHold
    then have f: "flush cfg False (p\<lparr>p_max := False\<rparr>) = (q, w)" "r = Running"
      using step.hyps(3) by (auto simp: pump_step_def flush_or_fail_def Let_def split: prod.splits)
    then show ?thesis using flush_sound [OF f(1) I'(3,4)] EvMaxHold idle by (simp add: event_data_def)
  qed
qed

lemma emits_plain: "emits cfg h o' \<Longrightarrow> \<not> k_sync_wrap cfg \<Longrightarrow> o' = h"
  by (induction rule: emits.induct) simp_all

lemma pump_delivered:
  assumes "pump_run cfg input outs p r"
  shows "\<exists>heads pieces. input = concat heads @ p_buf p \<and> list_all2 (emits cfg) heads pieces
    \<and> concat outs = concat pieces \<and> (r \<noteq> Running \<longrightarrow> p_buf p = [])"
proof -
  have "delivered cfg input outs p" "r \<noteq> Running \<longrightarrow> p_buf p = []" using pump_invariant [OF assms] by simp_all
  then show ?thesis unfolding delivered_def by blast
qed

lemma plain_relay:
  assumes "pump_run cfg input outs p r" and "\<not> k_sync_wrap cfg"
  shows "input = concat outs @ p_buf p \<and> (r \<noteq> Running \<longrightarrow> input = concat outs)"
proof -
  obtain heads pieces where d: "input = concat heads @ p_buf p" "list_all2 (emits cfg) heads pieces"
      "concat outs = concat pieces" and r: "r \<noteq> Running \<longrightarrow> p_buf p = []"
    using pump_delivered [OF assms(1)] by blast
  have "list_all2 (\<lambda>h o'. o' = h) heads pieces"
    using d(2) by (rule list_all2_mono) (use assms(2) emits_plain in blast)
  then have "pieces = heads" by (simp add: list_all2_conv_all_nth nth_equalityI)
  then show ?thesis using d(1,3) r by auto
qed

text \<open>Whatever can be read in one piece is read: no state of the running loop refuses it.\<close>

lemma reads_on:
  assumes "list_all (\<lambda>d. d \<noteq> []) ds"
  shows "\<exists>outs p. pump_run cfg (concat ds) outs p Running"
  using assms
proof (induction ds rule: rev_induct)
  case Nil
  then show ?case using pump_run.start by auto
next
  case (snoc d ds)
  then obtain outs p where r: "pump_run cfg (concat ds) outs p Running" by auto
  obtain q w where st: "pump_step cfg p (EvRead d) True = (q, w, Running)"
    by (cases "pump_step cfg p (EvRead d) True") (auto simp: pump_step_def flush_or_fail_def Let_def split_beta split: if_splits)
  show ?case using pump_run.step [OF r _ st] snoc.prems by (auto simp: enabled_def event_data_def)
qed

text \<open>C28: Without sync-wrap the relay is transparent: what has been written, followed by what is still buffered, is
  exactly what was read, in every state of the loop; when the loop ends nothing is left in the buffer.\<close>

theorem pump_lossless:
  assumes "pump_run cfg input outs p r" and "\<not> k_sync_wrap cfg"
  shows "input = concat outs @ p_buf p \<and> (r \<noteq> Running \<longrightarrow> input = concat outs)"
  by (rule plain_relay [OF assms])

definition plain_cfg :: pump_cfg where
  "plain_cfg = \<lparr>k_idle = 4, k_hold_destructive = 32, k_sync_wrap = False, k_max_hold = 50, k_max_buffer = 524288\<rparr>"

definition sync_cfg :: pump_cfg where
  "sync_cfg = plain_cfg\<lparr>k_sync_wrap := True\<rparr>"

lemma one_read:
  "pump_run cfg d [] (arm cfg (append_data cfg d (detect cfg d new_pump))) Running"
  if "d \<noteq> []" "k_max_buffer cfg > length d" for d cfg
  using pump_run.step [OF pump_run.start, of "EvRead d" cfg] that
  by (simp add: enabled_def pump_step_def event_data_def new_pump_def Let_def)

theorem pump_lossless_witness:
  "\<exists>p. pump_run plain_cfg ''ab'' [] p Running \<and> p_buf p = ''ab''"
proof -
  let ?p = "arm plain_cfg (append_data plain_cfg ''ab'' (detect plain_cfg ''ab'' new_pump))"
  have r: "pump_run plain_cfg ''ab'' [] ?p Running" by (rule one_read) (simp_all add: plain_cfg_def)
  from pump_lossless [OF r] have "p_buf ?p = ''ab''" by (simp add: plain_cfg_def)
  with r show ?thesis by blast
qed



text \<open>C36: Output is never stuck: while the loop runs with bytes in its buffer, the idle timer is armed (and with it the
  maximum-hold timer when configured), unless all that is buffered is one unfinished sequence, which only a further
  read can complete.\<close>

theorem pump_never_stuck:
  assumes "pump_run cfg input outs p Running" and "p_buf p \<noteq> []"
  shows "p_idle p \<noteq> None \<and> (k_max_hold cfg > 0 \<longrightarrow> p_max p)
    \<or> k_sync_wrap cfg \<and> split_at (p_tracker p) (int (length (p_buf p))) = 0"
  using pump_invariant [OF assms(1)] assms(2) by (auto simp: timers_ok_def split_at_def)

theorem pump_never_stuck_witness:
  "\<exists>p. pump_run plain_cfg ''ab'' [] p Running \<and> p_idle p \<noteq> None \<and> p_max p"
proof -
  let ?p = "arm plain_cfg (append_data plain_cfg ''ab'' (detect plain_cfg ''ab'' new_pump))"
  have r: "pump_run plain_cfg ''ab'' [] ?p Running" by (rule one_read) (simp_all add: plain_cfg_def)
  from pump_never_stuck [OF r] have "p_idle ?p \<noteq> None \<and> p_max ?p" by (simp add: plain_cfg_def)
  with r show ?thesis by blast
qed

end
