(* ===== verification/CcProtocol.thy ===== *)
theory CcProtocol
  imports GoStrings
begin

text \<open>
  \<open>internal/tmuxcc/protocol.go\<close>, \<open>input.go\<close>, \<open>renderer.go\<close> and the reader loop of \<open>client_unix.go\<close>: the tmux control-mode
  protocol. A line becomes a message or an error (\<open>Inl\<close>); the octal escapes of \<open>%output\<close> are decoded, the octal
  form of \<open>send-keys -l\<close> is produced.
\<close>

datatype cc_error =
    MissingData
  | TrailingBackslash
  | IncompleteOctal
  | BadOctal bytes

text \<open>Sequencing of fallible steps: \<open>if err != nil { return err }\<close>.\<close>

fun ebind :: "'e + 'a \<Rightarrow> ('a \<Rightarrow> 'e + 'b) \<Rightarrow> 'e + 'b" where
  "ebind (Inl e) f = Inl e"
| "ebind (Inr x) f = f x"

lemma ebind_Inr: "ebind m f = Inr y \<longleftrightarrow> (\<exists>x. m = Inr x \<and> f x = Inr y)"
  by (cases m) auto

section \<open>Messages\<close>

datatype cc_msg =
    OutputMsg bytes bytes
  | BeginMsg bytes bytes bytes
  | EndMsg bytes bytes bytes
  | ErrorMsg bytes bytes bytes
  | SessionChangedMsg bytes bytes
  | WindowAddMsg bytes
  | WindowCloseMsg bytes
  | WindowRenameMsg bytes bytes
  | LayoutChangeMsg bytes bytes bytes
  | ExitMsg bytes
  | ReplyLineMsg bytes
  | WindowPaneChangedMsg bytes bytes
  | SessionWindowChangedMsg bytes bytes
  | OtherMsg bytes bytes

section \<open>Octal escapes\<close>

fun decode_octal :: "bytes \<Rightarrow> cc_error + bytes" where
  "decode_octal [] = Inr []"
| "decode_octal (b # s) =
     (if b \<noteq> CHR 0x5C then map_sum id ((#) b) (decode_octal s)
      else (case s of
          [] \<Rightarrow> Inl TrailingBackslash
        | c # r \<Rightarrow>
            if c = CHR 0x5C then map_sum id ((#) (CHR 0x5C)) (decode_octal r)
            else if \<not> (48 \<le> (ord c :: nat) \<and> ord c \<le> (55 :: nat))
            then map_sum id (\<lambda>out. b # c # out) (decode_octal r)
            else (case r of
                d # e # r' \<Rightarrow>
                  (case parse_uint 8 16 [c, d, e] of
                     None \<Rightarrow> Inl (BadOctal [b, c, d, e])
                   | Some n \<Rightarrow> map_sum id ((#) (char_of n)) (decode_octal r'))
              | _ \<Rightarrow> Inl IncompleteOctal)))"

text \<open>tmux's encoding, as the comment of \<open>DecodeOctalEscapes\<close> documents it.\<close>

definition octal3 :: "byte \<Rightarrow> bytes" where
  "octal3 b = (let n = ord b :: nat in [char_of (48 + n div 64), char_of (48 + n div 8 mod 8), char_of (48 + n mod 8)])"

definition escape_byte :: "byte \<Rightarrow> bytes" where
  "escape_byte b =
     (if b = CHR 0x5C then [CHR 0x5C, CHR 0x5C]
      else if ord b < (32::nat) \<or> 127 \<le> (ord b :: nat) then CHR 0x5C # octal3 b
      else [b])"

definition tmux_escape :: "bytes \<Rightarrow> bytes" where
  "tmux_escape d = concat (map escape_byte d)"

section \<open>Lines\<close>

definition nth_or :: "bytes list \<Rightarrow> nat \<Rightarrow> bytes" where
  "nth_or f i = (if i < length f then f ! i else [])"

definition split_typ :: "bytes \<Rightarrow> bytes \<times> bytes" where
  "split_typ line = (case index_byte line (CHR '' '') of
      None \<Rightarrow> (line, [])
    | Some i \<Rightarrow> (take i line, drop (Suc i) line))"

definition parse_output :: "bytes \<Rightarrow> cc_error + cc_msg" where
  "parse_output rest = (case index_byte rest (CHR '' '') of
      None \<Rightarrow> Inl MissingData
    | Some i \<Rightarrow> map_sum id (OutputMsg (take i rest)) (decode_octal (drop (Suc i) rest)))"

definition parse_line :: "bytes \<Rightarrow> cc_error + cc_msg option" where
  "parse_line line0 =
     (let line = trim_right_set line0 [CHR 0x0D, CHR 0x0A] in
      if \<not> has_prefix line ''%'' then Inr None
      else
        let (typ, rest) = split_typ line; f = fields rest; g2 = split_n (CHR '' '') 2 rest; g3 = split_n (CHR '' '') 3 rest in
        if typ = ''%output'' then map_sum id Some (parse_output rest)
        else Inr (Some (
          if typ = ''%begin'' then BeginMsg (nth_or f 0) (nth_or f 1) (nth_or f 2)
          else if typ = ''%end'' then EndMsg (nth_or f 0) (nth_or f 1) (nth_or f 2)
          else if typ = ''%error'' then ErrorMsg (nth_or f 0) (nth_or f 1) (nth_or f 2)
          else if typ = ''%session-changed'' then SessionChangedMsg (nth_or g2 0) (nth_or g2 1)
          else if typ = ''%window-add'' then WindowAddMsg (trim_space rest)
          else if typ = ''%window-close'' then WindowCloseMsg (trim_space rest)
          else if typ = ''%window-renamed'' then WindowRenameMsg (nth_or g2 0) (nth_or g2 1)
          else if typ = ''%layout-change'' then LayoutChangeMsg (nth_or g3 0) (nth_or g3 1) (nth_or g3 2)
          else if typ = ''%window-pane-changed'' then WindowPaneChangedMsg (nth_or f 0) (nth_or f 1)
          else if typ = ''%session-window-changed'' then SessionWindowChangedMsg (nth_or f 0) (nth_or f 1)
          else if typ = ''%exit'' then ExitMsg rest
          else OtherMsg typ rest)))"

section \<open>Commands\<close>

definition encode_send_keys_literal :: "bytes \<Rightarrow> bytes \<Rightarrow> bytes" where
  "encode_send_keys_literal target d =
     ''send-keys -t '' @ target @ '' -l '' @ [CHR 0x22] @ concat (map (\<lambda>c. CHR 0x5C # octal3 c) d) @ [CHR 0x22]"

definition resize_command :: "int \<Rightarrow> int \<Rightarrow> bytes" where
  "resize_command cols rows = ''refresh-client -C '' @ show_int cols @ ''x'' @ show_int rows"

section \<open>Forwarder\<close>

record forwarder =
  fw_active :: bytes
  fw_has_out :: bool

text \<open>\<open>HandleOutput\<close> returns the state and the bytes written to the output, if any.\<close>

definition handle_output :: "forwarder \<Rightarrow> bytes \<Rightarrow> bytes \<Rightarrow> forwarder \<times> bytes option" where
  "handle_output f pane d =
     (let f = (if fw_active f = [] then f\<lparr>fw_active := pane\<rparr> else f) in
      if pane \<noteq> fw_active f \<or> \<not> fw_has_out f then (f, None) else (f, Some d))"

definition set_active :: "forwarder \<Rightarrow> bytes \<Rightarrow> forwarder" where
  "set_active f pane = f\<lparr>fw_active := pane\<rparr>"

section \<open>The reader loop\<close>

text \<open>The text of an error, as \<open>perr.Error()\<close> gives it.\<close>

definition error_text :: "cc_error \<Rightarrow> bytes" where
  "error_text e = (case e of
      MissingData \<Rightarrow> ''tmuxcc: %output missing data''
    | TrailingBackslash \<Rightarrow> ''tmuxcc: trailing backslash in escape''
    | IncompleteOctal \<Rightarrow> ''tmuxcc: incomplete octal escape''
    | BadOctal s \<Rightarrow> ''tmuxcc: bad octal escape: '' @ s)"

definition is_terminator :: "cc_msg option \<Rightarrow> bool" where
  "is_terminator m = (case m of Some (EndMsg _ _ _) \<Rightarrow> True | Some (ErrorMsg _ _ _) \<Rightarrow> True | _ \<Rightarrow> False)"

definition is_begin :: "cc_msg option \<Rightarrow> bool" where
  "is_begin m = (case m of Some (BeginMsg _ _ _) \<Rightarrow> True | _ \<Rightarrow> False)"

definition read_line :: "bool \<Rightarrow> bytes \<Rightarrow> bool \<times> cc_msg list" where
  "read_line in_reply line =
     (if line = [] then (in_reply, [])
      else (case parse_line line of
          Inl e \<Rightarrow> (in_reply, [OtherMsg ''%PARSE-ERR'' (error_text e)])
        | Inr m \<Rightarrow>
            if in_reply then
              (if is_terminator m then (False, case m of Some x \<Rightarrow> [x] | None \<Rightarrow> [])
               else (True, [ReplyLineMsg (trim_right_set line [CHR 0x0D, CHR 0x0A])]))
            else (is_begin m, case m of Some x \<Rightarrow> [x] | None \<Rightarrow> [])))"

fun read_loop :: "bool \<Rightarrow> bytes list \<Rightarrow> bool \<times> cc_msg list" where
  "read_loop r [] = (r, [])"
| "read_loop r (l # ls) =
     (let (r1, m1) = read_line r l; (r2, m2) = read_loop r1 ls in (r2, m1 @ m2))"

section \<open>Octal round trip\<close>

lemma octal_digit_val: "(d::nat) < 8 \<Longrightarrow> digit_val (char_of (48 + d)) = Some d"
  by (rule digit_val_char_of) simp

lemma ord_lt_256: "(ord b :: nat) < 256"
  using nat_of_char_less_256 [of b] by simp

lemma octal3_parse: "parse_uint 8 16 (octal3 b) = Some (ord b)"
proof -
  have lt: "(ord b :: nat) < 256" by (rule ord_lt_256)
  have d8: "ord b div 64 < (8::nat)" using less_mult_imp_div_less [of "ord b" 8 64] lt by simp
  then have v: "digit_val (char_of (48 + ord b div 64 :: nat)) = Some (ord b div 64)"
    "digit_val (char_of (48 + ord b div 8 mod 8 :: nat)) = Some (ord b div 8 mod 8)"
    "digit_val (char_of (48 + ord b mod 8 :: nat)) = Some (ord b mod 8)"
    by (simp_all only: octal_digit_val mod_less_divisor zero_less_numeral)
  have "(ord b div 64 * 8 + ord b div 8 mod 8) * 8 + ord b mod 8 = (ord b :: nat)"
    using div_mult_mod_eq [of "ord b" 8] div_mult_mod_eq [of "ord b div 8" 8] div_mult2_eq [of "ord b" 8 8] by simp
  then show ?thesis using lt d8 unfolding parse_uint_def octal3_def Let_def parse_digits.simps v
    by simp
qed

lemma octal3_cases: "\<exists>c d e. octal3 b = [c, d, e] \<and> 48 \<le> (ord c :: nat) \<and> ord c \<le> (55 :: nat) \<and> c \<noteq> CHR 0x5C"
proof -
  have lt: "(ord b :: nat) < 256" by (rule ord_lt_256)
  have "ord b div 64 < (8::nat)" using less_mult_imp_div_less [of "ord b" 8 64] lt by simp
  then have "48 + ord b div 64 < (256::nat)" "ord b div 64 < (8::nat)" by simp_all
  then have "ord (char_of (48 + ord b div 64 :: nat)) = (48 + ord b div 64 :: nat)" by simp
  moreover from this have "char_of (48 + ord b div 64 :: nat) \<noteq> CHR 0x5C"
    using \<open>ord b div 64 < (8::nat)\<close> by (auto simp del: of_char_of)
  ultimately show ?thesis using \<open>ord b div 64 < (8::nat)\<close> by (simp add: octal3_def Let_def)
qed

lemma decode_octal_octal3:
  "decode_octal (CHR 0x5C # octal3 b @ s) = map_sum id ((#) b) (decode_octal s)"
proof -
  obtain c d e where o3: "octal3 b = [c, d, e]" "48 \<le> (ord c :: nat)" "ord c \<le> (55 :: nat)" "c \<noteq> CHR 0x5C"
    using octal3_cases by blast
  then show ?thesis using octal3_parse [of b] by simp
qed

lemma map_sum_comp: "map_sum id f (map_sum id g x) = map_sum id (f \<circ> g) x"
  by (cases x) simp_all

lemma decode_escape: "decode_octal (tmux_escape d @ s) = map_sum id ((@) d) (decode_octal s)"
proof (induction d)
  case Nil
  show ?case by (cases "decode_octal s") (simp_all add: tmux_escape_def)
next
  case (Cons b d)
  have t: "tmux_escape (b # d) @ s = escape_byte b @ tmux_escape d @ s" by (simp add: tmux_escape_def)
  have "decode_octal (escape_byte b @ r) = map_sum id ((#) b) (decode_octal r)" for r
    using decode_octal_octal3 by (simp add: escape_byte_def)
  then show ?case unfolding t using Cons by (cases "decode_octal s") simp_all
qed

lemma octal3_range: "x \<in> set (octal3 b) \<Longrightarrow> 48 \<le> (ord x :: nat) \<and> ord x \<le> (55 :: nat)"
proof -
  have "ord b div 64 < (8::nat)" using less_mult_imp_div_less [of "ord b" 8 64] ord_lt_256 [of b] by simp
  moreover assume "x \<in> set (octal3 b)"
  ultimately show ?thesis by (auto simp: octal3_def Let_def)
qed

lemma tmux_escape_printable: "x \<in> set (tmux_escape d) \<Longrightarrow> 32 \<le> (ord x :: nat)"
proof -
  assume "x \<in> set (tmux_escape d)"
  then obtain b where "x \<in> set (escape_byte b)" by (auto simp: tmux_escape_def)
  then show ?thesis by (auto simp: escape_byte_def dest: octal3_range split: if_splits)
qed

lemma trim_newline:
  assumes "\<And>x. x \<in> set s \<Longrightarrow> x \<notin> {CHR 0x0D, CHR 0x0A}"
  shows "trim_right_set (s @ [CHR 0x0A]) [CHR 0x0D, CHR 0x0A] = s"
  using assms by (cases s rule: rev_cases) (simp_all add: trim_right_set_def)

text \<open>What tmux encodes, the client decodes: an \<open>%output\<close> line whose payload is encoded as the protocol documents
  (octal for control and high bytes, a doubled backslash) becomes the message with exactly the original bytes.\<close>

theorem output_roundtrip:
  assumes "CHR '' '' \<notin> set pane" and "CHR 0x0A \<notin> set pane" and "CHR 0x0D \<notin> set pane"
  shows "parse_line (''%output '' @ pane @ '' '' @ tmux_escape d @ [CHR 0x0A]) = Inr (Some (OutputMsg pane d))"
proof -
  let ?l = "''%output '' @ pane @ '' '' @ tmux_escape d"
  have tr: "trim_right_set (?l @ [CHR 0x0A]) [CHR 0x0D, CHR 0x0A] = ?l"
  proof (rule trim_newline)
    fix x assume "x \<in> set ?l"
    then show "x \<notin> {CHR 0x0D, CHR 0x0A}" using assms tmux_escape_printable [of x d] by auto
  qed
  have sp: "split_typ ?l = (''%output'', pane @ '' '' @ tmux_escape d)" by (simp add: split_typ_def)
  have "parse_output (pane @ '' '' @ tmux_escape d) = Inr (OutputMsg pane d)"
    using decode_escape [of d "[]"] assms(1) by (simp add: parse_output_def)
  with tr sp show ?thesis by (simp add: parse_line_def has_prefix_def)
qed

theorem output_roundtrip_witness:
  "parse_line (''%output '' @ ''%1'' @ '' '' @ tmux_escape [ESC, CHR 0x5C, CHR ''a''] @ [CHR 0x0A])
     = Inr (Some (OutputMsg ''%1'' [ESC, CHR 0x5C, CHR ''a'']))"
  by (rule output_roundtrip) simp_all

text \<open>Keystrokes survive the \<open>send-keys\<close> command whatever bytes they contain: the quoted argument consists of octal
  escapes only, so it contains no quote, space or newline, and decodes to the original bytes.\<close>

theorem send_keys_roundtrip:
  "\<exists>body. encode_send_keys_literal target d
      = ''send-keys -t '' @ target @ '' -l '' @ [CHR 0x22] @ body @ [CHR 0x22]
    \<and> decode_octal body = Inr d
    \<and> list_all (\<lambda>c. c = CHR 0x5C \<or> 48 \<le> (ord c :: nat) \<and> ord c \<le> (55 :: nat)) body"
proof (intro exI conjI)
  let ?body = "concat (map (\<lambda>c. CHR 0x5C # octal3 c) d)"
  show "encode_send_keys_literal target d = ''send-keys -t '' @ target @ '' -l '' @ [CHR 0x22] @ ?body @ [CHR 0x22]"
    by (simp add: encode_send_keys_literal_def)
  show "decode_octal ?body = Inr d"
    using decode_octal_octal3 by (induction d) simp_all
  show "list_all (\<lambda>c. c = CHR 0x5C \<or> 48 \<le> (ord c :: nat) \<and> ord c \<le> (55 :: nat)) ?body"
    by (auto simp: list_all_iff dest!: octal3_range)
qed

text \<open>Inside a command's reply block every line is delivered as reply text, in order, whatever it looks like, and
  the block ends with its \<open>%end\<close>/\<open>%error\<close> message, provided each line parses.\<close>

theorem reply_block:
  assumes "\<And>l. l \<in> set ls \<Longrightarrow> l \<noteq> [] \<and> (\<exists>m. parse_line l = Inr m \<and> \<not> is_terminator m)"
    and "z \<noteq> []" and "parse_line z = Inr (Some m)" and "is_terminator (Some m)"
  shows "read_loop True (ls @ [z]) = (False, map (\<lambda>l. ReplyLineMsg (trim_right_set l [CHR 0x0D, CHR 0x0A])) ls @ [m])"
  using assms(1)
proof (induction ls)
  case Nil
  then show ?case using assms(2-4) by (simp add: read_line_def)
next
  case (Cons l ls)
  then obtain m' where "l \<noteq> []" "parse_line l = Inr m'" "\<not> is_terminator m'" by auto
  then have "read_line True l = (True, [ReplyLineMsg (trim_right_set l [CHR 0x0D, CHR 0x0A])])"
    by (simp add: read_line_def)
  with Cons show ?case by simp
qed

text \<open>Witness: a reply that contains a line spelled like a notification.\<close>

lemma demo_lines:
  "parse_line ''hi'' = Inr None" "parse_line ''%window-add'' = Inr (Some (WindowAddMsg []))"
  "parse_line ''%end'' = Inr (Some (EndMsg [] [] []))" "trim_right_set ''hi'' [CHR 0x0D, CHR 0x0A] = ''hi''"
  "trim_right_set ''%window-add'' [CHR 0x0D, CHR 0x0A] = ''%window-add''"
  by (simp_all add: parse_line_def trim_right_set_def split_typ_def has_prefix_def Let_def fields.simps [of "[]"]
      trim_left.simps [of "[]"] trim_space_def trim_right_rev.simps [of "[]"] nth_or_def)

theorem reply_block_witness:
  "read_loop True ([''hi'', ''%window-add''] @ [''%end'']) = (False, [ReplyLineMsg ''hi'', ReplyLineMsg ''%window-add'', EndMsg [] [] []])"
proof -
  have ls: "l \<noteq> [] \<and> (\<exists>m. parse_line l = Inr m \<and> \<not> is_terminator m)" if "l \<in> set [''hi'', ''%window-add'']" for l
    using that by (auto simp: demo_lines is_terminator_def)
  have "read_loop True ([''hi'', ''%window-add''] @ [''%end''])
      = (False, map (\<lambda>l. ReplyLineMsg (trim_right_set l [CHR 0x0D, CHR 0x0A])) [''hi'', ''%window-add''] @ [EndMsg [] [] []])"
    by (rule reply_block [OF ls]) (simp_all add: demo_lines is_terminator_def)
  then show ?thesis using demo_lines(4,5) by simp
qed

text \<open>The proviso of the previous property is needed: a reply line that starts like a malformed \<open>%output\<close>
  notification is replaced by an error message although the block's lines are documented to be text.\<close>

theorem reply_line_lost:
  "read_line True (''%output'' @ [CHR 0x0A]) = (True, [OtherMsg ''%PARSE-ERR'' ''tmuxcc: %output missing data''])"
  by (simp add: read_line_def parse_line_def trim_right_set_def split_typ_def parse_output_def has_prefix_def
      error_text_def)

end
