(* ===== verification/CcLayout.thy ===== *)
theory CcLayout
  imports CcProtocol
begin

text \<open>
  \<open>internal/tmuxcc/layout.go\<close>: the parser of tmux's layout strings. A parse error is \<open>Inl\<close>; slices are taken
  by \<open>take\<close>/\<open>drop\<close> at the offsets the code computes, all of which lie inside the string.
\<close>

datatype layout = Layout (l_w: int) (l_h: int) (l_x: int) (l_y: int) (l_pane: bytes) (l_vertical: bool)
  (l_children: "layout list")

datatype layout_error = MissingCookie | MissingX | MissingCommaH | MissingCommaX | BadNumber bytes | Unbalanced byte

definition is_leaf :: "layout \<Rightarrow> bool" where
  "is_leaf l \<longleftrightarrow> l_children l = []"

definition atoi_e :: "bytes \<Rightarrow> layout_error + int" where
  "atoi_e s = (case atoi s of Some n \<Rightarrow> Inr n | None \<Rightarrow> Inl (BadNumber s))"

text \<open>The text before the first \<open>c\<close> and the text after it.\<close>

definition before_after :: "byte \<Rightarrow> layout_error \<Rightarrow> bytes \<Rightarrow> layout_error + (bytes \<times> bytes)" where
  "before_after c err s = (case index_byte s c of
      None \<Rightarrow> Inl err
    | Some i \<Rightarrow> Inr (take i s, drop (Suc i) s))"

fun match_bracket_from :: "byte \<Rightarrow> byte \<Rightarrow> int \<Rightarrow> nat \<Rightarrow> bytes \<Rightarrow> nat option" where
  "match_bracket_from opn cls depth i [] = None"
| "match_bracket_from opn cls depth i (c # s) =
     (if c = opn then match_bracket_from opn cls (depth + 1) (Suc i) s
      else if c = cls then
        (if depth - 1 = 0 then Some i else match_bracket_from opn cls (depth - 1) (Suc i) s)
      else match_bracket_from opn cls depth (Suc i) s)"

definition match_bracket :: "bytes \<Rightarrow> byte \<Rightarrow> byte \<Rightarrow> nat option" where
  "match_bracket s opn cls = match_bracket_from opn cls 0 0 s"

definition is_child_boundary :: "bytes \<Rightarrow> bool" where
  "is_child_boundary s \<longleftrightarrow> takeWhile is_digit s \<noteq> []
     \<and> (case dropWhile is_digit s of [] \<Rightarrow> False | c # _ \<Rightarrow> c = CHR ''x'')"

text \<open>The scan of \<open>parseChildren\<close>: \<open>cur\<close> is \<open>s[start:i]\<close>; the segments are the substrings handed to \<open>parseNode\<close>.\<close>

fun split_children :: "int \<Rightarrow> bytes \<Rightarrow> bytes \<Rightarrow> bytes list" where
  "split_children depth cur [] = (if cur = [] then [] else [cur])"
| "split_children depth cur (c # s) =
     (if c = CHR 0x7B \<or> c = CHR ''['' then split_children (depth + 1) (cur @ [c]) s
      else if c = CHR 0x7D \<or> c = CHR '']'' then split_children (depth - 1) (cur @ [c]) s
      else if c = CHR '','' \<and> depth = 0 \<and> is_child_boundary s then cur # split_children depth [] s
      else split_children depth (cur @ [c]) s)"

lemma split_children_length: "p \<in> set (split_children d cur s) \<Longrightarrow> length p \<le> length cur + length s"
proof (induction s arbitrary: d cur)
  case (Cons c s)
  have "p \<in> set (split_children e (cur @ [c]) s) \<Longrightarrow> ?case" for e using Cons.IH [of e "cur @ [c]"] by simp
  moreover have "p \<in> set (split_children e [] s) \<Longrightarrow> ?case" for e using Cons.IH [of e "[]"] by simp
  moreover have "p = cur \<or> (\<exists>e. p \<in> set (split_children e (cur @ [c]) s)) \<or> (\<exists>e. p \<in> set (split_children e [] s))"
    using Cons.prems by (simp split: if_splits) blast+
  ultimately show ?case by auto
qed (simp split: if_splits)

text \<open>Parse the segments left to right; the first error ends the parse.\<close>

fun traverse :: "('a \<Rightarrow> 'e + 'b) \<Rightarrow> 'a list \<Rightarrow> 'e + 'b list" where
  "traverse f [] = Inr []"
| "traverse f (x # xs) = ebind (f x) (\<lambda>y. ebind (traverse f xs) (\<lambda>ys. Inr (y # ys)))"

lemma traverse_cong [fundef_cong]:
  "xs = ys \<Longrightarrow> (\<And>x. x \<in> set ys \<Longrightarrow> f x = g x) \<Longrightarrow> traverse f xs = traverse g ys"
  by (induction xs arbitrary: ys) auto

text \<open>The part of a node up to and including its \<open>Y\<close>, and the text from \<open>yEnd\<close> on.\<close>

definition parse_head :: "bytes \<Rightarrow> layout_error + (int \<times> int \<times> int \<times> int \<times> bytes)" where
  "parse_head s =
     ebind (before_after (CHR ''x'') MissingX s) (\<lambda>(ws, s).
     ebind (atoi_e ws) (\<lambda>w.
     ebind (before_after (CHR '','') MissingCommaH s) (\<lambda>(hs, s).
     ebind (atoi_e hs) (\<lambda>h.
     ebind (before_after (CHR '','') MissingCommaX s) (\<lambda>(xs, s).
     ebind (atoi_e xs) (\<lambda>x.
       let stop = (\<lambda>c. c = CHR '','' \<or> c = CHR 0x7B \<or> c = CHR ''['') in
     ebind (atoi_e (takeWhile (\<lambda>c. \<not> stop c) s)) (\<lambda>y.
     Inr (w, h, x, y, dropWhile (\<lambda>c. \<not> stop c) s))))))))"

text \<open>The text between the bracket that starts \<open>r\<close> and its match.\<close>

definition bracket_body :: "bytes \<Rightarrow> byte \<Rightarrow> byte \<Rightarrow> layout_error + bytes" where
  "bracket_body r opn cls = (case match_bracket r opn cls of
      None \<Rightarrow> Inl (Unbalanced opn)
    | Some k \<Rightarrow> Inr (take (k - 1) (drop 1 r)))"

lemma before_after_length: "before_after c e s = Inr (a, b) \<Longrightarrow> length b \<le> length s"
  by (auto simp: before_after_def split: option.splits)

lemma parse_head_rest:
  assumes "parse_head s = Inr (w, h, x, y, r)"
  shows "length r \<le> length s"
proof -
  from assms obtain a b c d e f where
    "before_after (CHR ''x'') MissingX s = Inr (a, b)" "before_after (CHR '','') MissingCommaH b = Inr (c, d)"
    "before_after (CHR '','') MissingCommaX d = Inr (e, f)"
    "r = dropWhile (\<lambda>c. \<not> (c = CHR '','' \<or> c = CHR 0x7B \<or> c = CHR ''['')) f"
    unfolding parse_head_def Let_def ebind_Inr by (auto simp: ebind_Inr)
  then show ?thesis
    using before_after_length length_dropWhile_le [of "\<lambda>c. \<not> (c = CHR '','' \<or> c = CHR 0x7B \<or> c = CHR ''['')" f]
    by (metis le_trans)
qed

lemma bracket_body_length: "bracket_body r o' c = Inr b \<Longrightarrow> r \<noteq> [] \<Longrightarrow> length b < length r"
  by (cases r) (auto simp: bracket_body_def split: option.splits)

function parse_node :: "bytes \<Rightarrow> layout_error + layout" where
  "parse_node s =
     (case parse_head s of
        Inl e \<Rightarrow> Inl e
      | Inr (w, h, x, y, r) \<Rightarrow>
          (case r of
             [] \<Rightarrow> Inr (Layout w h x y [] False [])
           | c # ids \<Rightarrow>
               if c = CHR '','' then Inr (Layout w h x y (CHR ''%'' # takeWhile is_digit ids) False [])
               else
                 let cls = (if c = CHR 0x7B then CHR 0x7D else CHR '']'') in
                 (case bracket_body r c cls of
                    Inl e \<Rightarrow> Inl e
                  | Inr body \<Rightarrow>
                      ebind (traverse parse_node (split_children 0 [] body)) (\<lambda>cs.
                      Inr (Layout w h x y [] (c = CHR ''['') cs)))))"
  by pat_completeness auto
termination
proof (relation "measure length", goal_cases)
  case (2 s p w q h q' x q'' y r c ids cls body seg)
  have p: "parse_head s = Inr (w, h, x, y, r)" using 2(1-5) by simp
  have "length seg \<le> length body" using split_children_length [OF 2(10)] by simp
  moreover have "length body < length r" using bracket_body_length [OF 2(9)] 2(6) by simp
  moreover have "length r \<le> length s" using parse_head_rest [OF p] .
  ultimately show ?case by simp
qed simp

declare parse_node.simps [simp del]

definition parse_children :: "bytes \<Rightarrow> layout_error + layout list" where
  "parse_children s = traverse parse_node (split_children 0 [] s)"

definition parse_layout :: "bytes \<Rightarrow> layout_error + layout" where
  "parse_layout s = (if length s < 5 \<or> s ! 4 \<noteq> CHR '','' then Inl MissingCookie else parse_node (drop 5 s))"

fun leaf_panes :: "layout \<Rightarrow> bytes list" where
  "leaf_panes (Layout w h x y pane vert cs) =
     (if cs = [] then (if pane \<noteq> [] then [pane] else []) else concat (map leaf_panes cs))"

section \<open>Printing\<close>

text \<open>tmux's layout dump: \<open>WxH,X,Y,id\<close> for a pane, \<open>WxH,X,Y{..,..}\<close> and \<open>WxH,X,Y[..,..]\<close> for a split.\<close>

fun print_layout :: "layout \<Rightarrow> bytes" where
  "print_layout (Layout w h x y pane vert cs) =
     show_nat (nat w) @ ''x'' @ show_nat (nat h) @ '','' @ show_nat (nat x) @ '','' @ show_nat (nat y) @
     (if cs = [] then CHR '','' # drop 1 pane
      else [if vert then CHR ''['' else CHR 0x7B] @ join '','' (map print_layout cs) @
           [if vert then CHR '']'' else CHR 0x7D])"

fun layout_ok :: "layout \<Rightarrow> bool" where
  "layout_ok (Layout w h x y pane vert cs) \<longleftrightarrow>
     0 \<le> w \<and> w < 2 ^ 63 \<and> 0 \<le> h \<and> h < 2 ^ 63 \<and> 0 \<le> x \<and> x < 2 ^ 63 \<and> 0 \<le> y \<and> y < 2 ^ 63
     \<and> (if cs = [] then \<not> vert \<and> pane \<noteq> [] \<and> hd pane = CHR ''%'' \<and> tl pane \<noteq> [] \<and> list_all is_digit (tl pane)
        else pane = [] \<and> list_all layout_ok cs)"

section \<open>Bracket structure of a printed layout\<close>

text \<open>A weight of the bytes, the running level along a text, and texts that never go below their start and end there.\<close>

fun stays :: "(byte \<Rightarrow> int) \<Rightarrow> int \<Rightarrow> bytes \<Rightarrow> bool" where
  "stays w d [] = (0 \<le> d)"
| "stays w d (c # s) = (0 \<le> d \<and> stays w (d + w c) s)"

definition bal :: "(byte \<Rightarrow> int) \<Rightarrow> bytes \<Rightarrow> bool" where
  "bal w s \<longleftrightarrow> stays w 0 s \<and> sum_list (map w s) = 0"

lemma stays_mono: "stays w d s \<Longrightarrow> d \<le> e \<Longrightarrow> stays w e s"
  by (induction s arbitrary: d e) force+

lemma stays_append: "stays w d (a @ b) \<longleftrightarrow> stays w d a \<and> stays w (d + sum_list (map w a)) b"
  by (induction a arbitrary: d) (auto simp: add.assoc, cases b, auto)

lemma bal_Nil [simp]: "bal w []"
  by (simp add: bal_def)

lemma bal_append: "bal w a \<Longrightarrow> bal w b \<Longrightarrow> bal w (a @ b)"
  by (simp add: bal_def stays_append)

lemma bal_neutral: "(\<And>c. c \<in> set s \<Longrightarrow> w c = 0) \<Longrightarrow> bal w s"
proof -
  assume n: "\<And>c. c \<in> set s \<Longrightarrow> w c = 0"
  then have "stays w 0 s" by (induction s) auto
  moreover have "sum_list (map w s) = 0" using n by (induction s) auto
  ultimately show ?thesis by (simp add: bal_def)
qed

lemma bal_wrap: "bal w s \<Longrightarrow> 0 \<le> w a \<Longrightarrow> w a + w b = 0 \<Longrightarrow> bal w (a # s @ [b])"
  by (auto simp: bal_def stays_append intro: stays_mono)

lemma bal_join: "(\<And>p. p \<in> set ps \<Longrightarrow> bal w p) \<Longrightarrow> w (CHR '','') = 0 \<Longrightarrow> bal w (join '','' ps)"
proof (induction ps)
  case (Cons p ps)
  then show ?case
    using bal_append [of w "'',''" "join '','' ps"] bal_neutral [of "'',''" w]
    by (cases ps) (auto simp: join_Cons intro!: bal_append)
qed simp

text \<open>Weights that see both, or one, of the bracket kinds.\<close>

definition bracket_weight :: "(byte \<Rightarrow> int) \<Rightarrow> bool" where
  "bracket_weight w \<longleftrightarrow> (\<forall>c. is_digit c \<or> c \<in> set ''x,'' \<longrightarrow> w c = 0)
     \<and> 0 \<le> w (CHR 0x7B) \<and> w (CHR 0x7B) + w (CHR 0x7D) = 0 \<and> 0 \<le> w (CHR ''['') \<and> w (CHR ''['') + w (CHR '']'') = 0"

lemma show_nat_all: "list_all is_digit (show_nat n)"
  using show_nat_digits by (auto simp: list_all_iff)

lemma bal_print: "layout_ok l \<Longrightarrow> bracket_weight w \<Longrightarrow> bal w (print_layout l)"
proof (induction l)
  case (Layout wd h x y pane vert cs)
  have n: "bal w s" if "list_all (\<lambda>c. is_digit c \<or> c \<in> set ''x,'') s" for s
    using that Layout.prems(2) by (intro bal_neutral) (auto simp: list_all_iff bracket_weight_def)
  have d: "list_all (\<lambda>c. is_digit c \<or> c \<in> set ''x,'') (show_nat k)" for k
    using show_nat_digits by (auto simp: list_all_iff)
  have hd: "bal w (show_nat (nat wd) @ ''x'' @ show_nat (nat h) @ '','' @ show_nat (nat x) @ '','' @ show_nat (nat y))"
    by (rule n) (use d in simp)
  show ?case
  proof (cases "cs = []")
    case True
    then have "bal w (CHR '','' # drop 1 pane)"
      using Layout.prems(1) by (intro n) (auto simp: list_all_iff drop_Suc)
    then show ?thesis using bal_append [OF hd] True by simp
  next
    case False
    have "bal w (join '','' (map print_layout cs))"
      using Layout False by (intro bal_join) (auto simp: bracket_weight_def list_all_iff)
    then have "bal w ((if vert then CHR ''['' else CHR 0x7B) # join '','' (map print_layout cs)
        @ [if vert then CHR '']'' else CHR 0x7D])"
      by (rule bal_wrap) (use Layout.prems(2) in \<open>simp_all add: bracket_weight_def\<close>)
    then show ?thesis using bal_append [OF hd] False by simp
  qed
qed

text \<open>The matching bracket of a printed split is its last character.\<close>

definition kind_weight :: "byte \<Rightarrow> byte \<Rightarrow> byte \<Rightarrow> int" where
  "kind_weight a b c = (if c = a then 1 else if c = b then -1 else 0)"

lemma match_from_bal:
  "a \<noteq> b \<Longrightarrow> 0 \<le> d \<Longrightarrow> stays (kind_weight a b) d s \<Longrightarrow>
   match_bracket_from a b (d + 1) i (s @ [b]) =
     (if d + sum_list (map (kind_weight a b) s) = 0 then Some (i + length s) else None)"
proof (induction s arbitrary: d i)
  case (Cons c s)
  have st: "stays (kind_weight a b) (d + kind_weight a b c) s" using Cons.prems by simp
  then have "0 \<le> d + kind_weight a b c" by (cases s) auto
  from Cons.IH [OF Cons.prems(1) this st] show ?case
    using Cons.prems(1) \<open>0 \<le> d + kind_weight a b c\<close> by (auto simp: kind_weight_def algebra_simps split: if_splits)
qed simp

lemma bracket_body_bal:
  assumes "a \<noteq> b" "bal (kind_weight a b) s"
  shows "bracket_body (a # s @ [b]) a b = Inr s"
proof -
  have "match_bracket (a # s @ [b]) a b = Some (Suc (length s))"
    using match_from_bal [of a b 0 s "Suc 0"] assms by (simp add: match_bracket_def bal_def)
  then show ?thesis by (simp add: bracket_body_def)
qed

text \<open>Below a bracket no comma separates children.\<close>

definition any_weight :: "byte \<Rightarrow> int" where
  "any_weight c = (if c = CHR 0x7B \<or> c = CHR ''['' then 1 else if c = CHR 0x7D \<or> c = CHR '']'' then -1 else 0)"

lemma split_children_deep:
  "0 \<le> d \<Longrightarrow> stays any_weight d s \<Longrightarrow>
   split_children (d + 1) cur (s @ r) = split_children (d + 1 + sum_list (map any_weight s)) (cur @ s) r"
proof (induction s arbitrary: d cur)
  case (Cons c s)
  have st: "stays any_weight (d + any_weight c) s" using Cons.prems by simp
  then have "0 \<le> d + any_weight c" by (cases s) auto
  from Cons.IH [OF this st, of "cur @ [c]"] show ?case
    using Cons.prems(1) \<open>0 \<le> d + any_weight c\<close> by (auto simp: any_weight_def algebra_simps)
qed simp

section \<open>Splitting the children of a printed split\<close>

lemma split_skip:
  "list_all (\<lambda>c. is_digit c \<or> c = CHR ''x'') s \<Longrightarrow> split_children d cur (s @ r) = split_children d (cur @ s) r"
  by (induction s arbitrary: cur) (auto simp: is_digit_def)

lemma split_comma: "\<not> is_child_boundary s \<Longrightarrow>
    split_children d cur (CHR '','' # s) = split_children d (cur @ '','') s"
  by simp

lemma take_drop_digits:
  assumes "list_all is_digit ds" "r = [] \<or> \<not> is_digit (hd r)"
  shows "takeWhile is_digit (ds @ r) = ds" "dropWhile is_digit (ds @ r) = r"
proof -
  have "takeWhile is_digit r = []" "dropWhile is_digit r = r" using assms(2) by (cases r; simp)+
  moreover have "\<forall>c\<in>set ds. is_digit c" using assms(1) by (simp add: list_all_iff)
  ultimately show "takeWhile is_digit (ds @ r) = ds" "dropWhile is_digit (ds @ r) = r"
    by (simp_all add: takeWhile_append2 dropWhile_append2)
qed

lemma boundary_digits:
  "list_all is_digit ds \<Longrightarrow> r = [] \<or> \<not> is_digit (hd r) \<Longrightarrow> ds \<noteq> [] \<Longrightarrow>
   is_child_boundary (ds @ r) \<longleftrightarrow> r \<noteq> [] \<and> hd r = CHR ''x''"
  using take_drop_digits [of ds r] by (auto simp: is_child_boundary_def split: list.splits)

lemma show_nat_split: "split_children d cur (show_nat n @ r) = split_children d (cur @ show_nat n) r"
  using show_nat_all by (intro split_skip) (auto simp: list_all_iff)

lemma show_nat_boundary: "r = [] \<or> \<not> is_digit (hd r) \<Longrightarrow>
    is_child_boundary (show_nat n @ r) \<longleftrightarrow> r \<noteq> [] \<and> hd r = CHR ''x''"
  using show_nat_all by (intro boundary_digits) auto

lemma any_weight_ok: "bracket_weight any_weight"
  by (auto simp: bracket_weight_def any_weight_def is_digit_def)

lemma kind_weight_ok: "bracket_weight (kind_weight (CHR 0x7B) (CHR 0x7D))" "bracket_weight (kind_weight (CHR ''['') (CHR '']''))"
  by (auto simp: bracket_weight_def kind_weight_def is_digit_def)

lemma bal_children: "list_all layout_ok cs \<Longrightarrow> bracket_weight w \<Longrightarrow> bal w (join '','' (map print_layout cs))"
proof (rule bal_join)
  fix p
  assume "list_all layout_ok cs" "bracket_weight w" "p \<in> set (map print_layout cs)"
  then show "bal w p" using bal_print by (auto simp: list_all_iff)
qed (simp add: bracket_weight_def)

text \<open>A text the scan passes over without cutting, given what follows it.\<close>

definition passes :: "bytes \<Rightarrow> bytes \<Rightarrow> bool" where
  "passes p r \<longleftrightarrow> (\<forall>cur. split_children 0 cur (p @ r) = split_children 0 (cur @ p) r)"

lemma passes_append: "passes a (b @ r) \<Longrightarrow> passes b r \<Longrightarrow> passes (a @ b) r"
  by (simp add: passes_def)

lemma passes_show: "passes (show_nat n) r" "passes ''x'' r"
  by (simp_all add: passes_def show_nat_split)

lemma passes_field:
  assumes "list_all is_digit ds" "ds \<noteq> []" "r = [] \<or> \<not> is_digit (hd r) \<and> hd r \<noteq> CHR ''x''"
  shows "passes (CHR '','' # ds) r"
proof -
  have "\<not> is_child_boundary (ds @ r)" using boundary_digits [OF assms(1) _ assms(2), of r] assms(3) by auto
  then have "split_children 0 cur (CHR '','' # ds @ r) = split_children 0 (cur @ '','') (ds @ r)" for cur
    by (rule split_comma)
  moreover have "split_children 0 (cur @ '','') (ds @ r) = split_children 0 ((cur @ '','') @ ds) r" for cur
    using assms(1) by (intro split_skip) (auto simp: list_all_iff)
  ultimately show ?thesis by (simp add: passes_def del: split_children.simps)
qed

lemma passes_bracket:
  assumes "bal any_weight s"
  shows "passes ([if v then CHR ''['' else CHR 0x7B] @ s @ [if v then CHR '']'' else CHR 0x7D]) r"
  using split_children_deep [of 0 s] assms by (simp add: passes_def bal_def)

lemma passes_node:
  assumes "layout_ok l" "r = [] \<or> hd r = CHR '',''"
  shows "passes (print_layout l) r"
proof (cases l)
  case (Layout w h x y pane vert cs)
  define t where "t = (if cs = [] then CHR '','' # drop 1 pane
      else [if vert then CHR ''['' else CHR 0x7B] @ join '','' (map print_layout cs) @
           [if vert then CHR '']'' else CHR 0x7D])"
  have sh: "list_all is_digit (show_nat n)" for n by (rule show_nat_all)
  have t: "passes t r"
  proof (cases "cs = []")
    case True
    then show ?thesis using assms Layout
      by (auto simp: t_def drop_Suc is_digit_def intro!: passes_field)
  next
    case False
    have "bal any_weight (join '','' (map print_layout cs))"
      using assms(1) False Layout by (intro bal_children any_weight_ok) simp
    from passes_bracket [OF this, of vert r] show ?thesis using False by (simp add: t_def)
  qed
  have ht: "t @ r \<noteq> [] \<and> \<not> is_digit (hd (t @ r)) \<and> hd (t @ r) \<noteq> CHR ''x''"
    by (simp add: t_def is_digit_def)
  have "passes (CHR '','' # show_nat (nat y)) (t @ r)" using ht sh by (intro passes_field) auto
  then have yt: "passes ((CHR '','' # show_nat (nat y)) @ t) r" using t by (rule passes_append)
  have "passes (CHR '','' # show_nat (nat x)) (((CHR '','' # show_nat (nat y)) @ t) @ r)"
    using sh by (intro passes_field) (auto simp: is_digit_def)
  then have "passes ((CHR '','' # show_nat (nat x)) @ (CHR '','' # show_nat (nat y)) @ t) r"
    using yt by (rule passes_append)
  then have "passes (show_nat (nat w) @ ''x'' @ show_nat (nat h) @
      (CHR '','' # show_nat (nat x)) @ (CHR '','' # show_nat (nat y)) @ t) r"
    by (rule passes_append [OF passes_show(1) passes_append [OF passes_show(2) passes_append [OF passes_show(1)]]])
  then show ?thesis by (simp add: Layout t_def)
qed

lemma boundary_node: "layout_ok l \<Longrightarrow> is_child_boundary (print_layout l @ r)"
  by (cases l) (simp add: show_nat_boundary is_digit_def)

lemma print_not_Nil: "print_layout l \<noteq> []"
  by (cases l) simp

lemma split_printed:
  "list_all layout_ok cs \<Longrightarrow> split_children 0 [] (join '','' (map print_layout cs)) = map print_layout cs"
proof (induction cs)
  case (Cons l cs)
  show ?case
  proof (cases "cs = []")
    case True
    then show ?thesis using passes_node [of l "[]"] Cons.prems print_not_Nil [of l]
      by (simp add: passes_def)
  next
    case False
    let ?j = "join '','' (map print_layout cs)"
    obtain m ms where cs: "cs = m # ms" using False by (cases cs) auto
    have "\<exists>r. ?j = print_layout m @ r" by (cases ms) (auto simp: cs)
    then have b: "is_child_boundary ?j" using boundary_node [of m] Cons.prems cs by auto
    have "split_children 0 [] (print_layout l @ CHR '','' # ?j) = split_children 0 (print_layout l) (CHR '','' # ?j)"
      using passes_node [of l "CHR '','' # ?j"] Cons.prems by (simp add: passes_def del: split_children.simps)
    then show ?thesis using Cons b False by (simp add: join_Cons)
  qed
qed simp

section \<open>The round trip\<close>

lemma atoi_show: "0 \<le> n \<Longrightarrow> n < 2 ^ 63 \<Longrightarrow> atoi_e (show_nat (nat n)) = Inr n"
proof -
  assume "0 \<le> n" "n < 2 ^ 63"
  then have "nat n < 2 ^ 63" by (simp add: nat_less_iff)
  with \<open>0 \<le> n\<close> show ?thesis using atoi_show_nat [of "nat n"] by (simp add: atoi_e_def)
qed

lemma before_after_show: "\<not> is_digit c \<Longrightarrow> before_after c e (show_nat n @ c # r) = Inr (show_nat n, r)"
proof -
  assume "\<not> is_digit c"
  then have "c \<notin> set (show_nat n)" using show_nat_digits by blast
  then show ?thesis by (simp add: before_after_def)
qed

lemma parse_head_print:
  assumes "0 \<le> w" "w < 2 ^ 63" "0 \<le> h" "h < 2 ^ 63" "0 \<le> x" "x < 2 ^ 63" "0 \<le> y" "y < 2 ^ 63"
    and "r = [] \<or> hd r \<in> {CHR '','', CHR 0x7B, CHR ''[''}"
  shows "parse_head (show_nat (nat w) @ ''x'' @ show_nat (nat h) @ '','' @ show_nat (nat x) @ '','' @ show_nat (nat y) @ r)
    = Inr (w, h, x, y, r)"
proof -
  have "takeWhile (\<lambda>c. c \<noteq> CHR '','' \<and> c \<noteq> CHR 0x7B \<and> c \<noteq> CHR ''['') (show_nat n @ r) = show_nat n"
    "dropWhile (\<lambda>c. c \<noteq> CHR '','' \<and> c \<noteq> CHR 0x7B \<and> c \<noteq> CHR ''['') (show_nat n @ r) = r" for n
  proof -
    have d: "c \<in> set (show_nat n) \<Longrightarrow> c \<noteq> CHR '','' \<and> c \<noteq> CHR 0x7B \<and> c \<noteq> CHR ''[''" for c
      using show_nat_digits [of c n] by (auto simp: is_digit_def)
    show "takeWhile (\<lambda>c. c \<noteq> CHR '','' \<and> c \<noteq> CHR 0x7B \<and> c \<noteq> CHR ''['') (show_nat n @ r) = show_nat n"
      "dropWhile (\<lambda>c. c \<noteq> CHR '','' \<and> c \<noteq> CHR 0x7B \<and> c \<noteq> CHR ''['') (show_nat n @ r) = r"
      using assms(9) d by (cases r; auto simp: takeWhile_append dropWhile_append3)+
  qed
  then show ?thesis
    using assms by (simp add: parse_head_def before_after_show atoi_show is_digit_def)
qed

lemma traverse_inverse: "(\<And>x. x \<in> set xs \<Longrightarrow> f (g x) = Inr x) \<Longrightarrow> traverse f (map g xs) = Inr xs"
  by (induction xs) auto

lemma parse_print: "layout_ok l \<Longrightarrow> parse_node (print_layout l) = Inr l"
proof (induction l)
  case (Layout w h x y pane vert cs)
  define t where "t = (if cs = [] then CHR '','' # drop 1 pane
      else [if vert then CHR ''['' else CHR 0x7B] @ join '','' (map print_layout cs) @
           [if vert then CHR '']'' else CHR 0x7D])"
  have hd: "parse_head (print_layout (Layout w h x y pane vert cs)) = Inr (w, h, x, y, t)"
    using parse_head_print [of w h x y t] Layout.prems by (simp add: t_def)
  show ?case
  proof (cases "cs = []")
    case True
    then obtain ds where p: "pane = CHR ''%'' # ds" "list_all is_digit ds" "\<not> vert"
      using Layout.prems by (cases pane) auto
    have "takeWhile is_digit ds = ds" using take_drop_digits(1) [OF p(2), of "[]"] by simp
    then show ?thesis using hd True p by (subst parse_node.simps) (simp add: t_def)
  next
    case False
    let ?in = "join '','' (map print_layout cs)"
    have ok: "list_all layout_ok cs" "pane = []" using Layout.prems False by simp_all
    have bb: "bracket_body t (if vert then CHR ''['' else CHR 0x7B) (if vert then CHR '']'' else CHR 0x7D) = Inr ?in"
      using bracket_body_bal [OF _ bal_children [OF ok(1) kind_weight_ok(1)]]
        bracket_body_bal [OF _ bal_children [OF ok(1) kind_weight_ok(2)]] False by (simp add: t_def)
    have tr: "traverse parse_node (split_children 0 [] ?in) = Inr cs"
      unfolding split_printed [OF ok(1)]
      by (rule traverse_inverse) (use Layout.IH ok(1) in \<open>auto simp: list_all_iff\<close>)
    have "t = (if vert then CHR ''['' else CHR 0x7B) # ?in @ [if vert then CHR '']'' else CHR 0x7D]"
      using False by (simp add: t_def)
    then show ?thesis using hd bb tr ok(2)
      by (subst parse_node.simps) (cases vert; simp)
  qed
qed

text \<open>C39: Every layout tmux can describe is parsed back: printing a pane tree with non-negative sizes and numeric pane
  ids in tmux's dump format, behind any four-character checksum, and parsing it returns the same tree, at any nesting of
  horizontal and vertical splits.\<close>

theorem layout_roundtrip:
  assumes "layout_ok l" and "length cookie = 4"
  shows "parse_layout (cookie @ '','' @ print_layout l) = Inr l"
  using parse_print [OF assms(1)] assms(2) print_not_Nil [of l]
  by (cases "print_layout l") (simp_all add: parse_layout_def nth_append)

theorem layout_roundtrip_witness:
  "parse_layout (''bb62'' @ '','' @ print_layout (Layout 100 30 0 0 [] False
      [Layout 50 30 0 0 ''%0'' False [], Layout 49 30 51 0 [] True [Layout 49 15 51 0 ''%1'' False [], Layout 49 14 51 16 ''%2'' False []]]))
   = Inr (Layout 100 30 0 0 [] False
      [Layout 50 30 0 0 ''%0'' False [], Layout 49 30 51 0 [] True [Layout 49 15 51 0 ''%1'' False [], Layout 49 14 51 16 ''%2'' False []]])"
  by (rule layout_roundtrip) (simp_all add: is_digit_def)

text \<open>The comments of \<open>protocol.go\<close> and \<open>layout.go\<close> give \<open>f30x100,0,0,0\<close> as a layout string; the parser rejects it,
  because it expects a separate four-character checksum.\<close>

theorem documented_layout_rejected: "parse_layout ''f30x100,0,0,0'' = Inl MissingCookie"
  by (simp add: parse_layout_def)

end
