(* ===== verification/AtomicFile.thy ===== *)
theory AtomicFile
  imports Prelude
begin

text \<open>
  Files that other processes read while they are written: every writer puts the new version into a temporary file and
  renames it. The calls a writer makes are a list of operations on a map from paths to contents; a process can be killed
  after any of them and in the middle of a write. The contract of such writers is the locale \<open>atomic_writer\<close>; the snapshot
  files of the proxies, their status files, the monitor's status file and the snapshot of the remote windows are its
  instances, each in the theory of its component.
\<close>

type_synonym files = "bytes \<Rightarrow> bytes option"

datatype file_op = WriteOp bytes bytes | RenameOp bytes bytes

fun do_op :: "file_op \<Rightarrow> files \<Rightarrow> files" where
  "do_op (WriteOp p c) fs = fs(p \<mapsto> c)"
| "do_op (RenameOp a b) fs = (fs(a := None))(b := fs a)"

text \<open>A process killed after \<open>k\<close> calls, in the middle of the next: of a file being written the first \<open>n\<close> bytes are there.\<close>

definition killed_at :: "nat \<Rightarrow> nat \<Rightarrow> file_op list \<Rightarrow> files \<Rightarrow> files" where
  "killed_at k n ops fs =
     (let fs = fold do_op (take k ops) fs in
      case drop k ops of WriteOp p c # _ \<Rightarrow> fs(p \<mapsto> take n c) | _ \<Rightarrow> fs)"

text \<open>
  What the calls of one write do: whether the directory is there, how many bytes were written when \<open>os.WriteFile\<close> failed,
  and whether the rename succeeds.
\<close>

record write_env =
  we_mkdir :: bool
  we_failed :: "nat option"
  we_rename :: bool

definition tmp_name :: "bytes \<Rightarrow> bytes" where
  "tmp_name path = path @ ''.tmp''"

definition write_and_rename :: "write_env \<Rightarrow> bytes \<Rightarrow> bytes \<Rightarrow> file_op list" where
  "write_and_rename w path b = (case we_failed w of
      Some n \<Rightarrow> [WriteOp (tmp_name path) (take n b)]
    | None \<Rightarrow> WriteOp (tmp_name path) b # (if we_rename w then [RenameOp (tmp_name path) path] else []))"

text \<open>A file that is published again and again.\<close>

definition publish :: "(write_env \<Rightarrow> bytes \<Rightarrow> bytes \<Rightarrow> file_op list) \<Rightarrow> bytes \<Rightarrow> (write_env \<times> bytes) list \<Rightarrow> file_op list" where
  "publish ops path ws = concat (map (\<lambda>(w, b). ops w path b) ws)"

lemma tmp_name_other [simp]: "tmp_name path \<noteq> path" "path \<noteq> tmp_name path"
  by (simp_all add: tmp_name_def)

lemma killed_at_append:
  "killed_at k n (xs @ ys) fs =
     (if k < length xs then killed_at k n xs fs else killed_at (k - length xs) n ys (fold do_op xs fs))"
  by (cases "drop k xs") (auto simp: killed_at_def Let_def fold_append not_less split: list.split file_op.split)

lemma killed_at_Nil [simp]: "killed_at k n [] fs = fs"
  by (simp add: killed_at_def)

section \<open>The contract\<close>

text \<open>A writer leaves the published file alone or, by its last call, replaces it; no other file but the temporary one changes.\<close>

locale atomic_writer =
  fixes ops :: "write_env \<Rightarrow> bytes \<Rightarrow> bytes \<Rightarrow> file_op list"
  assumes shape: "ops w path b \<in> {[], write_and_rename w path b}"
begin

lemma one_write: "fold do_op (ops w path b) fs path \<in> {fs path, Some b}"
  using shape [of w path b] by (auto simp: write_and_rename_def split: option.split)

lemma one_write_cut: "killed_at k n (ops w path b) fs path \<in> {fs path, Some b}"
proof -
  have "killed_at k n (write_and_rename w path b) fs path \<in> {fs path, Some b}"
  proof (cases k)
    case 0
    then show ?thesis by (simp add: killed_at_def write_and_rename_def split: option.split)
  next
    case (Suc m)
    then show ?thesis by (cases m) (simp_all add: killed_at_def write_and_rename_def split: option.split)
  qed
  then show ?thesis using shape [of w path b] by auto
qed

lemma others_kept:
  "q \<noteq> path \<Longrightarrow> q \<noteq> tmp_name path \<Longrightarrow> fold do_op (ops w path b) fs q = fs q"
  using shape [of w path b] by (auto simp: write_and_rename_def split: option.split)

text \<open>However often a file is published and whenever the writer is killed, a reader finds one of the versions, whole.\<close>

lemma always_whole: "killed_at k n (publish ops path ws) fs path \<in> insert (fs path) (Some ` snd ` set ws)"
proof (induction ws arbitrary: k fs)
  case (Cons wb ws)
  obtain w b where wb: "wb = (w, b)" by (cases wb)
  have c: "publish ops path ((w, b) # ws) = ops w path b @ publish ops path ws" by (simp add: publish_def)
  show ?case
  proof (cases "k < length (ops w path b)")
    case True
    then show ?thesis using one_write_cut [of k n w path b fs] by (auto simp: wb c killed_at_append)
  next
    case False
    then show ?thesis using Cons.IH [of "k - length (ops w path b)" "fold do_op (ops w path b) fs"] one_write [of w path b fs]
      by (auto simp: wb c killed_at_append)
  qed
qed (simp add: publish_def)

lemma publish_others:
  "q \<noteq> path \<Longrightarrow> q \<noteq> tmp_name path \<Longrightarrow> fold do_op (publish ops path ws) fs q = fs q"
  by (induction ws arbitrary: fs) (auto simp: publish_def fold_append others_kept)

text \<open>After a write whose calls all succeeded the new version is there.\<close>

lemma succeeds: "ops w path b \<noteq> [] \<Longrightarrow> we_failed w = None \<Longrightarrow> we_rename w \<Longrightarrow> fold do_op (ops w path b) fs path = Some b"
  using shape [of w path b] by (auto simp: write_and_rename_def)

end

end
