(* ===== verification/Diag.thy ===== *)
theory Diag
  imports GoUtf8 AtomicFile
begin

text \<open>
  \<open>internal/diag\<close>: the traffic counters of a proxy, the snapshot files written from them, and the three
  scans of the snapshot and session directories (\<open>IdleGCSweep\<close>, \<open>Sweep\<close>, \<open>ListSessions\<close>). A directory listing is a list of
  entries; process liveness, signalling, file removal, file contents and time formatting are parameters.
\<close>

section \<open>Counters\<close>

record counters =
  dg_host_out :: int
  dg_host_out_last :: int
  dg_master :: int
  dg_master_last :: int
  dg_client :: int
  dg_client_last :: int
  dg_image_paste :: int
  dg_connected :: int
  dg_last_disconnect :: int

definition new_counters :: counters where
  "new_counters = \<lparr>dg_host_out = 0, dg_host_out_last = 0, dg_master = 0, dg_master_last = 0, dg_client = 0,
     dg_client_last = 0, dg_image_paste = 0, dg_connected = 0, dg_last_disconnect = 0\<rparr>"

text \<open>The receiver may be nil; \<open>now\<close> is \<open>time.Now().UnixNano()\<close>.\<close>

definition on_client_connect :: "counters option \<Rightarrow> counters option" where
  "on_client_connect c = map_option (\<lambda>c. c\<lparr>dg_connected := dg_connected c + 1, dg_last_disconnect := 0\<rparr>) c"

definition on_client_disconnect :: "int \<Rightarrow> counters option \<Rightarrow> counters option" where
  "on_client_disconnect now c = map_option (\<lambda>c.
     let c = c\<lparr>dg_connected := dg_connected c - 1\<rparr> in
     if dg_connected c \<le> 0 then c\<lparr>dg_last_disconnect := now\<rparr> else c) c"

text \<open>\<open>CountingWriter.Write\<close>: the byte count and time stamp it is given, after the wrapped writer took \<open>n\<close> bytes.\<close>

definition counting_write :: "int \<Rightarrow> int \<Rightarrow> int option \<times> int option \<Rightarrow> int option \<times> int option" where
  "counting_write now n ct =
     (if n > 0 then (map_option (\<lambda>c. c + n) (fst ct), map_option (\<lambda>_. now) (snd ct)) else ct)"

text \<open>A writer without counters is not wrapped; \<open>wrap_writer\<close> gives the counters of the writer that is used.\<close>

definition wrap_writer :: "int option \<Rightarrow> int option \<Rightarrow> (int option \<times> int option) option" where
  "wrap_writer cnt ts = (if cnt = None \<and> ts = None then None else Some (cnt, ts))"

section \<open>Processes\<close>

text \<open>The answer of the system to a signal of number 0, and on windows the exit code of the process if it can be asked for.\<close>

datatype probe = ProbeOk | ProbeDenied | ProbeGone

definition is_alive_unix :: "int \<Rightarrow> bool \<Rightarrow> probe \<Rightarrow> bool" where
  "is_alive_unix pid found answer =
     (if pid \<le> 0 then False else if \<not> found then False else answer = ProbeOk \<or> answer = ProbeDenied)"

definition is_alive_windows :: "int \<Rightarrow> int option \<Rightarrow> bool" where
  "is_alive_windows pid exit_code = (if pid \<le> 0 then False else exit_code = Some 259)"

text \<open>\<open>sendSIGTERM\<close>: whether the system is asked at all, and the success.\<close>

definition send_sigterm :: "int \<Rightarrow> bool \<Rightarrow> bool" where
  "send_sigterm pid ok = (if pid \<le> 0 then False else ok)"

section \<open>Snapshots\<close>

record snap =
  sn_pid :: int
  sn_connected :: int
  sn_last_disconnect :: bytes
  sn_host_out :: int
  sn_host_out_last :: bytes
  sn_master :: int
  sn_master_last :: bytes
  sn_client :: int
  sn_client_last :: bytes
  sn_image_paste :: int
  sn_cwd :: bytes

definition ns_to_human :: "(int \<Rightarrow> bytes) \<Rightarrow> int \<Rightarrow> bytes" where
  "ns_to_human fmt ns = (if ns \<le> 0 then ''never'' else fmt ns)"

definition snap_now :: "(int \<Rightarrow> bytes) \<Rightarrow> int \<Rightarrow> counters option \<Rightarrow> bytes \<Rightarrow> snap" where
  "snap_now fmt pid c cwd = (case c of
      None \<Rightarrow> \<lparr>sn_pid = pid, sn_connected = 0, sn_last_disconnect = [], sn_host_out = 0, sn_host_out_last = [],
        sn_master = 0, sn_master_last = [], sn_client = 0, sn_client_last = [], sn_image_paste = 0, sn_cwd = cwd\<rparr>
    | Some c \<Rightarrow> \<lparr>sn_pid = pid, sn_connected = dg_connected c, sn_last_disconnect = ns_to_human fmt (dg_last_disconnect c),
        sn_host_out = dg_host_out c, sn_host_out_last = ns_to_human fmt (dg_host_out_last c),
        sn_master = dg_master c, sn_master_last = ns_to_human fmt (dg_master_last c),
        sn_client = dg_client c, sn_client_last = ns_to_human fmt (dg_client_last c),
        sn_image_paste = dg_image_paste c, sn_cwd = cwd\<rparr>)"

text \<open>\<open>WriteSnap\<close> with the encoded snapshot, and the calls of \<open>StartPeriodicSnap\<close> until its context ends: one snapshot per tick.\<close>

definition write_snap :: "write_env \<Rightarrow> bytes \<Rightarrow> bytes \<Rightarrow> file_op list" where
  "write_snap w path b = (if we_mkdir w then write_and_rename w path b else [])"

definition periodic_snaps :: "int \<Rightarrow> bytes \<Rightarrow> (write_env \<times> bytes) list \<Rightarrow> file_op list" where
  "periodic_snaps interval path ticks = (if interval \<le> 0 then [] else publish write_snap path ticks)"

interpretation snaps: atomic_writer write_snap
  by unfold_locales (simp add: write_snap_def)

text \<open>\<open>safeReason\<close>: one output byte per rune of the reason.\<close>

definition safe_rune :: "rune \<Rightarrow> bytes" where
  "safe_rune r =
     (if (97 \<le> r \<and> r \<le> 122) \<or> (65 \<le> r \<and> r \<le> 90) \<or> (48 \<le> r \<and> r \<le> 57) \<or> r = 45 \<or> r = 95
      then encode_rune r else ''_'')"

definition safe_reason :: "bytes \<Rightarrow> bytes" where
  "safe_reason s = (let b = concat (map safe_rune (runes_of s)) in if b = [] then ''unknown'' else b)"

section \<open>Directory scans\<close>

record dirent =
  de_name :: bytes
  de_is_dir :: bool

fun extract_pid :: "bytes \<Rightarrow> bytes list \<Rightarrow> int option" where
  "extract_pid name [] = None"
| "extract_pid name (suf # sufs) =
     (if has_suffix name suf
      then (case atoi (trim_suffix name suf) of Some pid \<Rightarrow> if pid > 0 then Some pid else None | None \<Rightarrow> None)
      else extract_pid name sufs)"

text \<open>One iteration of the loop of \<open>IdleGCSweep\<close>: the process to signal and the disconnect time, if every guard passes.\<close>

definition gc_candidate ::
  "(int \<Rightarrow> bool) \<Rightarrow> (bytes \<Rightarrow> snap option) \<Rightarrow> (bytes \<Rightarrow> int option) \<Rightarrow> int \<Rightarrow> dirent \<Rightarrow> (int \<times> bytes \<times> int) option" where
  "gc_candidate alive read_snap parse_time cutoff e =
     (if de_is_dir e then None
      else if \<not> has_suffix (de_name e) ''.snap'' then None
      else (case atoi (trim_suffix (de_name e) ''.snap'') of
          None \<Rightarrow> None
        | Some pid \<Rightarrow>
            if pid \<le> 0 \<or> \<not> alive pid then None
            else (case read_snap (de_name e) of
                None \<Rightarrow> None
              | Some s \<Rightarrow>
                  if sn_connected s > 0 then None
                  else if sn_last_disconnect s = [] \<or> sn_last_disconnect s = ''never'' then None
                  else (case parse_time (sn_last_disconnect s) of
                      None \<Rightarrow> None
                    | Some ts \<Rightarrow> if ts > cutoff then None else Some (pid, sn_cwd s, ts)))))"

definition idle_gc_sweep ::
  "(int \<Rightarrow> bool) \<Rightarrow> (bytes \<Rightarrow> snap option) \<Rightarrow> (bytes \<Rightarrow> int option) \<Rightarrow> (int \<Rightarrow> bool) \<Rightarrow> bytes \<Rightarrow> int \<Rightarrow> int
     \<Rightarrow> dirent list option \<Rightarrow> (int \<times> bytes \<times> int) list" where
  "idle_gc_sweep alive read_snap parse_time sigterm_ok dir now threshold ents =
     (if threshold \<le> 0 \<or> dir = [] then []
      else (case ents of
          None \<Rightarrow> []
        | Some es \<Rightarrow> filter (\<lambda>(pid, _). sigterm_ok pid)
            (List.map_filter (gc_candidate alive read_snap parse_time (now - threshold)) es)))"

text \<open>One directory of \<open>Sweep\<close>: the files removed.\<close>

definition sweep_dir :: "(int \<Rightarrow> bool) \<Rightarrow> (bytes \<Rightarrow> bool) \<Rightarrow> bytes list \<Rightarrow> dirent list \<Rightarrow> bytes list" where
  "sweep_dir alive removable sufs ents =
     List.map_filter (\<lambda>e. if de_is_dir e then None
        else (case extract_pid (de_name e) sufs of
            None \<Rightarrow> None
          | Some pid \<Rightarrow> if alive pid then None else if removable (de_name e) then Some (de_name e) else None)) ents"

definition sweep :: "(int \<Rightarrow> bool) \<Rightarrow> (bytes \<Rightarrow> bool) \<Rightarrow> dirent list option \<Rightarrow> dirent list option \<Rightarrow> nat \<times> nat" where
  "sweep alive removable sess diag =
     ((case sess of None \<Rightarrow> 0 | Some es \<Rightarrow> length (sweep_dir alive removable [''.sock'', ''.status.json''] es)),
      (case diag of None \<Rightarrow> 0 | Some es \<Rightarrow> length (sweep_dir alive removable [''.snap''] es)))"

definition list_sessions :: "(int \<Rightarrow> bool) \<Rightarrow> (bytes \<Rightarrow> snap option) \<Rightarrow> dirent list \<Rightarrow> snap list" where
  "list_sessions alive read_snap ents =
     sort_key sn_pid (List.map_filter (\<lambda>e.
       if de_is_dir e \<or> \<not> has_suffix (de_name e) ''.snap'' then None
       else (case extract_pid (de_name e) [''.snap''] of
           None \<Rightarrow> None
         | Some pid \<Rightarrow> if \<not> alive pid then None
             else map_option (\<lambda>s. if sn_pid s = 0 then s\<lparr>sn_pid := pid\<rparr> else s) (read_snap (de_name e)))) ents)"

section \<open>Observed proxies are never collected\<close>

lemma gc_in: "x \<in> set (idle_gc_sweep al rs pt sg dir now th ents) \<Longrightarrow>
    \<exists>es e. ents = Some es \<and> e \<in> set es \<and> gc_candidate al rs pt (now - th) e = Some x \<and> sg (fst x)"
  by (auto simp: idle_gc_sweep_def List.map_filter_def split: if_splits option.splits)

text \<open>A process whose snapshot reports observers is not signalled, whatever the file name, time and threshold; every
  process that is signalled is alive and has been without observers since a time at least the threshold ago.\<close>

lemma gc_spares_connected:
  assumes "read_snap f = Some w" and "0 < sn_connected w"
    and "p \<in> set (idle_gc_sweep alive read_snap parse_time sigterm_ok dir now threshold ents)"
  shows "\<exists>e s. e \<in> set (the ents) \<and> de_name e \<noteq> f \<and> read_snap (de_name e) = Some s \<and> alive (fst p)
    \<and> sn_connected s \<le> 0 \<and> (\<exists>ts. parse_time (sn_last_disconnect s) = Some ts \<and> ts \<le> now - threshold)"
proof -
  obtain el e where e: "ents = Some el" "e \<in> set el" "gc_candidate alive read_snap parse_time (now - threshold) e = Some p"
    using gc_in [OF assms(3)] by blast
  obtain s where s: "read_snap (de_name e) = Some s" "sn_connected s \<le> 0" "alive (fst p)"
      "\<exists>ts. parse_time (sn_last_disconnect s) = Some ts \<and> ts \<le> now - threshold"
    using e(3) by (auto simp: gc_candidate_def split: if_splits option.splits)
  moreover have "de_name e \<noteq> f" using assms(1,2) s by force
  ultimately show ?thesis using e by auto
qed

lemma extract_pid_some: "extract_pid n sufs = Some pid \<Longrightarrow> 0 < pid \<and> (\<exists>s \<in> set sufs. has_suffix n s)"
  by (induction n sufs rule: extract_pid.induct) (auto split: if_splits option.splits)

lemma sweep_dir_in:
  "n \<in> set (sweep_dir alive removable sufs ents) \<Longrightarrow> \<exists>pid. extract_pid n sufs = Some pid \<and> \<not> alive pid"
  by (auto simp: sweep_dir_def List.map_filter_def split: if_splits option.splits)

text \<open>The start-up sweep removes only stale files: everything it removes from the sessions directory is a
  \<open><pid>.sock\<close> or \<open><pid>.status.json\<close> of a process that is not alive; other files are never touched.\<close>

theorem sweep_only_stale:
  "list_all (\<lambda>n. \<exists>pid>0. \<not> alive pid \<and> extract_pid n [''.sock'', ''.status.json''] = Some pid
      \<and> (has_suffix n ''.sock'' \<or> has_suffix n ''.status.json''))
    (sweep_dir alive removable [''.sock'', ''.status.json''] ents)"
  unfolding list_all_iff
proof
  fix n
  assume "n \<in> set (sweep_dir alive removable [''.sock'', ''.status.json''] ents)"
  then obtain pid where "extract_pid n [''.sock'', ''.status.json''] = Some pid" "\<not> alive pid" using sweep_dir_in by blast
  with extract_pid_some [OF this(1)] show "\<exists>pid>0. \<not> alive pid \<and> extract_pid n [''.sock'', ''.status.json''] = Some pid
      \<and> (has_suffix n ''.sock'' \<or> has_suffix n ''.status.json'')" by (intro exI [of _ pid]) (simp del: extract_pid.simps)
qed

section \<open>File names of dumps\<close>

definition safe_char :: "byte \<Rightarrow> bool" where
  "safe_char c \<longleftrightarrow> is_digit c \<or> (65 \<le> (ord c :: nat) \<and> ord c \<le> (90 :: nat)) \<or> (97 \<le> (ord c :: nat) \<and> ord c \<le> (122 :: nat))
     \<or> ord c = (45 :: nat) \<or> ord c = (95 :: nat)"

lemma safe_rune_chars: "list_all safe_char (safe_rune r)"
  by (auto simp: safe_rune_def safe_char_def is_digit_def)

lemma ord_eq_char: "ord c = (n :: nat) \<Longrightarrow> c = char_of n"
  by (metis char_of_char)

lemma safe_rune_fix: "safe_char c \<Longrightarrow> safe_rune (ord c) = [c]"
  by (auto simp: safe_rune_def safe_char_def is_digit_def dest: ord_eq_char)

lemma safe_char_ascii: "safe_char c \<Longrightarrow> ord c < (128 :: nat)"
  by (auto simp: safe_char_def is_digit_def)

lemma safe_reason_safe: "list_all safe_char (safe_reason s) \<and> safe_reason s \<noteq> []"
proof -
  have "list_all safe_char (concat (map safe_rune rs))" for rs
    by (induction rs) (simp_all add: safe_rune_chars)
  then show ?thesis by (simp add: safe_reason_def Let_def safe_char_def is_digit_def)
qed

lemma safe_runes: "list_all safe_char s \<Longrightarrow> concat (map safe_rune (runes_of s)) = s"
proof (induction s)
  case (Cons c s)
  then have "runes_of (c # s) = ord c # runes_of s"
    using runes_of_encode [of "ord c" s] safe_char_ascii [of c] by (simp add: valid_rune_def)
  with Cons show ?case by (simp add: safe_rune_fix)
qed (simp add: runes_of.simps)

text \<open>Whatever reason is passed (also invalid UTF-8), the file-name component is non-empty and consists of ASCII
  letters, digits, hyphens and underscores only, so it contains no path separator; and a reason that is already safe
  is kept as it is (the sanitiser is idempotent).\<close>

theorem safe_reason_whitelist:
  "safe_reason s \<noteq> [] \<and> list_all safe_char (safe_reason s) \<and> CHR ''/'' \<notin> set (safe_reason s)
    \<and> safe_reason (safe_reason s) = safe_reason s"
proof -
  have "safe_reason (safe_reason s) = safe_reason s"
    using safe_reason_safe [of s] safe_runes by (subst safe_reason_def) (simp add: Let_def)
  moreover have "\<not> safe_char CHR ''/''" by (simp add: safe_char_def is_digit_def)
  ultimately show ?thesis using safe_reason_safe [of s] by (auto simp: list_all_iff)
qed

end
