(* ===== verification/ClientWire.thy ===== *)
theory ClientWire
  imports Codec
begin

text \<open>
  The wire format between socket clients and the proxy: the frames a client writes (\<open>internal/client/client.go\<close>,
  \<open>clipboard.go\<close>) and the parser of the proxy (\<open>parseClientInput\<close> in \<open>internal/ptyproxy/server.go\<close>).
\<close>

section \<open>Big-endian integers\<close>

definition be16 :: "nat \<Rightarrow> bytes" where
  "be16 n = [char_of (n div 256 mod 256), char_of (n mod 256)]"

definition be32 :: "nat \<Rightarrow> bytes" where
  "be32 n = be16 (n div 65536) @ be16 n"

definition get16 :: "bytes \<Rightarrow> nat" where
  "get16 s = ord (s ! 0) * 256 + ord (s ! 1)"

definition get32 :: "bytes \<Rightarrow> nat" where
  "get32 s = get16 s * 65536 + get16 (drop 2 s)"

definition int16 :: "nat \<Rightarrow> int" where
  "int16 n = (if n < 32768 then int n else int n - 65536)"

lemma length_be [simp]: "length (be16 n) = 2" "length (be32 n) = 4"
  by (simp_all add: be16_def be32_def)

lemma get16_be16 [simp]: "get16 (be16 n @ r) = n mod 65536"
proof -
  have "n mod 65536 = n mod (256 * 256)" by simp
  also have "\<dots> = n div 256 mod 256 * 256 + n mod 256" by (simp only: mod_mult2_eq mult.commute add.commute)
  finally show ?thesis by (simp add: get16_def be16_def)
qed

lemma get32_be32 [simp]: "n < 4294967296 \<Longrightarrow> get32 (be32 n @ r) = n"
proof -
  assume "n < 4294967296"
  then have "n div 65536 mod 65536 = n div 65536" by simp
  then show ?thesis by (simp add: get32_def be32_def)
qed

section \<open>The frames of a client\<close>

definition resize_magic :: bytes where "resize_magic = [CHR 0xFF, CHR 0xFF]"
definition scroll_magic :: bytes where "scroll_magic = [CHR 0xFF, CHR 0xFE]"
definition image_magic :: bytes where "image_magic = [CHR 0xFF, CHR 0xFD]"

definition max_image_bytes :: nat where "max_image_bytes = 8388608"

definition clamp16 :: "int \<Rightarrow> int" where
  "clamp16 dy = (if dy < -32768 then -32768 else if dy > 32767 then 32767 else dy)"

definition send_scroll :: "int \<Rightarrow> bytes" where
  "send_scroll dy = scroll_magic @ be16 (nat (clamp16 dy mod 65536))"

definition send_resize :: "int \<Rightarrow> int \<Rightarrow> bytes" where
  "send_resize cols rows = resize_magic @ be16 (nat (rows mod 65536)) @ be16 (nat (cols mod 65536))"

definition send_image :: "bytes \<Rightarrow> byte \<Rightarrow> bytes" where
  "send_image d code = image_magic @ be32 (length d mod 4294967296) @ [code] @ d"

section \<open>parseClientInput\<close>

datatype client_cmd =
    CResize (cmd_rows: nat) (cmd_cols: nat)
  | CScroll int
  | CImage bytes byte
  | CInput bytes

definition prepend :: "'a \<Rightarrow> 'a list \<times> bytes \<Rightarrow> 'a list \<times> bytes" where
  "prepend c r = (c # fst r, snd r)"

text \<open>The length of the text before the next magic.\<close>

definition is_magic :: "byte \<Rightarrow> byte \<Rightarrow> bool" where
  "is_magic a b \<longleftrightarrow> a = CHR 0xFF \<and> (b = CHR 0xFF \<or> b = CHR 0xFE \<or> b = CHR 0xFD)"

fun input_cut :: "bytes \<Rightarrow> nat" where
  "input_cut [] = 0"
| "input_cut [a] = 1"
| "input_cut (a # b # s) = (if is_magic a b then 0 else Suc (input_cut (b # s)))"

function parse_client :: "bytes \<Rightarrow> client_cmd list \<times> bytes" where
  "parse_client s =
     (if take 2 s = resize_magic then
        (if length s < 6 then ([], s)
         else prepend (CResize (get16 (drop 2 s)) (get16 (drop 4 s))) (parse_client (drop 6 s)))
      else if take 2 s = scroll_magic then
        (if length s < 4 then ([], s)
         else prepend (CScroll (int16 (get16 (drop 2 s)))) (parse_client (drop 4 s)))
      else if take 2 s = image_magic then
        (if length s < 7 then ([], s)
         else
           let n = get32 (drop 2 s); code = s ! 6 in
           if n \<le> 0 \<or> n > max_image_bytes then parse_client (drop 7 s)
           else if length s < 7 + n then ([], s)
           else prepend (CImage (take n (drop 7 s)) code) (parse_client (drop (7 + n) s)))
      else
        let cut = input_cut s in
        if cut = 0 then ([], s)
        else if length (drop cut s) < 2 then ([CInput (take cut s)], drop cut s)
        else prepend (CInput (take cut s)) (parse_client (drop cut s)))"
  by pat_completeness auto
termination
  by (relation "measure length") auto

declare parse_client.simps [simp del]

section \<open>The parser byte by byte\<close>

text \<open>What the stream means: frames, and single typed bytes. \<open>frame_at\<close> is the frame at the head of a text that starts
  with a magic: its commands (none for a rejected image) and its length, or \<open>None\<close> while it is incomplete.\<close>

datatype wire_atom = Frame client_cmd | Typed byte

definition atoms :: "client_cmd list \<Rightarrow> wire_atom list" where
  "atoms cs = concat (map (\<lambda>c. case c of CInput d \<Rightarrow> map Typed d | _ \<Rightarrow> [Frame c]) cs)"

definition magic_head :: "bytes \<Rightarrow> bool" where
  "magic_head s \<longleftrightarrow> (case s of a # b # _ \<Rightarrow> is_magic a b | _ \<Rightarrow> False)"

definition frame_at :: "bytes \<Rightarrow> (client_cmd list \<times> nat) option" where
  "frame_at s =
     (if take 2 s = resize_magic then
        (if length s < 6 then None else Some ([CResize (get16 (drop 2 s)) (get16 (drop 4 s))], 6))
      else if take 2 s = scroll_magic then
        (if length s < 4 then None else Some ([CScroll (int16 (get16 (drop 2 s)))], 4))
      else
        (if length s < 7 then None
         else let n = get32 (drop 2 s) in
           if n = 0 \<or> n > max_image_bytes then Some ([], 7)
           else if length s < 7 + n then None else Some ([CImage (take n (drop 7 s)) (s ! 6)], 7 + n)))"

lemma atoms_append [simp]: "atoms (xs @ ys) = atoms xs @ atoms ys"
  by (simp add: atoms_def)

lemma atoms_simps [simp]:
  "atoms [] = []" "atoms (CResize r c # cs) = Frame (CResize r c) # atoms cs" "atoms (CScroll n # cs) = Frame (CScroll n) # atoms cs"
  "atoms (CImage d k # cs) = Frame (CImage d k) # atoms cs" "atoms (CInput d # cs) = map Typed d @ atoms cs"
  by (simp_all add: atoms_def)

lemma prepend_simps [simp]: "fst (prepend c r) = c # fst r" "snd (prepend c r) = snd r"
  by (simp_all add: prepend_def)

lemma magic_head_simps [simp]: "\<not> magic_head []" "\<not> magic_head [a]" "magic_head (a # b # s) = is_magic a b"
  by (simp_all add: magic_head_def)

lemma magic_head_length: "magic_head s \<Longrightarrow> 2 \<le> length s"
  by (auto simp: magic_head_def split: list.splits)

lemma magic_head_iff: "magic_head s \<longleftrightarrow> take 2 s = resize_magic \<or> take 2 s = scroll_magic \<or> take 2 s = image_magic"
  by (cases s rule: input_cut.cases) (auto simp: is_magic_def resize_magic_def scroll_magic_def image_magic_def)

lemma magic_head_append: "2 \<le> length s \<Longrightarrow> magic_head (s @ t) = magic_head s"
  by (cases s rule: input_cut.cases) auto

lemma get16_append: "2 \<le> length s \<Longrightarrow> get16 (s @ t) = get16 s"
  by (auto simp: get16_def nth_append)

lemma get32_append: "4 \<le> length s \<Longrightarrow> get32 (s @ t) = get32 s"
  using get16_append [of "drop 2 s" t] by (simp add: get32_def get16_append)

lemma get_drop [simp]:
  "4 \<le> length s \<Longrightarrow> get16 (drop 2 s @ t) = get16 (drop 2 s)" "6 \<le> length s \<Longrightarrow> get16 (drop 4 s @ t) = get16 (drop 4 s)"
  "6 \<le> length s \<Longrightarrow> get32 (drop 2 s @ t) = get32 (drop 2 s)"
  by (simp_all add: get16_append get32_append)

lemma frame_at_bounds: "frame_at s = Some (cs, k) \<Longrightarrow> 4 \<le> k \<and> k \<le> length s"
  by (auto simp: frame_at_def Let_def split: if_splits)

lemma frame_at_append: "frame_at s = Some (cs, k) \<Longrightarrow> frame_at (s @ t) = Some (cs, k)"
  by (auto simp: frame_at_def Let_def nth_append split: if_splits)

function parse_atoms :: "bytes \<Rightarrow> wire_atom list \<times> bytes" where
  "parse_atoms s =
     (if s = [] then ([], [])
      else if magic_head s then
        (case frame_at s of
          None \<Rightarrow> ([], s)
        | Some (cs, k) \<Rightarrow> (map Frame cs @ fst (parse_atoms (drop k s)), snd (parse_atoms (drop k s))))
      else prepend (Typed (hd s)) (parse_atoms (tl s)))"
  by pat_completeness auto
termination
  by (relation "measure length") (auto dest: frame_at_bounds)

declare parse_atoms.simps [simp del]

lemma parse_atoms_Nil [simp]: "parse_atoms [] = ([], [])"
  by (simp add: parse_atoms.simps)

lemma parse_atoms_wait: "magic_head s \<Longrightarrow> frame_at s = None \<Longrightarrow> parse_atoms s = ([], s)"
  by (subst parse_atoms.simps) auto

lemma parse_atoms_frame: "magic_head s \<Longrightarrow> frame_at s = Some (cs, k) \<Longrightarrow>
    parse_atoms s = (map Frame cs @ fst (parse_atoms (drop k s)), snd (parse_atoms (drop k s)))"
  by (subst parse_atoms.simps) auto

lemma parse_atoms_typed: "\<not> magic_head (b # s) \<Longrightarrow> parse_atoms (b # s) = prepend (Typed b) (parse_atoms s)"
  by (subst parse_atoms.simps) auto

lemma parse_atoms_cut:
  "parse_atoms s = (map Typed (take (input_cut s) s) @ fst (parse_atoms (drop (input_cut s) s)), snd (parse_atoms (drop (input_cut s) s)))"
proof (induction s rule: input_cut.induct)
  case (2 a)
  then show ?case using parse_atoms_typed [of a "[]"] by (simp add: prod_eq_iff)
next
  case (3 a b s)
  then show ?case using parse_atoms_typed [of a "b # s"] by (cases "is_magic a b") (auto simp: prod_eq_iff)
qed simp

lemma input_cut_stop: "drop (input_cut s) s = [] \<or> magic_head (drop (input_cut s) s)"
  by (induction s rule: input_cut.induct) auto

lemma input_cut_zero: "input_cut s = 0 \<Longrightarrow> s = [] \<or> magic_head s"
  using input_cut_stop [of s] by simp

lemma other_magics:
  "resize_magic \<noteq> scroll_magic" "resize_magic \<noteq> image_magic" "scroll_magic \<noteq> image_magic"
  by (simp_all add: resize_magic_def scroll_magic_def image_magic_def)

lemma parse_client_frame:
  assumes "magic_head s"
  shows "parse_client s = (case frame_at s of None \<Rightarrow> ([], s)
    | Some (cs, k) \<Rightarrow> (cs @ fst (parse_client (drop k s)), snd (parse_client (drop k s))))"
proof -
  consider (r) "take 2 s = resize_magic" | (s) "take 2 s = scroll_magic" | (i) "take 2 s = image_magic"
    using assms by (auto simp: magic_head_iff)
  then show ?thesis
  proof cases
    case r
    then show ?thesis by (subst parse_client.simps) (simp add: frame_at_def prepend_def)
  next
    case s
    then show ?thesis using other_magics by (subst parse_client.simps) (simp add: frame_at_def prepend_def)
  next
    case i
    then show ?thesis using other_magics by (subst parse_client.simps) (simp add: frame_at_def prepend_def Let_def)
  qed
qed

lemma frame_at_atoms: "frame_at s = Some (cs, k) \<Longrightarrow> atoms cs = map Frame cs"
  by (auto simp: frame_at_def Let_def split: if_splits)

lemma parse_client_input:
  assumes "\<not> magic_head s" "s \<noteq> []"
  shows "parse_client s = (CInput (take (input_cut s) s) # fst (parse_client (drop (input_cut s) s)), snd (parse_client (drop (input_cut s) s)))"
proof -
  have nm: "take 2 s \<noteq> resize_magic" "take 2 s \<noteq> scroll_magic" "take 2 s \<noteq> image_magic"
    using assms by (simp_all add: magic_head_iff)
  have k: "input_cut s \<noteq> 0" using input_cut_zero [of s] assms by auto
  have e: "length (drop (input_cut s) s) < 2 \<Longrightarrow> drop (input_cut s) s = []"
    using input_cut_stop [of s] magic_head_length [of "drop (input_cut s) s"] by force
  have nil: "parse_client [] = ([], [])"
    by (simp add: parse_client.simps [of "[]"] resize_magic_def scroll_magic_def image_magic_def)
  show ?thesis
  proof (cases "length (drop (input_cut s) s) < 2")
    case True
    then show ?thesis using nm k e [OF True] nil by (subst parse_client.simps) simp
  next
    case False
    then show ?thesis using nm k by (subst parse_client.simps) (simp add: prepend_def Let_def)
  qed
qed

text \<open>The parser of the proxy means what the byte-wise reading says.\<close>

lemma parse_client_atoms: "parse_atoms s = (atoms (fst (parse_client s)), snd (parse_client s))"
proof (induction "length s" arbitrary: s rule: less_induct)
  case less
  consider (nil) "s = []" | (wait) "magic_head s" "frame_at s = None" | (frame) cs k where "magic_head s" "frame_at s = Some (cs, k)"
    | (input) "\<not> magic_head s" "s \<noteq> []" by (cases "frame_at s") auto
  then show ?case
  proof cases
    case nil
    then show ?thesis by (simp add: parse_client.simps [of "[]"] resize_magic_def scroll_magic_def image_magic_def)
  next
    case wait
    then show ?thesis by (simp add: parse_atoms_wait parse_client_frame)
  next
    case frame
    have "length (drop k s) < length s" using frame_at_bounds [OF frame(2)] by auto
    from less [OF this] frame show ?thesis
      by (simp add: parse_atoms_frame parse_client_frame frame_at_atoms)
  next
    case input
    then have "input_cut s \<noteq> 0" using input_cut_zero [of s] by auto
    then have "length (drop (input_cut s) s) < length s" using input(2) by simp
    from less [OF this] parse_client_input [OF input] parse_atoms_cut [of s] show ?thesis by simp
  qed
qed

section \<open>The codec\<close>

text \<open>A reading that ends with a typed byte 0xff is the only one that a later piece could have changed.\<close>

definition no_lone_ff :: "wire_atom list \<Rightarrow> bool" where
  "no_lone_ff cs \<longleftrightarrow> cs = [] \<or> last cs \<noteq> Typed (CHR 0xFF)"

lemma no_lone_ff_append: "no_lone_ff (xs @ ys) \<Longrightarrow> no_lone_ff ys"
  by (auto simp: no_lone_ff_def)

lemma parse_atoms_append:
  "no_lone_ff (fst (parse_atoms a)) \<Longrightarrow>
    parse_atoms (a @ b) = (fst (parse_atoms a) @ fst (parse_atoms (snd (parse_atoms a) @ b)), snd (parse_atoms (snd (parse_atoms a) @ b)))"
proof (induction "length a" arbitrary: a rule: less_induct)
  case less
  consider (nil) "a = []" | (wait) "magic_head a" "frame_at a = None" | (frame) cs k where "magic_head a" "frame_at a = Some (cs, k)"
    | (typed) x t where "\<not> magic_head a" "a = x # t" by (cases "frame_at a"; cases a) auto
  then show ?case
  proof cases
    case nil
    then show ?thesis by simp
  next
    case wait
    then show ?thesis by (simp add: parse_atoms_wait)
  next
    case frame
    note k = frame_at_bounds [OF frame(2)]
    have "length (drop k a) < length a" using k by auto
    moreover have "no_lone_ff (fst (parse_atoms (drop k a)))"
      using less.prems frame by (auto simp: parse_atoms_frame intro: no_lone_ff_append)
    ultimately have "parse_atoms (drop k a @ b) = (fst (parse_atoms (drop k a)) @ fst (parse_atoms (snd (parse_atoms (drop k a)) @ b)),
        snd (parse_atoms (snd (parse_atoms (drop k a)) @ b)))" by (rule less.hyps)
    moreover have "magic_head (a @ b)" using frame(1) magic_head_append [OF magic_head_length [OF frame(1)]] by simp
    ultimately show ?thesis
      using parse_atoms_frame [OF _ frame_at_append [OF frame(2)], of b] parse_atoms_frame [OF frame] k by simp
  next
    case typed
    have "\<not> magic_head (a @ b)"
    proof (cases t)
      case Nil
      then have "x \<noteq> CHR 0xFF" using less.prems typed by (auto simp: parse_atoms_typed no_lone_ff_def)
      then show ?thesis using typed Nil by (cases b) (auto simp: is_magic_def)
    next
      case (Cons y t')
      then show ?thesis using magic_head_append [of a b] typed by auto
    qed
    moreover have "no_lone_ff (fst (parse_atoms t))"
      using less.prems typed no_lone_ff_append [of "[Typed x]"] by (simp add: parse_atoms_typed)
    then have "parse_atoms (t @ b) = (fst (parse_atoms t) @ fst (parse_atoms (snd (parse_atoms t) @ b)), snd (parse_atoms (snd (parse_atoms t) @ b)))"
      using less.hyps typed by simp
    ultimately show ?thesis using typed by (simp add: parse_atoms_typed prod_eq_iff)
  qed
qed

text \<open>The messages of a client: the frames it writes, and typed text without the byte 0xff (no UTF-8 text has it).\<close>

datatype client_msg = MResize int int | MScroll int | MImage bytes byte | MText bytes

fun encode_msg :: "client_msg \<Rightarrow> bytes" where
  "encode_msg (MResize cols rows) = send_resize cols rows"
| "encode_msg (MScroll dy) = send_scroll dy"
| "encode_msg (MImage d code) = send_image d code"
| "encode_msg (MText d) = d"

fun msg_ok :: "client_msg \<Rightarrow> bool" where
  "msg_ok (MImage d code) \<longleftrightarrow> d \<noteq> [] \<and> length d \<le> max_image_bytes"
| "msg_ok (MText d) \<longleftrightarrow> CHR 0xFF \<notin> set d"
| "msg_ok m \<longleftrightarrow> True"

text \<open>What the proxy is to understand: sizes modulo 2^16, scroll steps clamped to 16 bits.\<close>

fun msg_atoms :: "client_msg \<Rightarrow> wire_atom list" where
  "msg_atoms (MResize cols rows) = [Frame (CResize (nat (rows mod 65536)) (nat (cols mod 65536)))]"
| "msg_atoms (MScroll dy) = [Frame (CScroll (clamp16 dy))]"
| "msg_atoms (MImage d code) = [Frame (CImage d code)]"
| "msg_atoms (MText d) = map Typed d"

lemma int16_clamp: "int16 (nat (clamp16 dy mod 65536)) = clamp16 dy"
proof -
  have r: "-32768 \<le> clamp16 dy" "clamp16 dy \<le> 32767" by (simp_all add: clamp16_def)
  show ?thesis
  proof (cases "0 \<le> clamp16 dy")
    case False
    then have "clamp16 dy mod 65536 = clamp16 dy + 65536"
      using r by (subst mod_add_self2 [symmetric]) (simp del: mod_add_self2)
    then show ?thesis using False r by (simp add: int16_def)
  qed (use r in \<open>simp add: int16_def\<close>)
qed

lemma parse_text: "CHR 0xFF \<notin> set d \<Longrightarrow> parse_atoms (d @ r) = (map Typed d @ fst (parse_atoms r), snd (parse_atoms r))"
proof (induction d)
  case (Cons x d)
  then have "\<not> magic_head (x # d @ r)" by (cases "d @ r") (auto simp: is_magic_def)
  with Cons show ?case by (simp add: parse_atoms_typed prod_eq_iff)
qed simp

lemma parse_frame:
  assumes "magic_head s" "frame_at s = Some ([c], length s)"
  shows "parse_atoms (s @ r) = ([Frame c] @ fst (parse_atoms r), snd (parse_atoms r))"
  using parse_atoms_frame [OF _ frame_at_append [OF assms(2)], of r] magic_head_append [OF magic_head_length [OF assms(1)]] assms(1)
  by simp

lemma parse_message: "msg_ok m \<Longrightarrow> parse_atoms (encode_msg m @ r) = (msg_atoms m @ fst (parse_atoms r), snd (parse_atoms r))"
proof (cases m)
  case (MResize cols rows)
  have "frame_at (send_resize cols rows) = Some ([CResize (nat (rows mod 65536)) (nat (cols mod 65536))], length (send_resize cols rows))"
    using get16_be16 [of "nat (cols mod 65536)" "[]"] by (simp add: frame_at_def send_resize_def resize_magic_def nat_mod_as_int)
  then show ?thesis using parse_frame [of "send_resize cols rows"] MResize
    by (simp add: send_resize_def resize_magic_def is_magic_def)
next
  case (MScroll dy)
  have "frame_at (send_scroll dy) = Some ([CScroll (clamp16 dy)], length (send_scroll dy))"
    using get16_be16 [of "nat (clamp16 dy mod 65536)" "[]"] int16_clamp [of dy]
    by (simp add: frame_at_def send_scroll_def scroll_magic_def resize_magic_def)
  then show ?thesis using parse_frame [of "send_scroll dy"] MScroll by (simp add: send_scroll_def scroll_magic_def is_magic_def)
next
  case (MImage d code)
  assume ok: "msg_ok m"
  have "frame_at (send_image d code) = Some ([CImage d code], length (send_image d code))"
    using ok MImage by (simp add: frame_at_def send_image_def image_magic_def scroll_magic_def resize_magic_def max_image_bytes_def nth_append)
  then show ?thesis using parse_frame [of "send_image d code"] MImage by (simp add: send_image_def image_magic_def is_magic_def)
next
  case (MText d)
  then show "msg_ok m \<Longrightarrow> ?thesis" using parse_text by simp
qed

interpretation wire: frame_codec parse_atoms no_lone_ff encode_msg msg_atoms msg_ok
  by unfold_locales (simp_all add: parse_atoms_append parse_message)

section \<open>The reader loop\<close>

text \<open>\<open>clientReader\<close>: every read is appended to the client's buffer and parsed.\<close>

definition client_reader :: "bytes list \<Rightarrow> client_cmd list \<times> bytes" where
  "client_reader = dec_chunks parse_client []"

lemma reader_atoms:
  "dec_chunks parse_atoms r xs = (atoms (fst (dec_chunks parse_client r xs)), snd (dec_chunks parse_client r xs))"
  by (induction xs arbitrary: r) (simp_all add: parse_client_atoms split_beta)

lemma last_ff:
  "fst (parse_atoms s) \<noteq> [] \<Longrightarrow> last (fst (parse_atoms s)) = Typed (CHR 0xFF) \<Longrightarrow> s \<noteq> [] \<and> last s = CHR 0xFF"
proof (induction "length s" arbitrary: s rule: less_induct)
  case less
  consider (nil) "s = []" | (wait) "magic_head s" "frame_at s = None" | (frame) cs k where "magic_head s" "frame_at s = Some (cs, k)"
    | (typed) x t where "\<not> magic_head s" "s = x # t" by (cases "frame_at s"; cases s) auto
  then show ?case
  proof cases
    case frame
    have "length (drop k s) < length s" using frame_at_bounds [OF frame(2)] by auto
    moreover have "fst (parse_atoms (drop k s)) \<noteq> []"
      using less.prems frame by (auto simp: parse_atoms_frame last_map)
    moreover have "last (fst (parse_atoms (drop k s))) = Typed (CHR 0xFF)"
      using less.prems frame calculation(2) by (simp add: parse_atoms_frame)
    ultimately show ?thesis using less.hyps [of "drop k s"] by (auto simp: last_drop)
  next
    case typed
    show ?thesis
    proof (cases "fst (parse_atoms t) = []")
      case False
      then show ?thesis using less typed by (auto simp: parse_atoms_typed)
    next
      case True
      have "t = [] \<or> magic_head t"
        by (rule ccontr) (use True parse_atoms_typed [of "hd t" "tl t"] in auto)
      then show ?thesis using less.prems typed True
        by (cases t rule: input_cut.cases) (auto simp: parse_atoms_typed is_magic_def)
    qed
  qed (use less.prems in \<open>auto simp: parse_atoms_wait\<close>)
qed

lemma cuts_settled:
  "list_all (\<lambda>x. x \<noteq> [] \<and> last x \<noteq> CHR 0xFF) (butlast xs) \<Longrightarrow> all_settled parse_atoms no_lone_ff r xs"
  by (induction xs arbitrary: r) (auto simp: no_lone_ff_def dest: last_ff split: if_splits)



text \<open>The proviso is needed. A resize frame whose first byte arrives in a read of its own is not recognised: all
  six bytes are typed into the session.\<close>

theorem split_frame_typed:
  "client_reader [[CHR 0xFF], [CHR 0xFF, CHR 0x00, CHR 0x18, CHR 0x00, CHR 0x50]]
    = ([CInput [CHR 0xFF], CInput [CHR 0xFF, CHR 0x00, CHR 0x18, CHR 0x00, CHR 0x50]], [])"
  by (simp add: client_reader_def parse_client.simps resize_magic_def scroll_magic_def image_magic_def is_magic_def Let_def)

lemma parse_client_rest: "length (snd (parse_client s)) < 7 + max_image_bytes"
proof -
  have "length (snd (parse_atoms s)) < 7 + max_image_bytes"
  proof (induction "length s" arbitrary: s rule: less_induct)
    case less
    consider (nil) "s = []" | (wait) "magic_head s" "frame_at s = None" | (frame) cs k where "magic_head s" "frame_at s = Some (cs, k)"
      | (typed) x t where "\<not> magic_head s" "s = x # t" by (cases "frame_at s"; cases s) auto
    then show ?case
    proof cases
      case wait
      then show ?thesis by (auto simp: parse_atoms_wait frame_at_def Let_def split: if_splits)
    next
      case frame
      then show ?thesis using less [of "drop k s"] frame_at_bounds [OF frame(2)] by (auto simp: parse_atoms_frame)
    qed (use less in \<open>auto simp: parse_atoms_typed max_image_bytes_def\<close>)
  qed
  then show ?thesis by (simp add: parse_client_atoms)
qed

text \<open>The buffer the proxy keeps for a client between reads is bounded, whatever the client sends: it is shorter than
  one image frame of the largest size.\<close>

theorem wire_buffer_bounded: "length (snd (parse_client s)) < 7 + max_image_bytes"
  by (rule parse_client_rest)

end
