(* ===== verification/Config.thy ===== *)
theory Config
  imports GoUtf8
begin

text \<open>
  \<open>internal/config\<close>: the settings (\<open>config.go\<close>) and the list of clouds (\<open>clouds.go\<close>). The environment, the decoded TOML
  table, the decoded JSON list, the home directory and the host name are arguments; so are Go's Unicode case mappings on
  texts that are not ASCII (\<open>lo\<close>, \<open>up\<close>).
\<close>

record config =
  cf_poll_interval :: int
  cf_tmux_session :: bytes
  cf_include_vscode :: bool
  cf_auto_attach :: bool
  cf_limit_warn :: int
  cf_limit_interrupt :: int
  cf_idle_gc_hours :: int
  cf_size_policy :: bytes
  cf_host_flow :: bool
  cf_nav_key :: bytes
  cf_nav_scroll :: int
  cf_nav_page :: int
  cf_pagekey_scroll :: bool
  cf_wheel_scroll :: bool
  cf_web_image_paste :: bool
  cf_img_paste_key :: "bytes option"
  cf_nav_wheel :: int
  cf_session_log :: bytes
  cf_log_file :: bytes
  cf_status_file :: bytes
  cf_pid_file :: bytes
  cf_config_file :: bytes
  cf_real_claude :: bytes
  cf_sessions_dir :: bytes
  cf_pending_file :: bytes
  cf_remote_file :: bytes
  cf_gcp_project :: bytes
  cf_pc_id :: bytes
  cf_relay_url :: bytes
  cf_google_client_id :: bytes
  cf_allowed_emails :: bytes

section \<open>Host name\<close>

definition normalize_host :: "bytes \<Rightarrow> bytes \<Rightarrow> bytes" where
  "normalize_host h def =
     (let h = trim_space h;
          h = (case index_byte h (CHR ''.'') of Some i \<Rightarrow> take i h | None \<Rightarrow> h);
          h = trim_space h
      in if h = [] then def else h)"

definition hostname_or :: "bytes option \<Rightarrow> bytes \<Rightarrow> bytes" where
  "hostname_or host def = (case host of Some h \<Rightarrow> normalize_host h def | None \<Rightarrow> def)"

section \<open>Key specifications\<close>

text \<open>\<open>navCtrlRe\<close>: the text of the captured character, if the (lower-case) specification matches.\<close>

definition nav_ctrl :: "bytes \<Rightarrow> bytes option" where
  "nav_ctrl low =
     (let r = (if has_prefix low ''ctrl-'' then Some (drop 5 low)
               else if has_prefix low ''c-'' then Some (drop 2 low)
               else if has_prefix low ''^'' then Some (drop 1 low) else None)
      in case r of
        None \<Rightarrow> None
      | Some r \<Rightarrow> if r \<noteq> [] \<and> snd (decode_rune r) = length r \<and> r \<noteq> [CHR 0x0A] then Some r else None)"

definition ctrl_byte :: "(bytes \<Rightarrow> bytes) \<Rightarrow> bytes \<Rightarrow> bytes" where
  "ctrl_byte up r = [char_of (ord (hd (to_upper up r)) mod (32 :: nat))]"

definition low_byte :: "int \<Rightarrow> bytes" where
  "low_byte n = [char_of (nat (n mod 256))]"

definition parse_nav_key :: "(bytes \<Rightarrow> bytes) \<Rightarrow> (bytes \<Rightarrow> bytes) \<Rightarrow> bytes \<Rightarrow> bytes" where
  "parse_nav_key lo up spec =
     (let s = trim_space spec in
      if s = [] then [CHR 0x1C]
      else let low = to_lower lo s in
      case nav_ctrl low of Some m \<Rightarrow> ctrl_byte up m | None \<Rightarrow>
      case (if has_prefix low [CHR 0x5C, CHR ''x''] then parse_int 16 32 (drop 2 low) else None) of Some n \<Rightarrow> low_byte n | None \<Rightarrow>
      case (if has_prefix low ''0x'' then parse_int 16 32 (drop 2 low) else None) of Some n \<Rightarrow> low_byte n | None \<Rightarrow>
      case atoi low of Some n \<Rightarrow> low_byte n | None \<Rightarrow>
      if length s = 1 then s else [CHR 0x1C])"

definition parse_key_or_nil :: "(bytes \<Rightarrow> bytes) \<Rightarrow> (bytes \<Rightarrow> bytes) \<Rightarrow> bytes \<Rightarrow> bytes option" where
  "parse_key_or_nil lo up spec =
     (let s = trim_space spec in
      if s = [] then None
      else let low = to_lower lo s in
      case nav_ctrl low of Some m \<Rightarrow> Some (ctrl_byte up m) | None \<Rightarrow>
      if has_prefix low [CHR 0x5C, CHR ''x''] \<or> has_prefix low ''0x''
      then map_option low_byte (parse_int 16 32 (drop 2 low))
      else case atoi low of Some n \<Rightarrow> Some (low_byte n) | None \<Rightarrow>
      if length s = 1 then Some s else None)"

section \<open>Load\<close>

datatype toml = TStr bytes | TBool bool | TInt int | TFloat (shown: bytes) | TTable "(bytes \<times> toml) list" | TOther

definition toml_to_string :: "toml \<Rightarrow> bytes" where
  "toml_to_string v = (case v of
      TStr t \<Rightarrow> t | TBool t \<Rightarrow> (if t then ''true'' else ''false'') | TInt t \<Rightarrow> show_int t | TFloat t \<Rightarrow> t | _ \<Rightarrow> [])"

text \<open>The decoded file, \<open>None\<close> when it is missing or malformed. Keys are lowered; a later entry of the iteration
  overwrites an earlier one.\<close>

definition load_file :: "(bytes \<Rightarrow> bytes) \<Rightarrow> (bytes \<times> toml) list option \<Rightarrow> bytes \<Rightarrow> toml option" where
  "load_file lo decoded = (case decoded of
      None \<Rightarrow> Map.empty
    | Some raw \<Rightarrow>
        let raw = (case map_of raw ''claude-master'' of Some (TTable sub) \<Rightarrow> sub | _ \<Rightarrow> raw)
        in map_of (rev (map (\<lambda>(k, v). (to_lower lo k, v)) raw)))"

definition cfg_get :: "(bytes \<Rightarrow> bytes option) \<Rightarrow> (bytes \<Rightarrow> toml option) \<Rightarrow> bytes \<Rightarrow> bytes option" where
  "cfg_get env file key = (case env (map upper_byte key) of
      Some v \<Rightarrow> Some v
    | None \<Rightarrow> map_option toml_to_string (file (map lower_byte key)))"

definition cfg_str :: "(bytes \<Rightarrow> bytes option) \<Rightarrow> bytes \<Rightarrow> bytes \<Rightarrow> bytes" where
  "cfg_str get key def = (case get key of Some v \<Rightarrow> v | None \<Rightarrow> def)"

definition cfg_boolean :: "(bytes \<Rightarrow> bytes option) \<Rightarrow> bytes \<Rightarrow> bool \<Rightarrow> bool" where
  "cfg_boolean get key def = (case get key of Some v \<Rightarrow> map lower_byte (trim_space v) = ''true'' | None \<Rightarrow> def)"

definition cfg_integer :: "(bytes \<Rightarrow> bytes option) \<Rightarrow> bytes \<Rightarrow> int \<Rightarrow> int \<Rightarrow> int \<Rightarrow> int" where
  "cfg_integer get key def lo hi = (case get key of
      None \<Rightarrow> def
    | Some v \<Rightarrow> (case atoi (trim_space v) of
          None \<Rightarrow> def
        | Some n \<Rightarrow> let n = (if n < lo then lo else n); n = (if n > hi then hi else n) in n))"

text \<open>\<open>read\<close> gives the decoded file at a path.\<close>

definition load :: "(bytes \<Rightarrow> bytes) \<Rightarrow> (bytes \<Rightarrow> bytes) \<Rightarrow> (bytes \<Rightarrow> bytes option) \<Rightarrow> (bytes \<Rightarrow> (bytes \<times> toml) list option)
    \<Rightarrow> (bytes \<Rightarrow> bytes) \<Rightarrow> bytes option \<Rightarrow> bool \<Rightarrow> config" where
  "load lo up env read home host windows =
     (let cf = (case env ''CLAUDE_MASTER_CONFIG'' of Some p \<Rightarrow> if p = [] then home ''.claude-master.toml'' else p
                | None \<Rightarrow> home ''.claude-master.toml'');
          get = cfg_get env (load_file lo (read cf));
          str = cfg_str get; boolean = cfg_boolean get; integer = cfg_integer get;
          real = (if windows then home ''.local/bin/claude.exe'' else home ''.local/bin/claude'')
      in \<lparr>cf_poll_interval = integer ''POLL_INTERVAL'' 1 0 86400,
          cf_tmux_session = str ''TMUX_SESSION'' ''claude-master'',
          cf_include_vscode = boolean ''INCLUDE_VSCODE'' False,
          cf_auto_attach = boolean ''AUTO_ATTACH'' False,
          cf_limit_warn = integer ''LIMIT_WARN_PERCENT'' 80 0 100,
          cf_limit_interrupt = integer ''LIMIT_INTERRUPT_PERCENT'' 90 0 100,
          cf_idle_gc_hours = integer ''IDLE_GC_HOURS'' 4 0 168,
          cf_size_policy = to_lower lo (str ''SIZE_POLICY'' ''client''),
          cf_host_flow = boolean ''HOST_FLOW_SCROLLBACK'' False,
          cf_nav_key = parse_nav_key lo up (str ''NAV_KEY'' [CHR 0x5C, CHR ''x'', CHR ''1'', CHR ''c'']),
          cf_nav_scroll = integer ''NAV_SCROLL_STEP'' 1 1 1000,
          cf_nav_page = integer ''NAV_PAGE_STEP'' 10 1 100000,
          cf_pagekey_scroll = boolean ''PAGEKEY_SCROLL'' False,
          cf_wheel_scroll = boolean ''WHEEL_SCROLL'' False,
          cf_web_image_paste = boolean ''WEB_IMAGE_PASTE'' False,
          cf_img_paste_key = parse_key_or_nil lo up (str ''IMG_PASTE_KEY'' []),
          cf_nav_wheel = integer ''NAV_WHEEL_STEP'' 3 1 1000,
          cf_session_log = trim_space (str ''SESSION_LOG'' []),
          cf_log_file = home ''.claude-master.log'',
          cf_status_file = home ''.claude-master.status.json'',
          cf_pid_file = home ''.claude-master.pid'',
          cf_config_file = cf,
          cf_real_claude = str ''REAL_CLAUDE'' real,
          cf_sessions_dir = home ''.claude-master/sessions'',
          cf_pending_file = home ''.claude-master/pending_resumes.json'',
          cf_remote_file = home ''.claude-master/sessions/remote_sessions.json'',
          cf_gcp_project = str ''GCP_PROJECT'' [],
          cf_pc_id = str ''PC_ID'' (hostname_or host ''pc''),
          cf_relay_url = str ''CLOUD_RELAY_URL'' [],
          cf_google_client_id = str ''GOOGLE_OAUTH_CLIENT_ID'' [],
          cf_allowed_emails = str ''ALLOWED_EMAILS'' []\<rparr>)"

section \<open>Clouds\<close>

record cloud =
  cl_project :: bytes
  cl_relay_url :: bytes
  cl_sa_key_path :: bytes
  cl_pc_name :: bytes

text \<open>\<open>env_creds\<close> is \<open>os.Getenv\<close> of the variable, \<open>home_dir\<close> is absent when the home directory is unknown, \<open>cand\<close> the default
  path under it.\<close>

definition default_sa_key_path :: "bytes \<Rightarrow> bytes option \<Rightarrow> (bytes \<Rightarrow> bytes) \<Rightarrow> (bytes \<Rightarrow> bool) \<Rightarrow> bytes" where
  "default_sa_key_path env_creds home_dir cand exists_file =
     (if env_creds \<noteq> [] then env_creds
      else (case home_dir of
          None \<Rightarrow> []
        | Some h \<Rightarrow> if h = [] then [] else if exists_file (cand h) then cand h else []))"

text \<open>\<open>decoded\<close> is the content of \<open>clouds.json\<close>, \<open>None\<close> when there is no such file or it does not decode.\<close>

definition usable_clouds :: "config \<Rightarrow> cloud list \<Rightarrow> cloud list" where
  "usable_clouds c cs = map (\<lambda>cl. if cl_pc_name cl = [] then cl\<lparr>cl_pc_name := cf_pc_id c\<rparr> else cl)
     (filter (\<lambda>cl. cl_project cl \<noteq> [] \<and> cl_relay_url cl \<noteq> []) cs)"

definition load_clouds :: "config \<Rightarrow> cloud list option \<Rightarrow> bytes \<Rightarrow> cloud list" where
  "load_clouds c decoded sa_key =
     (let out = (case decoded of Some cs \<Rightarrow> usable_clouds c cs | None \<Rightarrow> []) in
      if out \<noteq> [] then out
      else if cf_gcp_project c = [] then []
      else [\<lparr>cl_project = cf_gcp_project c, cl_relay_url = cf_relay_url c, cl_sa_key_path = sa_key, cl_pc_name = cf_pc_id c\<rparr>])"

text \<open>The list \<open>AppendCloud\<close> writes; \<open>decoded\<close> is what was read from the existing file (empty if nothing).\<close>

definition append_cloud :: "cloud \<Rightarrow> cloud list \<Rightarrow> cloud list \<Rightarrow> cloud list" where
  "append_cloud add existing decoded =
     (let base = (if decoded = [] then decoded @ existing else decoded);
          merged = map (\<lambda>cl. if cl_project cl = cl_project add then add else cl) base;
          replaced = list_ex (\<lambda>cl. cl_project cl = cl_project add) base
      in if replaced then merged else merged @ [add])"

section \<open>Values of a loaded configuration\<close>

definition in_range :: "int \<Rightarrow> int \<Rightarrow> int \<Rightarrow> bool" where
  "in_range lo hi n \<longleftrightarrow> lo \<le> n \<and> n \<le> hi"

lemma cfg_integer_range: "in_range lo hi def \<Longrightarrow> in_range lo hi (cfg_integer get key def lo hi)"
  by (auto simp: cfg_integer_def in_range_def Let_def split: option.splits)

lemma length_low_byte [simp]: "length (low_byte n) = 1" "length (ctrl_byte up r) = 1"
  by (simp_all add: low_byte_def ctrl_byte_def)

lemma parse_nav_key_byte: "length (parse_nav_key lo up spec) = 1"
  by (simp add: parse_nav_key_def Let_def split: option.split)

lemma parse_key_or_nil_byte: "parse_key_or_nil lo up spec = Some k \<Longrightarrow> length k = 1"
  by (auto simp: parse_key_or_nil_def Let_def split: option.splits if_splits)

text \<open>Whatever the environment and the settings file contain, a loaded configuration is usable: every number is in
  its range (percentages are percentages, scroll steps are positive), and the key
  that toggles nav-mode is exactly one byte, so it is never the empty text that every input contains.\<close>

theorem load_in_range:
  "in_range 0 86400 (cf_poll_interval (load lo up env read home host win))
    \<and> in_range 0 100 (cf_limit_warn (load lo up env read home host win))
    \<and> in_range 0 100 (cf_limit_interrupt (load lo up env read home host win))
    \<and> in_range 0 168 (cf_idle_gc_hours (load lo up env read home host win))
    \<and> in_range 1 1000 (cf_nav_scroll (load lo up env read home host win))
    \<and> in_range 1 100000 (cf_nav_page (load lo up env read home host win))
    \<and> in_range 1 1000 (cf_nav_wheel (load lo up env read home host win))
    \<and> length (cf_nav_key (load lo up env read home host win)) = 1"
  by (simp add: load_def Let_def cfg_integer_range parse_nav_key_byte) (simp add: in_range_def cfg_integer_range [unfolded in_range_def])

text \<open>The two readings of a key specification agree wherever the optional one accepts it.\<close>

theorem key_specs_agree:
  assumes "parse_key_or_nil lo up spec = Some k"
  shows "parse_nav_key lo up spec = k"
proof -
  have x: "has_prefix l [CHR 0x5C, CHR ''x''] \<Longrightarrow> \<not> has_prefix l ''0x''" for l
    by (cases l) (auto simp: has_prefix_def)
  show ?thesis using assms x
    by (auto simp: parse_key_or_nil_def parse_nav_key_def Let_def split: option.splits if_splits)
qed

theorem key_specs_agree_witness: "parse_nav_key id id ''^]'' = [CHR 0x1D]"
proof -
  have t: "trim_space ''^]'' = ''^]''"
    by (simp add: trim_space_def trim_right_rev.simps trim_left.simps ascii_space_def wide_space_def)
  have "parse_key_or_nil id id ''^]'' = Some [CHR 0x1D]"
    by (simp add: parse_key_or_nil_def t Let_def to_lower_def is_ascii_def nav_ctrl_def has_prefix_def lower_byte_def
        decode_rune.simps ctrl_byte_def to_upper_def upper_byte_def char_of_def bit_iff_odd)
  then show ?thesis by (rule key_specs_agree)
qed

text \<open>Adding a cloud never loses another one: the clouds of other projects are exactly those that were there, in the
  same order, and the cloud of the added project is the added one. Projects that were distinct stay distinct.\<close>

theorem append_cloud_keeps:
  assumes "base = (if decoded = [] then existing else decoded)"
  shows "filter (\<lambda>c. cl_project c \<noteq> cl_project add) (append_cloud add existing decoded)
       = filter (\<lambda>c. cl_project c \<noteq> cl_project add) base
    \<and> add \<in> set (append_cloud add existing decoded)
    \<and> list_all (\<lambda>c. cl_project c \<noteq> cl_project add \<or> c = add) (append_cloud add existing decoded)
    \<and> (distinct (map cl_project base) \<longrightarrow> distinct (map cl_project (append_cloud add existing decoded)))"
proof -
  let ?f = "\<lambda>cl. if cl_project cl = cl_project add then add else cl"
  have r: "append_cloud add existing decoded
      = map ?f base @ (if list_ex (\<lambda>cl. cl_project cl = cl_project add) base then [] else [add])"
    using assms by (simp add: append_cloud_def Let_def)
  have f: "filter (\<lambda>c. cl_project c \<noteq> cl_project add) (map ?f xs) = filter (\<lambda>c. cl_project c \<noteq> cl_project add) xs" for xs :: "cloud list"
    by (induction xs) auto
  have p: "map cl_project (map ?f xs) = map cl_project xs" for xs :: "cloud list" by (induction xs) auto
  have d: "distinct (map cl_project (append_cloud add existing decoded))" if "distinct (map cl_project base)"
    using that by (auto simp add: r p list_ex_iff simp del: map_map)
  show ?thesis using d by (auto simp: r f list_all_iff list_ex_iff image_iff)
qed

theorem append_cloud_keeps_witness:
  "map cl_project (append_cloud \<lparr>cl_project = ''b'', cl_relay_url = ''r'', cl_sa_key_path = [], cl_pc_name = []\<rparr> []
     [\<lparr>cl_project = ''a'', cl_relay_url = ''q'', cl_sa_key_path = [], cl_pc_name = []\<rparr>]) = [''a'', ''b'']"
  using append_cloud_keeps [of "[\<lparr>cl_project = ''a'', cl_relay_url = ''q'', cl_sa_key_path = [], cl_pc_name = []\<rparr>]"
      "[\<lparr>cl_project = ''a'', cl_relay_url = ''q'', cl_sa_key_path = [], cl_pc_name = []\<rparr>]" "[]"
      "\<lparr>cl_project = ''b'', cl_relay_url = ''r'', cl_sa_key_path = [], cl_pc_name = []\<rparr>"]
  by (simp add: append_cloud_def)

end
