(* ===== verification/Server.thy ===== *)
theory Server
  imports ClientWire Config Flusher Status InputKeys Diag Scroll
begin

text \<open>
  \<open>internal/ptyproxy/server.go\<close>, \<open>sessionlog.go\<close>, \<open>statuswriter.go\<close>: the proxy that keeps the screen of one claude process and
  serves it to the host terminal and to any number of socket clients. Every operation returns the new state and the
  effects it has on the outside, in order. The mutex of the server makes each of them atomic, so a run is a sequence of
  operations. The clients are a list (the code ranges over a map, whose order is arbitrary); \<open>io_ok i\<close> says whether a
  write to client \<open>i\<close> succeeds. Times are nanoseconds.
\<close>

section \<open>State\<close>

record sclient =
  sc_id :: nat
  sc_sr :: scroller
  sc_cols :: nat
  sc_rows :: nat
  sc_in :: bytes

record status_writer =
  sw_scan :: status_scanner
  sw_last :: int
  sw_sig :: "bool \<times> int \<times> bytes \<times> bytes \<times> bool"
  sw_init :: bool
  sw_pid :: int

record server =
  sv_cfg :: config
  sv_vt :: vt
  sv_clients :: "sclient list"
  sv_host :: bool
  sv_host_sr :: scroller
  sv_hcols :: nat
  sv_hrows :: nat
  sv_nav :: bool
  sv_sess :: "flusher option"
  sv_status :: "status_writer option"
  sv_version :: bytes
  sv_sync_start :: "int option"
  sv_timer :: bool
  sv_done :: bool
  sv_counters :: "counters option"

record status_payload =
  sp_pid :: int
  sp_updated_at :: int
  sp_is_active :: bool
  sp_cm_version :: "bytes option"
  sp_usage :: "int option"
  sp_reset :: "(bytes \<times> bytes) option"

datatype effect =
    ToHost bytes
  | ToClient nat bytes
  | CloseConn nat
  | ToMaster bytes
  | ToLog bytes
  | CloseLog
  | WriteStatus status_payload
  | PasteImage bytes bytes (* the extension and the payload put on the clipboard *)

record io_env =
  io_ok :: "nat \<Rightarrow> bool"
  io_now :: int
  io_paste_dir :: bool
  io_paste_write :: bool
  io_clip :: bool

definition new_server :: "config \<Rightarrow> vt \<Rightarrow> bool \<Rightarrow> nat \<Rightarrow> nat \<Rightarrow> counters option \<Rightarrow> bytes \<Rightarrow> server" where
  "new_server cfg v host cols rows ct ver =
     \<lparr>sv_cfg = cfg, sv_vt = v, sv_clients = [], sv_host = host, sv_host_sr = new_scroll_renderer, sv_hcols = cols,
      sv_hrows = rows, sv_nav = False, sv_sess = None, sv_status = None, sv_version = ver, sv_sync_start = None,
      sv_timer = False, sv_done = False, sv_counters = ct\<rparr>"

definition sync_hold_max :: int where
  "sync_hold_max = 1000000000"

section \<open>Rendering\<close>

definition render_host :: "server \<Rightarrow> server \<times> effect list" where
  "render_host s =
     (if \<not> sv_host s then (s, [])
      else let (frame, sr) = render_ansi (sv_host_sr s) (sv_vt s) (sv_hrows s) (sv_hcols s)
        in (s\<lparr>sv_host_sr := sr\<rparr>, [ToHost frame]))"

definition find_client :: "nat \<Rightarrow> server \<Rightarrow> sclient option" where
  "find_client i s = find (\<lambda>c. sc_id c = i) (sv_clients s)"

definition update_client :: "nat \<Rightarrow> (sclient \<Rightarrow> sclient) \<Rightarrow> server \<Rightarrow> server" where
  "update_client i f s = s\<lparr>sv_clients := map (\<lambda>c. if sc_id c = i then f c else c) (sv_clients s)\<rparr>"

definition client_gone :: "int \<Rightarrow> nat \<Rightarrow> server \<Rightarrow> server" where
  "client_gone now i s =
     (if find_client i s = None then s
      else s\<lparr>sv_clients := filter (\<lambda>c. sc_id c \<noteq> i) (sv_clients s),
             sv_counters := on_client_disconnect now (sv_counters s)\<rparr>)"

definition render_client :: "io_env \<Rightarrow> nat \<Rightarrow> server \<Rightarrow> server \<times> effect list" where
  "render_client env i s = (case find_client i s of
      None \<Rightarrow> (s, [])
    | Some c \<Rightarrow>
        let (frame, sr) = render_ansi (sc_sr c) (sv_vt s) (sc_rows c) (sc_cols c);
            s = update_client i (\<lambda>c. c\<lparr>sc_sr := sr\<rparr>) s
        in if io_ok env i then (s, [ToClient i frame])
           else (client_gone (io_now env) i s, [ToClient i frame, CloseConn i]))"

fun render_clients :: "io_env \<Rightarrow> nat list \<Rightarrow> server \<Rightarrow> server \<times> effect list" where
  "render_clients env [] s = (s, [])"
| "render_clients env (i # is) s =
     (let (s, e1) = render_client env i s; (s, e2) = render_clients env is s in (s, e1 @ e2))"

definition broadcast :: "io_env \<Rightarrow> server \<Rightarrow> server \<times> effect list" where
  "broadcast env s =
     (let (s, e1) = render_host s; (s, e2) = render_clients env (map sc_id (sv_clients s)) s in (s, e1 @ e2))"

definition set_host_size :: "nat \<Rightarrow> nat \<Rightarrow> server \<Rightarrow> server \<times> effect list" where
  "set_host_size cols rows s = render_host (s\<lparr>sv_hcols := cols, sv_hrows := rows\<rparr>)"

section \<open>Clients\<close>

definition accept :: "io_env \<Rightarrow> nat \<Rightarrow> server \<Rightarrow> server \<times> effect list" where
  "accept env i s =
     (let c = \<lparr>sc_id = i, sc_sr = new_scroll_renderer, sc_cols = 80, sc_rows = 24, sc_in = []\<rparr>
      in render_client env i (s\<lparr>sv_clients := sv_clients s @ [c], sv_counters := on_client_connect (sv_counters s)\<rparr>))"

definition drop_client :: "io_env \<Rightarrow> nat \<Rightarrow> server \<Rightarrow> server \<times> effect list" where
  "drop_client env i s =
     (if find_client i s = None then (s, []) else (client_gone (io_now env) i s, [CloseConn i]))"

definition image_ext_class :: "byte \<Rightarrow> bytes option" where
  "image_ext_class code =
     (if ord code = (1 :: nat) then Some ''png'' else if ord code = (2 :: nat) then Some ''jpg''
      else if ord code = (3 :: nat) then Some ''gif'' else None)"

definition handle_image_paste :: "io_env \<Rightarrow> bytes \<Rightarrow> byte \<Rightarrow> server \<Rightarrow> effect list" where
  "handle_image_paste env payload code s =
     (if \<not> cf_web_image_paste (sv_cfg s) then []
      else (case image_ext_class code of
          None \<Rightarrow> []
        | Some ext \<Rightarrow>
            if payload = [] \<or> length payload > max_image_bytes then []
            else if \<not> io_paste_dir env then []
            else if \<not> io_paste_write env then []
            else if \<not> io_clip env then []
            else [PasteImage ext payload, ToMaster [CHR 0x16]]))"

definition exec_cmd :: "io_env \<Rightarrow> nat \<Rightarrow> client_cmd \<Rightarrow> server \<Rightarrow> server \<times> effect list" where
  "exec_cmd env i cmd s = (case cmd of
      CResize rows cols \<Rightarrow> render_client env i (update_client i (\<lambda>c. c\<lparr>sc_rows := rows, sc_cols := cols\<rparr>) s)
    | CScroll dy \<Rightarrow> render_client env i (update_client i (\<lambda>c. c\<lparr>sc_sr := scroll dy (sc_sr c)\<rparr>) s)
    | CImage payload code \<Rightarrow> (s, handle_image_paste env payload code s)
    | CInput d \<Rightarrow> (s, [ToMaster d]))"

fun exec_cmds :: "io_env \<Rightarrow> nat \<Rightarrow> client_cmd list \<Rightarrow> server \<Rightarrow> server \<times> effect list" where
  "exec_cmds env i [] s = (s, [])"
| "exec_cmds env i (c # cs) s =
     (let (s, e1) = exec_cmd env i c s; (s, e2) = exec_cmds env i cs s in (s, e1 @ e2))"

text \<open>One successful read of \<open>clientReader\<close>.\<close>

definition client_read :: "io_env \<Rightarrow> nat \<Rightarrow> bytes \<Rightarrow> server \<Rightarrow> server \<times> effect list" where
  "client_read env i d s = (case find_client i s of
      None \<Rightarrow> (s, [])
    | Some c \<Rightarrow>
        let (cmds, rest) = parse_client (sc_in c @ d)
        in exec_cmds env i cmds (update_client i (\<lambda>c. c\<lparr>sc_in := rest\<rparr>) s))"

section \<open>Session log\<close>

text \<open>\<open>openSessionLog\<close>: where the log goes. The file is opened, and the header written, by the caller's effect.\<close>

definition session_log_path :: "(bytes \<Rightarrow> bytes) \<Rightarrow> (bytes \<Rightarrow> bytes \<Rightarrow> bytes) \<Rightarrow> bytes option \<Rightarrow> bytes \<Rightarrow> int \<Rightarrow> bytes \<Rightarrow> bytes option" where
  "session_log_path lo join_path home logs_dir pid setting =
     (let spec = trim_space setting; low = to_lower lo spec in
      if spec = [] \<or> low = ''false'' \<or> low = ''0'' \<or> low = ''off'' \<or> low = ''no'' then None
      else if low = ''true'' \<or> low = ''1'' \<or> low = ''on'' \<or> low = ''yes''
      then Some (join_path logs_dir (''session-'' @ show_int pid @ ''.log''))
      else if has_prefix spec ''~/''
      then Some (case home of Some h \<Rightarrow> join_path h (drop 2 spec) | None \<Rightarrow> spec)
      else Some spec)"

definition log_header :: "int \<Rightarrow> bytes \<Rightarrow> bytes" where
  "log_header pid ts = [CHR 0x0A] @ ''===== claude-master session pid='' @ show_int pid @ '' start '' @ ts @ '' ====='' @ [CHR 0x0A]"

definition log_footer :: "bytes \<Rightarrow> bytes" where
  "log_footer ts = ''===== session end '' @ ts @ '' ====='' @ [CHR 0x0A]"

text \<open>\<open>opened\<close>: the directory and the file could be created.\<close>

definition open_session_log :: "bytes option \<Rightarrow> bool \<Rightarrow> int \<Rightarrow> bytes \<Rightarrow> server \<Rightarrow> server \<times> effect list" where
  "open_session_log path opened pid ts s = (case path of
      None \<Rightarrow> (s, [])
    | Some _ \<Rightarrow> if opened then (s\<lparr>sv_sess := Some new_flusher\<rparr>, [ToLog (log_header pid ts)]) else (s, []))"

definition log_lines :: "bytes list \<Rightarrow> effect list" where
  "log_lines n = (if n \<noteq> [] then [ToLog (join [CHR 0x0A] n @ [CHR 0x0A])] else [])"

definition session_log_capture :: "server \<Rightarrow> server \<times> effect list" where
  "session_log_capture s = (case sv_sess s of
      None \<Rightarrow> (s, [])
    | Some f \<Rightarrow> let (f, n) = drain (capture f (sv_vt s)) in (s\<lparr>sv_sess := Some f\<rparr>, log_lines n))"

definition trim_blank_tail :: "bytes list \<Rightarrow> bytes list" where
  "trim_blank_tail ls = rev (dropWhile (\<lambda>l. trim_right_set l '' '' = []) (rev ls))"

definition finalize_session_log :: "bytes \<Rightarrow> server \<Rightarrow> server \<times> effect list" where
  "finalize_session_log ts s = (case sv_sess s of
      None \<Rightarrow> (s, [])
    | Some f \<Rightarrow>
        let (f, n) = drain (capture f (sv_vt s));
            vis = trim_blank_tail (visible_lines (sv_vt s))
        in (s\<lparr>sv_sess := None\<rparr>,
            log_lines n @ log_lines (map (\<lambda>l. trim_right_set l '' '') vis) @ [ToLog (log_footer ts), CloseLog]))"

section \<open>Status file\<close>

definition enable_status :: "int \<Rightarrow> server \<Rightarrow> server" where
  "enable_status pid s = s\<lparr>sv_status := Some \<lparr>sw_scan = new_scanner, sw_last = 0, sw_sig = (False, 0, [], [], False),
     sw_init = True, sw_pid = pid\<rparr>\<rparr>"

definition maybe_write_status :: "int \<Rightarrow> server \<Rightarrow> server \<times> effect list" where
  "maybe_write_status now s = (case sv_status s of
      None \<Rightarrow> (s, [])
    | Some w \<Rightarrow>
        if \<not> sw_init w \<and> now - sw_last w < 5000000000 then (s, [])
        else
          let (sc, u) = extract_usage (sw_scan w) (sv_vt s);
              active = is_active (sv_vt s);
              sig = (us_has_pct u, us_pct u, us_reset_time u, us_reset_tz u, active);
              w1 = w\<lparr>sw_last := now, sw_scan := sc\<rparr>
          in if \<not> sw_init w \<and> sig = sw_sig w then (s\<lparr>sv_status := Some w1\<rparr>, [])
             else (s\<lparr>sv_status := Some (w1\<lparr>sw_init := False, sw_sig := sig\<rparr>)\<rparr>,
               [WriteStatus \<lparr>sp_pid = sw_pid w, sp_updated_at = now, sp_is_active = active,
                  sp_cm_version = (if sv_version s \<noteq> [] then Some (sv_version s) else None),
                  sp_usage = (if us_any u \<and> us_has_pct u then Some (us_pct u) else None),
                  sp_reset = (if us_any u \<and> us_reset_time u \<noteq> [] then Some (us_reset_time u, us_reset_tz u) else None)\<rparr>]))"

text \<open>How the encoded payload reaches the disk.\<close>

definition put_status :: "write_env \<Rightarrow> bytes \<Rightarrow> bytes \<Rightarrow> file_op list" where
  "put_status w path b = (if we_mkdir w then write_and_rename w path b else [])"

interpretation statuses: atomic_writer put_status
  by unfold_locales (simp add: put_status_def)

section \<open>The child's output\<close>

definition stop :: "bytes \<Rightarrow> server \<Rightarrow> server \<times> effect list" where
  "stop ts s =
     (let (s, e) = finalize_session_log ts s
      in (s\<lparr>sv_done := True\<rparr>, e @ map (\<lambda>c. CloseConn (sc_id c)) (sv_clients s)))"

definition sync_valve :: "io_env \<Rightarrow> server \<Rightarrow> server \<times> effect list" where
  "sync_valve env s =
     (let s = s\<lparr>sv_timer := False\<rparr> in
      if v_sync (sv_vt s) \<and> sv_sync_start s \<noteq> None then broadcast env s else (s, []))"

text \<open>What \<open>masterPump\<close> does with one read of \<open>d\<close> (non-empty): the new state, the effects, and whether the pump goes on to
  the error check (\<open>False\<close> after \<open>continue\<close> or \<open>return\<close>). \<open>t1\<close> is the clock at \<open>syncStart = time.Now()\<close>, \<open>t2\<close> at
  \<open>time.Since\<close>.\<close>

definition master_data :: "(rune \<Rightarrow> nat) \<Rightarrow> io_env \<Rightarrow> int \<Rightarrow> int \<Rightarrow> bytes \<Rightarrow> bytes \<Rightarrow> bool \<Rightarrow> server \<Rightarrow> (server \<times> effect list \<times> bool) option" where
  "master_data rw env t1 t2 ts d err s =
     (case feed rw (sv_vt s) d of
        None \<Rightarrow> None
      | Some v \<Rightarrow>
          let s = s\<lparr>sv_vt := v\<rparr>;
              (s, e1) = session_log_capture s;
              (s, e2) = maybe_write_status (io_now env) s
          in Some (
            if v_sync v then
              let s = (if sv_sync_start s = None then s\<lparr>sv_sync_start := Some t1, sv_timer := True\<rparr> else s) in
              if t2 - the (sv_sync_start s) < sync_hold_max then
                (if \<not> err then (s, e1 @ e2, False)
                 else let (s, e3) = broadcast env s; (s, e4) = stop ts s in (s, e1 @ e2 @ e3 @ e4, False))
              else let (s, e3) = broadcast env s in (s, e1 @ e2 @ e3, True)
            else
              let (s, e3) = broadcast env (s\<lparr>sv_sync_start := None, sv_timer := False\<rparr>) in (s, e1 @ e2 @ e3, True)))"

definition master_read :: "(rune \<Rightarrow> nat) \<Rightarrow> io_env \<Rightarrow> int \<Rightarrow> int \<Rightarrow> bytes \<Rightarrow> bytes \<Rightarrow> bool \<Rightarrow> server \<Rightarrow> (server \<times> effect list) option" where
  "master_read rw env t1 t2 ts d err s =
     (case (if d = [] then Some (s, [], True) else master_data rw env t1 t2 ts d err s) of
        None \<Rightarrow> None
      | Some (s, e1, go) \<Rightarrow>
          if go \<and> err then (let (s, e2) = stop ts s in Some (s, e1 @ e2)) else Some (s, e1))"

section \<open>Host input\<close>

definition host_nav_on :: bytes where
  "host_nav_on = [CHR 0x0D, CHR 0x0A, ESC] @ ''[33m[NAV MODE ON '' @ string_of_runes [8212, 32, 8593, 8595]
     @ ''/PgUp/PgDn/Home/End/jk '' @ string_of_runes [12391, 12525, 12464, 12434, 12473, 12463, 12525, 12540, 12523, 12290,
         21516, 12376, 12461, 12540, 12391, 35299, 38500] @ '']'' @ [ESC] @ ''[0m'' @ [CHR 0x0D, CHR 0x0A]"

definition host_nav_off :: bytes where
  "host_nav_off = [CHR 0x0D, CHR 0x0A, ESC] @ ''[33m[NAV MODE OFF]'' @ [ESC] @ ''[0m'' @ [CHR 0x0D, CHR 0x0A]"

definition pg_up :: bytes where "pg_up = ESC # ''[5~''"
definition pg_dn :: bytes where "pg_dn = ESC # ''[6~''"

definition host_scroll_dy :: "config \<Rightarrow> bytes \<Rightarrow> int option" where
  "host_scroll_dy c d =
     (let hs = cf_nav_scroll c; hp = cf_nav_page c in
      if d = ESC # ''[A'' \<or> d = ''k'' then Some (- hs)
      else if d = ESC # ''[B'' \<or> d = ''j'' then Some hs
      else if d = ESC # ''[5~'' then Some (- hp)
      else if d = ESC # ''[6~'' then Some hp
      else if d = ESC # ''[H'' \<or> d = ''g'' then Some (-1000000)
      else if d = ESC # ''[F'' \<or> d = ''G'' then Some 1000000
      else None)"

definition forward :: "bytes \<Rightarrow> effect list" where
  "forward d = (if d \<noteq> [] then [ToMaster d] else [])"

definition scroll_host :: "int \<Rightarrow> server \<Rightarrow> server \<times> effect list" where
  "scroll_host dy s = render_host (s\<lparr>sv_host_sr := scroll dy (sv_host_sr s)\<rparr>)"

definition managed_off :: "config \<Rightarrow> bool" where
  "managed_off c \<longleftrightarrow> cf_size_policy c = ''host'' \<or> (cf_host_flow c \<and> cf_size_policy c \<noteq> ''host'')"

text \<open>\<open>hostWheelLocked\<close> and \<open>hostPagekeyLocked\<close>: whether the input is consumed, the new state, the effects.\<close>

definition host_wheel :: "bytes \<Rightarrow> server \<Rightarrow> bool \<times> server \<times> effect list" where
  "host_wheel d s =
     (if \<not> cf_wheel_scroll (sv_cfg s) \<or> managed_off (sv_cfg s) then (False, s, [])
      else (case classify_wheel d of
          None \<Rightarrow> (False, s, [])
        | Some w \<Rightarrow> (True, scroll_host (w * cf_nav_wheel (sv_cfg s)) s)))"

definition host_pagekey :: "bytes \<Rightarrow> server \<Rightarrow> bool \<times> server \<times> effect list" where
  "host_pagekey d s =
     (if \<not> cf_pagekey_scroll (sv_cfg s) \<or> managed_off (sv_cfg s) then (False, s, [])
      else if d = pg_up then (True, scroll_host (- cf_nav_page (sv_cfg s)) s)
      else if d = pg_dn then (True, scroll_host (cf_nav_page (sv_cfg s)) s)
      else if \<not> sv_nav s \<and> scrollback (sv_host_sr s) > 0 \<and> is_live_reset_key d
      then (False, render_host (s\<lparr>sv_host_sr := follow_bottom (sv_host_sr s)\<rparr>))
      else (False, s, []))"

definition host_toggle :: "bytes \<Rightarrow> server \<Rightarrow> server \<times> effect list" where
  "host_toggle d s =
     (let nav = \<not> sv_nav s;
          s = s\<lparr>sv_nav := nav, sv_host_sr := (if nav then sv_host_sr s else follow_bottom (sv_host_sr s))\<rparr>;
          e1 = (if sv_host s then [ToHost (if nav then host_nav_on else host_nav_off)] else []);
          rest = remove_all d (cf_nav_key (sv_cfg s))
      in if rest \<noteq> [] \<and> \<not> nav then (s, e1 @ forward rest)
         else if nav then (let (s, e2) = render_host s in (s, e1 @ e2))
         else (s, e1))"

definition handle_host_input :: "bytes \<Rightarrow> server \<Rightarrow> server \<times> effect list" where
  "handle_host_input d s =
     (if d = [] then (s, [])
      else
        let raw = (cf_size_policy (sv_cfg s) = ''host''); flow = (cf_host_flow (sv_cfg s) \<and> \<not> raw) in
        if raw \<or> flow then (s, forward d)
        else
          let (used, s, e1) = host_wheel d s in
          if used then (s, e1)
          else
            let (used, s, e2) = host_pagekey d s in
            if used then (s, e1 @ e2)
            else if contains_sub d (cf_nav_key (sv_cfg s)) then
              (let (s, e3) = host_toggle d s in (s, e1 @ e2 @ e3))
            else if sv_nav s then
              (case host_scroll_dy (sv_cfg s) d of
                Some dy \<Rightarrow> let (s, e3) = scroll_host dy s in (s, e1 @ e2 @ e3)
              | None \<Rightarrow> (s, e1 @ e2))
            else (s, e1 @ e2 @ forward d))"

section \<open>Process\<close>

text \<open>\<open>Proxy.Setsize\<close> records the size for the child; the screen model keeps its own.\<close>

record proxy =
  px_vt :: vt
  px_cols :: int
  px_rows :: int

definition setsize :: "int \<Rightarrow> int \<Rightarrow> proxy \<Rightarrow> proxy" where
  "setsize cols rows p = p\<lparr>px_cols := cols, px_rows := rows\<rparr>"

text \<open>\<open>PumpToVT\<close>: the reads (bytes, and the error that came with them, if any) until an error; a closed child ends it without
  error. The result is the screen and the error returned.\<close>

datatype read_err = EOF | Closed | OtherErr

fun pump_to_vt :: "(rune \<Rightarrow> nat) \<Rightarrow> vt \<Rightarrow> (bytes \<times> read_err option) list \<Rightarrow> (vt \<times> read_err option) option" where
  "pump_to_vt rw v [] = Some (v, None)"
| "pump_to_vt rw v ((d, e) # rs) =
     do { v \<leftarrow> (if d \<noteq> [] then feed rw v d else Some v);
          (case e of
             None \<Rightarrow> pump_to_vt rw v rs
           | Some err \<Rightarrow> Some (v, if err = OtherErr then Some err else None)) }"

text \<open>The exit code \<open>RunProxy\<close> returns: that of the child, 1 for a wait error without a code.\<close>

definition exit_code :: "int option option \<Rightarrow> int" where
  "exit_code wait_err = (case wait_err of None \<Rightarrow> 0 | Some (Some c) \<Rightarrow> c | Some None \<Rightarrow> 1)"

text \<open>The initial size: the host's if both dimensions are positive.\<close>

definition initial_size :: "(int \<times> int) option \<Rightarrow> int \<times> int" where
  "initial_size w = (case w of Some (c, r) \<Rightarrow> if c > 0 \<and> r > 0 then (c, r) else (80, 24) | None \<Rightarrow> (80, 24))"

end
