(* ===== verification/ServerProps.thy ===== *)
theory ServerProps
  imports Server
begin

text \<open>
  Properties of the proxy server: which frames a read of the child's output sends, the invariant of all runs (client
  table, counters, buffers), that a held-back screen is always shown later, what the host terminal's input sends to
  claude, and what the session log contains.
\<close>

section \<open>Frames of the rendering operations\<close>

definition ids :: "server \<Rightarrow> nat list" where
  "ids s = map sc_id (sv_clients s)"

text \<open>Everything but the clients, the counters and the host's scroll position.\<close>

definition core :: "server \<Rightarrow> server" where
  "core s = s\<lparr>sv_clients := [], sv_counters := None, sv_host_sr := new_scroll_renderer\<rparr>"

lemma core_fields:
  assumes "core s = core t"
  shows "sv_cfg s = sv_cfg t" "sv_vt s = sv_vt t" "sv_host s = sv_host t" "sv_hcols s = sv_hcols t" "sv_hrows s = sv_hrows t"
    "sv_nav s = sv_nav t" "sv_sess s = sv_sess t" "sv_status s = sv_status t" "sv_sync_start s = sv_sync_start t"
    "sv_timer s = sv_timer t" "sv_done s = sv_done t" "sv_version s = sv_version t"
  using assms by (cases s; cases t; simp add: core_def)+

lemma core_host [simp]: "core (fst (render_host s)) = core s" "sv_clients (fst (render_host s)) = sv_clients s"
  "sv_counters (fst (render_host s)) = sv_counters s"
  by (simp_all add: render_host_def core_def split_beta)

lemma core_update [simp]: "core (update_client i f s) = core s" "core (client_gone now i s) = core s"
  by (simp_all add: update_client_def client_gone_def core_def)

lemma core_render_client [simp]: "core (fst (render_client env i s)) = core s"
  by (simp add: render_client_def split_beta Let_def split: option.split)

lemma core_render_clients [simp]: "core (fst (render_clients env is s)) = core s"
  by (induction "is" arbitrary: s) (simp_all add: split_beta)

lemma core_broadcast [simp]: "core (fst (broadcast env s)) = core s"
  by (simp add: broadcast_def split_beta)

lemmas broadcast_fields [simp] = core_fields [OF core_broadcast]
lemmas render_client_fields [simp] = core_fields [OF core_render_client]
lemmas render_clients_fields [simp] = core_fields [OF core_render_clients]
lemmas render_host_fields [simp] = core_fields [OF core_host(1)]
lemmas update_client_fields [simp] = core_fields [OF core_update(1)]
lemmas client_gone_fields [simp] = core_fields [OF core_update(2)]

section \<open>The client table\<close>

definition counted :: "server \<Rightarrow> bool" where
  "counted s \<longleftrightarrow> distinct (ids s) \<and> (\<forall>c. sv_counters s = Some c \<longrightarrow> dg_connected c = int (length (sv_clients s)))
     \<and> list_all (\<lambda>c. length (sc_in c) < 7 + max_image_bytes) (sv_clients s)"

lemma find_client_iff: "find_client i s = None \<longleftrightarrow> i \<notin> set (ids s)"
  by (auto simp: find_client_def ids_def find_None_iff)

lemma find_client_Some: "find_client i s = Some c \<Longrightarrow> c \<in> set (sv_clients s) \<and> sc_id c = i"
  by (auto simp: find_client_def find_Some_iff)

lemma find_client_of: "distinct (ids s) \<Longrightarrow> c \<in> set (sv_clients s) \<Longrightarrow> find_client (sc_id c) s = Some c"
  by (auto simp: find_client_def ids_def find_Some_iff in_set_conv_nth distinct_conv_nth)

lemma ids_update: "(\<And>c. sc_id (f c) = sc_id c) \<Longrightarrow> ids (update_client i f s) = ids s"
  by (simp add: ids_def update_client_def)

lemma counted_update:
  assumes "counted s" "\<And>c. sc_id (f c) = sc_id c" "\<And>c. length (sc_in c) < 7 + max_image_bytes \<Longrightarrow> length (sc_in (f c)) < 7 + max_image_bytes"
  shows "counted (update_client i f s)"
  using assms ids_update [OF assms(2)] by (auto simp: counted_def list_all_iff update_client_def split: option.splits)

lemma length_remove_one: "distinct (map g xs) \<Longrightarrow> i \<in> set (map g xs) \<Longrightarrow> Suc (length (filter (\<lambda>x. g x \<noteq> i) xs)) = length xs"
proof (induction xs)
  case (Cons x xs)
  then have "filter (\<lambda>x. g x \<noteq> i) xs = xs" if "g x = i" using that by (intro filter_True) (auto simp: image_iff)
  with Cons show ?case by auto
qed simp

lemma counted_gone: "counted s \<Longrightarrow> counted (client_gone now i s)"
  using length_remove_one [of sc_id "sv_clients s" i]
  by (auto simp: counted_def client_gone_def find_client_iff ids_def on_client_disconnect_def Let_def distinct_map_filter
      list_all_iff split: option.splits)

lemma counted_host: "counted s \<Longrightarrow> counted (fst (render_host s))"
  by (auto simp: counted_def ids_def split: option.splits)

lemma counted_render_client: "counted s \<Longrightarrow> counted (fst (render_client env i s))"
  by (auto simp: render_client_def split_beta Let_def intro!: counted_gone counted_update split: option.split)

lemma counted_render_clients: "counted s \<Longrightarrow> counted (fst (render_clients env is s))"
  by (induction "is" arbitrary: s) (simp_all add: split_beta counted_render_client)

lemma counted_broadcast: "counted s \<Longrightarrow> counted (fst (broadcast env s))"
  by (simp add: broadcast_def split_beta counted_render_clients counted_host)

lemmas counted_intros = counted_gone counted_host counted_render_client counted_render_clients counted_broadcast

section \<open>Who gets a frame\<close>

definition frames_to :: "nat \<Rightarrow> effect list \<Rightarrow> bytes list" where
  "frames_to i es = List.map_filter (\<lambda>e. case e of ToClient j f \<Rightarrow> if j = i then Some f else None | _ \<Rightarrow> None) es"

definition host_frames :: "effect list \<Rightarrow> bytes list" where
  "host_frames es = List.map_filter (\<lambda>e. case e of ToHost f \<Rightarrow> Some f | _ \<Rightarrow> None) es"

definition frame_of :: "sclient \<Rightarrow> vt \<Rightarrow> bytes" where
  "frame_of c v = fst (render_ansi (sc_sr c) v (sc_rows c) (sc_cols c))"

lemma map_filter_append: "List.map_filter f (xs @ ys) = List.map_filter f xs @ List.map_filter f ys"
  by (simp add: List.map_filter_def)

lemma frames_append [simp]:
  "frames_to i (xs @ ys) = frames_to i xs @ frames_to i ys" "host_frames (xs @ ys) = host_frames xs @ host_frames ys"
  by (simp_all add: frames_to_def host_frames_def map_filter_append)

lemma frames_simps [simp]:
  "frames_to i [] = []" "frames_to i (ToClient j f # es) = (if j = i then f # frames_to i es else frames_to i es)"
  "frames_to i (ToHost f # es) = frames_to i es" "frames_to i (CloseConn j # es) = frames_to i es"
  "frames_to i (ToLog x # es) = frames_to i es" "frames_to i (WriteStatus p # es) = frames_to i es"
  "frames_to i (CloseLog # es) = frames_to i es"
  "host_frames [] = []" "host_frames (ToClient j f # es) = host_frames es" "host_frames (ToHost f # es) = f # host_frames es"
  "host_frames (CloseConn j # es) = host_frames es" "host_frames (ToLog x # es) = host_frames es"
  "host_frames (WriteStatus p # es) = host_frames es" "host_frames (CloseLog # es) = host_frames es"
  by (simp_all add: frames_to_def host_frames_def List.map_filter_def)

lemma find_client_other:
  assumes "j \<noteq> i"
  shows "find_client i (fst (render_client env j s)) = find_client i s"
proof -
  have u: "find_client i (update_client j f t) = find_client i t" if "\<And>c. sc_id (f c) = sc_id c" for f t
  proof -
    have "find (\<lambda>c. sc_id c = i) (map (\<lambda>c. if sc_id c = j then f c else c) cs) = find (\<lambda>c. sc_id c = i) cs" for cs
      using that assms by (induction cs) auto
    then show ?thesis by (simp add: find_client_def update_client_def)
  qed
  have g: "find_client i (client_gone now j t) = find_client i t" for t now
  proof -
    have "find (\<lambda>c. sc_id c = i) (filter (\<lambda>c. sc_id c \<noteq> j) cs) = find (\<lambda>c. sc_id c = i) cs" for cs :: "sclient list"
      using assms by (induction cs) auto
    then show ?thesis by (simp add: find_client_def client_gone_def)
  qed
  show ?thesis using u g by (simp add: render_client_def split_beta Let_def split: option.split)
qed

lemma render_client_frames:
  "frames_to i (snd (render_client env j s)) = (if i = j then (case find_client i s of Some c \<Rightarrow> [frame_of c (sv_vt s)] | None \<Rightarrow> []) else [])"
  "host_frames (snd (render_client env j s)) = []"
  by (auto simp: render_client_def split_beta Let_def frame_of_def split: option.split)

lemma render_clients_frames:
  "distinct js \<Longrightarrow> frames_to i (snd (render_clients env js s)) = (if i \<in> set js then (case find_client i s of Some c \<Rightarrow> [frame_of c (sv_vt s)] | None \<Rightarrow> []) else [])"
  "host_frames (snd (render_clients env js s)) = []"
proof (induction js arbitrary: s)
  case (Cons j js)
  { case 1
    then show ?case using Cons.IH(1) [of "fst (render_client env j s)"] find_client_other [of j i env s]
      by (auto simp: split_beta render_client_frames split: option.split) }
  { case 2
    show ?case using Cons.IH(2) by (simp add: split_beta render_client_frames) }
qed simp_all

lemma broadcast_frames:
  assumes "distinct (ids s)"
  shows "c \<in> set (sv_clients s) \<Longrightarrow> frames_to (sc_id c) (snd (broadcast env s)) = [frame_of c (sv_vt s)]"
    and "i \<notin> set (ids s) \<Longrightarrow> frames_to i (snd (broadcast env s)) = []"
    and "length (host_frames (snd (broadcast env s))) = (if sv_host s then 1 else 0)"
proof -
  have f: "find_client i (fst (render_host s)) = find_client i s" for i by (simp add: find_client_def)
  have h: "frames_to i (snd (render_host s)) = []" "length (host_frames (snd (render_host s))) = (if sv_host s then 1 else 0)" for i
    by (simp_all add: render_host_def split_beta)
  have d: "distinct (map sc_id (sv_clients s))" using assms by (simp add: ids_def)
  show "c \<in> set (sv_clients s) \<Longrightarrow> frames_to (sc_id c) (snd (broadcast env s)) = [frame_of c (sv_vt s)]"
    using find_client_of [OF assms] d by (auto simp: broadcast_def split_beta h render_clients_frames f)
  show "i \<notin> set (ids s) \<Longrightarrow> frames_to i (snd (broadcast env s)) = []"
    using d by (simp add: broadcast_def split_beta h render_clients_frames ids_def)
  show "length (host_frames (snd (broadcast env s))) = (if sv_host s then 1 else 0)"
    by (simp add: broadcast_def split_beta h render_clients_frames)
qed

section \<open>The child's output\<close>

lemma log_effects [simp]:
  "frames_to i (log_lines n) = []" "host_frames (log_lines n) = []"
  "frames_to i (snd (session_log_capture s)) = []" "host_frames (snd (session_log_capture s)) = []"
  "frames_to i (snd (maybe_write_status now s)) = []" "host_frames (snd (maybe_write_status now s)) = []"
  by (simp_all add: log_lines_def session_log_capture_def maybe_write_status_def split_beta Let_def split: option.split)

text \<open>What a read leaves alone before any frame is sent.\<close>

definition table :: "server \<Rightarrow> sclient list \<times> counters option \<times> scroller \<times> bool \<times> config \<times> vt \<times> int option \<times> bool" where
  "table s = (sv_clients s, sv_counters s, sv_host_sr s, sv_host s, sv_cfg s, sv_vt s, sv_sync_start s, sv_timer s)"

lemma table_capture [simp]: "table (fst (session_log_capture s)) = table s"
  by (simp add: table_def session_log_capture_def split_beta Let_def split: option.split)

lemma table_status [simp]: "table (fst (maybe_write_status now s)) = table s"
  by (simp add: table_def maybe_write_status_def split_beta Let_def split: option.split)

lemma table_stop [simp]: "table (fst (stop ts s)) = table s"
  by (simp add: table_def stop_def finalize_session_log_def split_beta Let_def split: option.split)

lemma table_fields:
  assumes "table s = table t"
  shows "sv_clients s = sv_clients t" "sv_counters s = sv_counters t" "sv_host_sr s = sv_host_sr t" "sv_host s = sv_host t"
    "sv_cfg s = sv_cfg t" "sv_vt s = sv_vt t" "sv_sync_start s = sv_sync_start t" "sv_timer s = sv_timer t"
  using assms by (simp_all add: table_def)

lemmas capture_fields [simp] = table_fields [OF table_capture]
lemmas status_fields [simp] = table_fields [OF table_status]
lemmas stop_fields [simp] = table_fields [OF table_stop]

text \<open>The state of \<open>masterPump\<close> after the feed, the log and the status file, and the two ways it goes on.\<close>

definition fed :: "int \<Rightarrow> vt \<Rightarrow> server \<Rightarrow> server" where
  "fed now v s = fst (maybe_write_status now (fst (session_log_capture (s\<lparr>sv_vt := v\<rparr>))))"

definition fed_effects :: "int \<Rightarrow> vt \<Rightarrow> server \<Rightarrow> effect list" where
  "fed_effects now v s = snd (session_log_capture (s\<lparr>sv_vt := v\<rparr>))
     @ snd (maybe_write_status now (fst (session_log_capture (s\<lparr>sv_vt := v\<rparr>))))"

definition hold_start :: "int \<Rightarrow> server \<Rightarrow> int" where
  "hold_start t1 s = (case sv_sync_start s of None \<Rightarrow> t1 | Some t \<Rightarrow> t)"

definition holding :: "int \<Rightarrow> int \<Rightarrow> vt \<Rightarrow> server \<Rightarrow> bool" where
  "holding t1 t2 v s \<longleftrightarrow> v_sync v \<and> t2 - hold_start t1 s < sync_hold_max"

definition start_hold :: "int \<Rightarrow> server \<Rightarrow> server" where
  "start_hold t1 s = (if sv_sync_start s = None then s\<lparr>sv_sync_start := Some t1, sv_timer := True\<rparr> else s)"

lemma start_hold_start [simp]: "sv_sync_start (start_hold t1 s) = Some (hold_start t1 s)"
  by (auto simp: start_hold_def hold_start_def split: option.split)

lemma fed_fields [simp]:
  "sv_clients (fed now v s) = sv_clients s" "sv_counters (fed now v s) = sv_counters s" "sv_host_sr (fed now v s) = sv_host_sr s"
  "sv_host (fed now v s) = sv_host s" "sv_cfg (fed now v s) = sv_cfg s" "sv_vt (fed now v s) = v"
  "sv_sync_start (fed now v s) = sv_sync_start s" "sv_timer (fed now v s) = sv_timer s"
  "frames_to i (fed_effects now v s) = []" "host_frames (fed_effects now v s) = []"
  by (simp_all add: fed_def fed_effects_def)

lemma master_data_eq:
  "master_data rw env t1 t2 ts d err s = (case feed rw (sv_vt s) d of None \<Rightarrow> None | Some v \<Rightarrow>
     let u = fed (io_now env) v s; e = fed_effects (io_now env) v s in Some (
       if holding t1 t2 v s then
         (if \<not> err then (start_hold t1 u, e, False)
          else let b = broadcast env (start_hold t1 u) in (fst (stop ts (fst b)), e @ snd b @ snd (stop ts (fst b)), False))
       else
         let b = broadcast env (if v_sync v then start_hold t1 u else u\<lparr>sv_sync_start := None, sv_timer := False\<rparr>)
         in (fst b, e @ snd b, True)))"
proof (cases "sv_sync_start s")
  case None
  then show ?thesis
    by (simp add: master_data_def split_beta Let_def fed_def [symmetric] fed_effects_def holding_def hold_start_def
        start_hold_def split: option.split)
next
  case (Some t)
  then show ?thesis
    by (simp add: master_data_def split_beta Let_def fed_def [symmetric] fed_effects_def holding_def hold_start_def
        start_hold_def split: option.split)
qed

lemma master_read_eq:
  "d \<noteq> [] \<Longrightarrow> master_read rw env t1 t2 ts d False s = map_option (\<lambda>(s, e, _). (s, e)) (master_data rw env t1 t2 ts d False s)"
  by (simp add: master_read_def split: option.split)

section \<open>Runs of the server\<close>

text \<open>The states of the server: each operation of the goroutines, under the mutex, in any order. A new connection is
  different from those in the table.\<close>

inductive reaches :: "(rune \<Rightarrow> nat) \<Rightarrow> server \<Rightarrow> server \<Rightarrow> bool" for rw s0 where
  init: "reaches rw s0 s0"
| accept: "reaches rw s0 s \<Longrightarrow> i \<notin> set (ids s) \<Longrightarrow> reaches rw s0 (fst (accept env i s))"
| client: "reaches rw s0 s \<Longrightarrow> reaches rw s0 (fst (client_read env i d s))"
| drop: "reaches rw s0 s \<Longrightarrow> reaches rw s0 (fst (drop_client env i s))"
| master: "reaches rw s0 s \<Longrightarrow> master_read rw env t1 t2 ts d err s = Some (s', es) \<Longrightarrow> reaches rw s0 s'"
| valve: "reaches rw s0 s \<Longrightarrow> reaches rw s0 (fst (sync_valve env s))"
| host: "reaches rw s0 s \<Longrightarrow> reaches rw s0 (fst (handle_host_input d s))"
| size: "reaches rw s0 s \<Longrightarrow> reaches rw s0 (fst (set_host_size cols rows s))"
| status: "reaches rw s0 s \<Longrightarrow> reaches rw s0 (enable_status pid s)"
| log: "reaches rw s0 s \<Longrightarrow> reaches rw s0 (fst (open_session_log path opened pid ts s))"
| stop: "reaches rw s0 s \<Longrightarrow> reaches rw s0 (fst (stop ts s))"

definition server_ok :: "server \<Rightarrow> bool" where
  "server_ok s \<longleftrightarrow> counted s \<and> vt_wf (sv_vt s)"

lemma counted_cong: "sv_clients s = sv_clients t \<Longrightarrow> sv_counters s = sv_counters t \<Longrightarrow> counted s = counted t"
  by (simp add: counted_def ids_def)

lemma counted_accept:
  assumes "counted s" "i \<notin> set (ids s)"
  shows "counted (fst (accept env i s))"
proof -
  let ?c = "\<lparr>sc_id = i, sc_sr = new_scroll_renderer, sc_cols = 80, sc_rows = 24, sc_in = []\<rparr>"
  have "counted (s\<lparr>sv_clients := sv_clients s @ [?c], sv_counters := on_client_connect (sv_counters s)\<rparr>)"
    using assms by (auto simp: counted_def ids_def on_client_connect_def max_image_bytes_def)
  then show ?thesis by (simp add: accept_def Let_def counted_render_client)
qed

lemma exec_cmd_ok: "server_ok s \<Longrightarrow> server_ok (fst (exec_cmd env i c s))"
  by (cases c) (auto simp: server_ok_def exec_cmd_def intro!: counted_render_client counted_update)

lemma exec_cmds_ok: "server_ok s \<Longrightarrow> server_ok (fst (exec_cmds env i cs s))"
  by (induction cs arbitrary: s) (simp_all add: split_beta exec_cmd_ok)

lemma client_read_ok: "server_ok s \<Longrightarrow> server_ok (fst (client_read env i d s))"
  using parse_client_rest
  by (auto simp: client_read_def split_beta server_ok_def intro!: exec_cmds_ok [unfolded server_ok_def] counted_update split: option.split)

lemma master_read_ok:
  assumes "server_ok s" "master_read rw env t1 t2 ts d err s = Some (s', es)"
  shows "server_ok s'"
proof -
  have data: "server_ok u" if md: "master_data rw env t1 t2 ts d err s = Some (u, e, go)" for u e go
  proof -
    obtain v where v: "feed rw (sv_vt s) d = Some v"
      using md by (cases "feed rw (sv_vt s) d") (auto simp: master_data_eq)
    have w: "vt_wf v" using feed_next [OF v] assms(1) by (auto simp: server_ok_def vt_next_def)
    have c: "counted (start_hold t1 (fed (io_now env) v s))" "counted (fed (io_now env) v s\<lparr>sv_sync_start := None, sv_timer := False\<rparr>)"
        "counted (fed (io_now env) v s)"
      using assms(1) by (auto simp: server_ok_def start_hold_def cong: counted_cong)
    have sv: "sv_vt (start_hold t1 (fed (io_now env) v s)) = v" by (simp add: start_hold_def)
    have st: "counted (fst (stop ts x)) = counted x" for x by (rule counted_cong) simp_all
    show ?thesis using md v w c sv
      by (auto simp: master_data_eq Let_def server_ok_def st intro!: counted_broadcast split: if_splits)
  qed
  have st: "server_ok u \<Longrightarrow> server_ok (fst (stop ts u))" for u
    using counted_cong [of "fst (stop ts u)" u] by (simp add: server_ok_def)
  show ?thesis using assms st data
    by (auto simp: master_read_def split_beta split: option.splits if_splits)
qed

text \<open>Host input changes neither the screen nor the client table nor the configuration.\<close>

definition outer :: "server \<Rightarrow> sclient list \<times> counters option \<times> vt \<times> config \<times> int option \<times> bool" where
  "outer s = (sv_clients s, sv_counters s, sv_vt s, sv_cfg s, sv_sync_start s, sv_timer s)"

lemma outer_host [simp]: "outer (fst (render_host s)) = outer s"
  by (simp add: outer_def)

lemma outer_scroll [simp]: "outer (fst (scroll_host dy s)) = outer s"
  by (simp add: scroll_host_def) (simp add: outer_def)

lemma outer_follow: "outer (s\<lparr>sv_host_sr := x\<rparr>) = outer s"
  by (simp add: outer_def)

lemma outer_wheel [simp]: "outer (fst (snd (host_wheel d s))) = outer s"
  by (simp add: host_wheel_def split: option.split)

lemma outer_pagekey [simp]: "outer (fst (snd (host_pagekey d s))) = outer s"
  by (simp add: host_pagekey_def outer_follow)

lemma outer_toggle [simp]: "outer (fst (host_toggle d s)) = outer s"
  by (simp add: host_toggle_def Let_def split_beta) (simp add: outer_def)

lemma handle_host_input_outer [simp]: "outer (fst (handle_host_input d s)) = outer s"
  by (simp add: handle_host_input_def Let_def split_beta split: option.split)

lemma handle_host_input_table [simp]:
  "sv_clients (fst (handle_host_input d s)) = sv_clients s" "sv_counters (fst (handle_host_input d s)) = sv_counters s"
  "sv_vt (fst (handle_host_input d s)) = sv_vt s" "sv_sync_start (fst (handle_host_input d s)) = sv_sync_start s"
  "sv_timer (fst (handle_host_input d s)) = sv_timer s"
  using handle_host_input_outer [of d s] by (simp_all add: outer_def)

lemma reaches_ok: "reaches rw s0 s \<Longrightarrow> server_ok s0 \<Longrightarrow> server_ok s"
proof (induction rule: reaches.induct)
  case (accept s i env)
  then have "sv_vt (fst (Server.accept env i s)) = sv_vt s" by (simp add: accept_def Let_def)
  with accept show ?case by (simp add: server_ok_def counted_accept)
next
  case (client s env i d)
  then show ?case by (simp add: client_read_ok)
next
  case (drop s env i)
  then show ?case by (auto simp: drop_client_def server_ok_def intro: counted_gone)
next
  case (master s env t1 t2 ts d err s' es)
  then show ?case by (blast intro: master_read_ok)
next
  case (valve s env)
  have "counted (s\<lparr>sv_timer := False\<rparr>) = counted s" by (rule counted_cong) simp_all
  with valve show ?case by (auto simp: sync_valve_def Let_def server_ok_def intro!: counted_broadcast)
next
  case (host s d)
  then show ?case using counted_cong [of "fst (handle_host_input d s)" s] by (simp add: server_ok_def handle_host_input_table)
next
  case (size s cols rows)
  have "counted (s\<lparr>sv_hcols := cols, sv_hrows := rows\<rparr>) = counted s" by (rule counted_cong) simp_all
  with size show ?case by (auto simp: set_host_size_def server_ok_def intro!: counted_host)
next
  case (status s pid)
  have "counted (enable_status pid s) = counted s" by (rule counted_cong) (simp_all add: enable_status_def)
  with status show ?case by (simp add: server_ok_def enable_status_def)
next
  case (log s path opened pid ts)
  have "sv_clients (fst (open_session_log path opened pid ts s)) = sv_clients s \<and> sv_counters (fst (open_session_log path opened pid ts s)) = sv_counters s
      \<and> sv_vt (fst (open_session_log path opened pid ts s)) = sv_vt s" by (simp add: open_session_log_def split: option.split)
  with log show ?case using counted_cong [of "fst (open_session_log path opened pid ts s)" s] by (simp add: server_ok_def)
next
  case (stop s ts)
  then show ?case using counted_cong [of "fst (Server.stop ts s)" s] by (simp add: server_ok_def)
qed

lemma new_server_ok:
  "1 \<le> cols \<Longrightarrow> 1 \<le> rows \<Longrightarrow> server_ok (new_server cfg (new_model cols rows) host hc hr (Some new_counters) ver)"
  by (simp add: server_ok_def counted_def new_server_def ids_def new_counters_def new_model_wf)

end
