(* ===== verification/HostInput.thy ===== *)
theory HostInput
  imports ServerProps
begin

text \<open>
  The input handler of the host terminal against the abstract key discipline: nav-mode is one bit, and an input scrolls,
  toggles the mode, or is typed into claude. The socket client is compared with the same discipline in \<open>SocketClient\<close>.
\<close>

section \<open>What the host's keys send to claude\<close>

definition typed :: "effect list \<Rightarrow> bytes" where
  "typed es = concat (map (\<lambda>e. case e of ToMaster d \<Rightarrow> d | _ \<Rightarrow> []) es)"

lemma typed_simps [simp]:
  "typed [] = []" "typed (xs @ ys) = typed xs @ typed ys" "typed (ToMaster d # es) = d @ typed es" "typed (ToHost f # es) = typed es"
  by (simp_all add: typed_def)

lemma typed_ops [simp]:
  "typed (snd (render_host s)) = []" "typed (snd (scroll_host dy s)) = []" "typed (forward d) = d"
  "typed (snd (snd (host_wheel d s))) = []" "typed (snd (snd (host_pagekey d s))) = []"
  by (simp_all add: render_host_def scroll_host_def forward_def host_wheel_def host_pagekey_def split_beta split: option.split)

text \<open>The abstract key discipline: nav-mode is one bit; an input is used for scrolling, toggles the mode, or is passed on.\<close>

definition scroll_key :: "config \<Rightarrow> bytes \<Rightarrow> bool" where
  "scroll_key c d \<longleftrightarrow> cf_wheel_scroll c \<and> classify_wheel d \<noteq> None \<or> cf_pagekey_scroll c \<and> (d = pg_up \<or> d = pg_dn)"

definition key_step :: "config \<Rightarrow> bool \<Rightarrow> bytes \<Rightarrow> bool \<times> bytes" where
  "key_step c nav d =
     (if scroll_key c d then (nav, [])
      else if contains_sub d (cf_nav_key c) then (\<not> nav, if nav then remove_all d (cf_nav_key c) else [])
      else (nav, if nav then [] else d))"

definition host_step :: "config \<Rightarrow> bool \<Rightarrow> bytes \<Rightarrow> bool \<times> bytes" where
  "host_step c nav d = (if d = [] then (nav, []) else if managed_off c then (nav, d) else key_step c nav d)"

lemma nav_ops [simp]:
  "sv_nav (fst (scroll_host dy s)) = sv_nav s" "sv_nav (fst (snd (host_wheel d s))) = sv_nav s"
  "sv_nav (fst (snd (host_pagekey d s))) = sv_nav s" "sv_nav (fst (host_toggle d s)) = (\<not> sv_nav s)"
  by (simp_all add: scroll_host_def host_wheel_def host_pagekey_def host_toggle_def Let_def split_beta split: option.split)

lemma cfg_ops [simp]:
  "sv_cfg (fst (snd (host_wheel d s))) = sv_cfg s" "sv_cfg (fst (snd (host_pagekey d s))) = sv_cfg s"
  "sv_cfg (fst (handle_host_input d s)) = sv_cfg s"
  using outer_wheel [of d s] outer_pagekey [of d s] handle_host_input_outer [of d s] by (simp_all add: outer_def)

lemma toggle_typed: "typed (snd (host_toggle d s)) = (if sv_nav s then remove_all d (cf_nav_key (sv_cfg s)) else [])"
  by (simp add: host_toggle_def Let_def split_beta)

lemma wheel_used: "fst (host_wheel d s) \<longleftrightarrow> cf_wheel_scroll (sv_cfg s) \<and> \<not> managed_off (sv_cfg s) \<and> classify_wheel d \<noteq> None"
  by (simp add: host_wheel_def split: option.split)

lemma pagekey_used: "fst (host_pagekey d s) \<longleftrightarrow> cf_pagekey_scroll (sv_cfg s) \<and> \<not> managed_off (sv_cfg s) \<and> (d = pg_up \<or> d = pg_dn)"
  by (simp add: host_pagekey_def)

lemma handle_host_input_cases:
  "handle_host_input d s =
     (if d = [] then (s, []) else if managed_off (sv_cfg s) then (s, forward d)
      else let w = host_wheel d s; p = host_pagekey d (fst (snd w)) in
        if fst w then snd w
        else if fst p then (fst (snd p), snd (snd w) @ snd (snd p))
        else if contains_sub d (cf_nav_key (sv_cfg s)) then
          (fst (host_toggle d (fst (snd p))), snd (snd w) @ snd (snd p) @ snd (host_toggle d (fst (snd p))))
        else if sv_nav s then (case host_scroll_dy (sv_cfg s) d of
            Some dy \<Rightarrow> (fst (scroll_host dy (fst (snd p))), snd (snd w) @ snd (snd p) @ snd (scroll_host dy (fst (snd p))))
          | None \<Rightarrow> (fst (snd p), snd (snd w) @ snd (snd p)))
        else (fst (snd p), snd (snd w) @ snd (snd p) @ forward d))"
  by (simp add: handle_host_input_def managed_off_def Let_def split_beta split: option.split)

lemma host_input_step:
  "(sv_nav (fst (handle_host_input d s)), typed (snd (handle_host_input d s))) = host_step (sv_cfg s) (sv_nav s) d"
proof -
  consider (off) "d = [] \<or> managed_off (sv_cfg s)" | (scroll) "d \<noteq> []" "\<not> managed_off (sv_cfg s)" "scroll_key (sv_cfg s) d"
    | (key) "d \<noteq> []" "\<not> managed_off (sv_cfg s)" "\<not> scroll_key (sv_cfg s) d" by blast
  then show ?thesis
  proof cases
    case off
    then show ?thesis by (auto simp: handle_host_input_cases host_step_def)
  next
    case scroll
    then show ?thesis
      by (auto simp: handle_host_input_cases host_step_def key_step_def Let_def wheel_used pagekey_used scroll_key_def)
  next
    case key
    then have u: "\<not> fst (host_wheel d s)" "\<not> fst (host_pagekey d (fst (snd (host_wheel d s))))"
      by (auto simp: wheel_used pagekey_used scroll_key_def)
    show ?thesis using key u
      by (simp add: handle_host_input_cases host_step_def key_step_def Let_def toggle_typed split: option.split)
  qed
qed

fun host_inputs :: "bytes list \<Rightarrow> server \<Rightarrow> server \<times> effect list" where
  "host_inputs [] s = (s, [])"
| "host_inputs (d # ds) s = (let (s, e1) = handle_host_input d s; (s, e2) = host_inputs ds s in (s, e1 @ e2))"

fun key_run :: "config \<Rightarrow> bool \<Rightarrow> bytes list \<Rightarrow> bool \<times> bytes" where
  "key_run c nav [] = (nav, [])"
| "key_run c nav (d # ds) = (let (nav, x) = host_step c nav d; (nav, y) = key_run c nav ds in (nav, x @ y))"

section \<open>The contract of a keyboard handler\<close>

text \<open>
  A handler of keyboard reads, under one configuration: \<open>nav\<close> shows the mode in its state, \<open>sent\<close> what its effects type into
  claude, \<open>key\<close> the bytes of a read. It takes the discipline's step on every read it is meant for (\<open>fine\<close>), from every state that
  is set up for the configuration.
\<close>

locale key_reader =
  fixes c :: config and handle :: "'i \<Rightarrow> 's \<Rightarrow> 's \<times> 'e list" and handle_all :: "'i list \<Rightarrow> 's \<Rightarrow> 's \<times> 'e list"
    and nav :: "'s \<Rightarrow> bool" and sent :: "'e list \<Rightarrow> bytes" and key :: "'i \<Rightarrow> bytes"
    and fine :: "'i \<Rightarrow> bool" and set_up :: "'s \<Rightarrow> bool"
  assumes sent_Nil: "sent [] = []"
    and sent_append: "sent (es @ es') = sent es @ sent es'"
    and all_Nil: "handle_all [] s = (s, [])"
    and all_Cons: "handle_all (i # is) s =
      (fst (handle_all is (fst (handle i s))), snd (handle i s) @ snd (handle_all is (fst (handle i s))))"
    and obeys: "set_up s \<Longrightarrow> fine i \<Longrightarrow> (nav (fst (handle i s)), sent (snd (handle i s))) = host_step c (nav s) (key i)"
    and stays: "set_up s \<Longrightarrow> fine i \<Longrightarrow> set_up (fst (handle i s))"
begin

lemma runs:
  "set_up s \<Longrightarrow> list_all fine is \<Longrightarrow>
    (nav (fst (handle_all is s)), sent (snd (handle_all is s))) = key_run c (nav s) (map key is)"
proof (induction "is" arbitrary: s)
  case (Cons i "is")
  then show ?case using obeys [of s i] stays [of s i] Cons.IH [of "fst (handle i s)"]
    by (simp add: all_Cons sent_append split_beta prod_eq_iff)
qed (simp add: all_Nil sent_Nil)

end

text \<open>Two handlers of the same contract type the same bytes and end in the same mode when they read the same keys.\<close>

locale key_readers = r: key_reader c handle handle_all nav sent key fine set_up + r': key_reader c handle' handle_all' nav' sent' key' fine' set_up'
  for c :: config and handle :: "'i \<Rightarrow> 's \<Rightarrow> 's \<times> 'e list" and handle_all nav sent key fine set_up
    and handle' :: "'j \<Rightarrow> 't \<Rightarrow> 't \<times> 'f list" and handle_all' nav' sent' key' fine' set_up'
begin

lemma agree:
  "set_up s \<Longrightarrow> set_up' t \<Longrightarrow> list_all fine is \<Longrightarrow> list_all fine' js \<Longrightarrow> map key is = map key' js \<Longrightarrow> nav s = nav' t \<Longrightarrow>
    nav (fst (handle_all is s)) = nav' (fst (handle_all' js t)) \<and> sent (snd (handle_all is s)) = sent' (snd (handle_all' js t))"
  using r.runs [of s "is"] r'.runs [of t js] by (simp add: prod_eq_iff)

end

interpretation host_keys: key_reader c handle_host_input host_inputs sv_nav typed "\<lambda>d. d" "\<lambda>d. True" "\<lambda>s. sv_cfg s = c" for c
proof unfold_locales
  fix s :: server and d
  assume s: "sv_cfg s = c"
  show "(sv_nav (fst (handle_host_input d s)), typed (snd (handle_host_input d s))) = host_step c (sv_nav s) d"
    using host_input_step [of d s] s by simp
  show "sv_cfg (fst (handle_host_input d s)) = c" using s by simp
qed (simp_all add: split_beta)

lemma host_inputs_run:
  "(sv_nav (fst (host_inputs ds s)), typed (snd (host_inputs ds s))) = key_run (sv_cfg s) (sv_nav s) ds"
  using host_keys.runs [of s "sv_cfg s" ds] by (simp add: list_all_iff)

end
