(* ===== verification/ServerClaims.thy ===== *)
theory ServerClaims
  imports HostInput
begin

text \<open>
  The properties of the proxy server that follow from the lemmas of \<open>ServerProps\<close>: the invariant of its runs and what it
  means for the idle collection, that no screen is held back for ever, what the host's input sends to claude, and the
  content of the session log.
\<close>

section \<open>Whole screens or nothing\<close>

text \<open>C5: A read of claude's output sends whole screens or nothing. While claude holds a synchronised update open (and has
  not done so for a second), nothing is sent to anyone; otherwise every attached client gets exactly one frame, the
  rendering of the new screen at its own size and scroll position, the host terminal gets one, and nobody else gets any.\<close>

theorem sync_gate:
  assumes "master_read rw env t1 t2 ts d False s = Some (s', es)" and "d \<noteq> []" and "counted s"
  shows "if holding t1 t2 (sv_vt s') s then host_frames es = [] \<and> (\<forall>i. frames_to i es = [])
    else length (host_frames es) = (if sv_host s then 1 else 0)
      \<and> list_all (\<lambda>c. frames_to (sc_id c) es = [frame_of c (sv_vt s')]) (sv_clients s)
      \<and> (\<forall>i. i \<in> set (ids s) \<or> frames_to i es = [])"
proof -
  obtain v where v: "feed rw (sv_vt s) d = Some v" "sv_vt s' = v"
    using assms(1) by (auto simp: master_read_eq [OF assms(2)] master_data_eq Let_def start_hold_def split: option.splits if_splits)
  let ?u = "fed (io_now env) v s"
  show ?thesis
  proof (cases "holding t1 t2 v s")
    case True
    then show ?thesis using assms(1) v by (auto simp: master_read_eq [OF assms(2)] master_data_eq Let_def)
  next
    case False
    define b where "b = (if v_sync v then start_hold t1 ?u else ?u\<lparr>sv_sync_start := None, sv_timer := False\<rparr>)"
    have b: "sv_clients b = sv_clients s" "sv_vt b = v" "sv_host b = sv_host s" by (simp_all add: b_def start_hold_def)
    have es: "es = fed_effects (io_now env) v s @ snd (broadcast env b)"
      using assms(1) v False by (simp add: master_read_eq [OF assms(2)] master_data_eq Let_def b_def)
    have d: "distinct (ids b)" using assms(3) b by (simp add: counted_def ids_def)
    note f = broadcast_frames [OF d, where env = env]
    have "length (host_frames es) = (if sv_host s then 1 else 0)" using f(3) b by (simp add: es)
    moreover have "list_all (\<lambda>c. frames_to (sc_id c) es = [frame_of c v]) (sv_clients s)"
      using f(1) b by (simp add: es list_all_iff)
    moreover have "\<forall>i. i \<in> set (ids s) \<or> frames_to i es = []" using f(2) b by (simp add: es ids_def) blast
    ultimately show ?thesis using False v(2) by simp
  qed
qed

lemma master_read_total:
  assumes "feed rw (sv_vt s) d = Some v" "d \<noteq> []"
  shows "\<exists>s' es. master_read rw env t1 t2 ts d False s = Some (s', es) \<and> sv_vt s' = v"
  using assms by (auto simp: master_read_eq [OF assms(2)] master_data_eq Let_def start_hold_def)

definition demo_config :: config where
  "demo_config = load id id Map.empty (\<lambda>_. None) id None False"

definition demo_server :: server where
  "demo_server = new_server demo_config (new_model 4 2) True 4 2 (Some new_counters) []"

definition demo_env :: io_env where
  "demo_env = \<lparr>io_ok = \<lambda>_. True, io_now = 0, io_paste_dir = True, io_paste_write = True, io_clip = True\<rparr>"

theorem sync_gate_witness:
  "\<exists>s' es. master_read (\<lambda>_. 1) demo_env 0 0 [] ''ab'' False demo_server = Some (s', es) \<and> length (host_frames es) = 1"
proof -
  have r4: "replicate 4 x = [x, x, x, x]" for x :: cell by (simp add: numeral_eq_Suc)
  have d: "sv_vt demo_server = new_model 4 2" "sv_host demo_server" by (simp_all add: demo_server_def new_server_def)
  obtain v where v: "feed (\<lambda>_. 1) (new_model 4 2) ''ab'' = Some v" "\<not> v_sync v"
    by (simp add: feed_def new_model_def blank_def blank_line_def put_byte_def utf8_len_def draw_def place_def
        set_cell_def Let_def r4)
  obtain s' es where m: "master_read (\<lambda>_. 1) demo_env 0 0 [] ''ab'' False demo_server = Some (s', es)" "sv_vt s' = v"
    using master_read_total [of "\<lambda>_. 1" demo_server "''ab''" v demo_env 0 0 "[]"] v(1) d by auto
  have k: "counted demo_server" using new_server_ok [of 4 2] by (simp add: demo_server_def server_ok_def)
  show ?thesis using sync_gate [OF m(1) _ k] m v d by (auto simp: holding_def)
qed

section \<open>The client table and the idle collection\<close>

text \<open>C6: In every state the proxy can reach - connections coming and going, failing writes, any client and child
  data - each connection is in the client table once, the diagnostics counter of connected clients is exactly the size
  of the table, and the unparsed input kept for each client is bounded.\<close>

theorem client_table_invariant:
  assumes "reaches rw (new_server cfg (new_model cols rows) host hc hr (Some new_counters) ver) s" and "1 \<le> cols" and "1 \<le> rows"
  shows "distinct (map sc_id (sv_clients s))
    \<and> (\<forall>c. sv_counters s = Some c \<longrightarrow> dg_connected c = int (length (sv_clients s)))
    \<and> list_all (\<lambda>c. length (sc_in c) < 7 + max_image_bytes) (sv_clients s)"
  using reaches_ok [OF assms(1) new_server_ok [OF assms(2,3)]] by (simp add: server_ok_def counted_def ids_def)

lemma demo_accept: "map sc_id (sv_clients (fst (accept demo_env 5 demo_server))) = [5]"
  by (simp add: accept_def Let_def render_client_def find_client_def demo_server_def new_server_def update_client_def
      demo_env_def split_beta)

theorem client_table_invariant_witness:
  "distinct (map sc_id (sv_clients (fst (accept demo_env 5 demo_server))))"
proof (rule client_table_invariant [THEN conjunct1])
  show "reaches (\<lambda>_. 1) (new_server demo_config (new_model 4 2) True 4 2 (Some new_counters) []) (fst (accept demo_env 5 demo_server))"
    unfolding demo_server_def by (rule reaches.accept [OF reaches.init]) (simp add: ids_def new_server_def)
qed simp_all


definition demo_counters :: counters where
  "demo_counters = new_counters\<lparr>dg_connected := 1\<rparr>"

definition demo_snaps :: "bytes \<Rightarrow> snap option" where
  "demo_snaps f =
     (if f = ''7.snap'' then Some (snap_now show_int 7 (Some demo_counters) ''/a'')
      else if f = ''8.snap'' then Some (snap_now show_int 8 (Some (new_counters\<lparr>dg_last_disconnect := 10\<rparr>)) ''/b'')
      else None)"

definition demo_entries :: "dirent list" where
  "demo_entries = [\<lparr>de_name = ''7.snap'', de_is_dir = False\<rparr>, \<lparr>de_name = ''8.snap'', de_is_dir = False\<rparr>]"

lemma demo_sweep: "idle_gc_sweep (\<lambda>_. True) demo_snaps atoi (\<lambda>_. True) ''/d'' 1000 100 (Some demo_entries) = [(8, ''/b'', 10)]"
  by (simp add: idle_gc_sweep_def List.map_filter_def gc_candidate_def demo_snaps_def demo_entries_def has_suffix_def
      trim_suffix_def atoi_def parse_int_def Let_def digit_val_def is_digit_def snap_now_def new_counters_def demo_counters_def
      ns_to_human_def show_int_def show_nat.simps char_of_def bit_iff_odd)


section \<open>Held-back screens\<close>

text \<open>Runs with the clock: \<open>timed rw s0 now held s\<close> says that \<open>s\<close> is reached at time \<open>now\<close>, and \<open>held\<close> that the latest screen
  has not been sent. The valve's timer fires at the earliest \<open>syncHoldMax\<close> after the hold began.\<close>

inductive timed :: "(rune \<Rightarrow> nat) \<Rightarrow> server \<Rightarrow> int \<Rightarrow> bool \<Rightarrow> server \<Rightarrow> bool" for rw s0 where
  init: "timed rw s0 now False s0"
| master: "timed rw s0 now held s \<Longrightarrow> now \<le> t1 \<Longrightarrow> t1 \<le> t2 \<Longrightarrow> d \<noteq> [] \<Longrightarrow> master_read rw env t1 t2 ts d False s = Some (s', es) \<Longrightarrow>
    timed rw s0 t2 (holding t1 t2 (sv_vt s') s) s'"
| valve: "timed rw s0 now held s \<Longrightarrow> sv_timer s \<Longrightarrow> now \<le> t \<Longrightarrow> the (sv_sync_start s) + sync_hold_max \<le> t \<Longrightarrow>
    timed rw s0 t (held \<and> \<not> v_sync (sv_vt s)) (fst (sync_valve env s))"
| accept: "timed rw s0 now held s \<Longrightarrow> now \<le> t \<Longrightarrow> i \<notin> set (ids s) \<Longrightarrow> timed rw s0 t held (fst (accept env i s))"
| client: "timed rw s0 now held s \<Longrightarrow> now \<le> t \<Longrightarrow> timed rw s0 t held (fst (client_read env i d s))"
| drop: "timed rw s0 now held s \<Longrightarrow> now \<le> t \<Longrightarrow> timed rw s0 t held (fst (drop_client env i s))"
| host: "timed rw s0 now held s \<Longrightarrow> now \<le> t \<Longrightarrow> timed rw s0 t held (fst (handle_host_input d s))"
| size: "timed rw s0 now held s \<Longrightarrow> now \<le> t \<Longrightarrow> timed rw s0 t held (fst (set_host_size cols rows s))"

text \<open>A held-back screen has its timer pending; once the timer has fired, later reads are past the limit.\<close>

definition hold_ok :: "int \<Rightarrow> bool \<Rightarrow> bool \<Rightarrow> int option \<Rightarrow> bool \<Rightarrow> bool" where
  "hold_ok now held sync start timer \<longleftrightarrow> (held \<longrightarrow> timer \<and> sync) \<and> (timer \<longrightarrow> start \<noteq> None)
     \<and> (\<forall>t. start = Some t \<and> \<not> timer \<longrightarrow> t + sync_hold_max \<le> now)"

lemma hold_ok_later: "hold_ok now h y st ti \<Longrightarrow> now \<le> t \<Longrightarrow> hold_ok t h y st ti"
  by (auto simp: hold_ok_def)

definition hold_view :: "server \<Rightarrow> bool \<times> int option \<times> bool" where
  "hold_view s = (v_sync (sv_vt s), sv_sync_start s, sv_timer s)"

lemma exec_cmds_view: "hold_view (fst (exec_cmds env i cs s)) = hold_view s"
proof (induction cs arbitrary: s)
  case (Cons c cs)
  have "hold_view (fst (exec_cmd env i c s)) = hold_view s" by (cases c) (simp_all add: exec_cmd_def hold_view_def)
  with Cons show ?case by (simp add: split_beta)
qed simp

lemma view_keeps:
  "hold_view (fst (accept env i s)) = hold_view s" "hold_view (fst (client_read env i d s)) = hold_view s"
  "hold_view (fst (drop_client env i s)) = hold_view s" "hold_view (fst (handle_host_input d s)) = hold_view s"
  "hold_view (fst (set_host_size cols rows s)) = hold_view s"
proof -
  show "hold_view (fst (client_read env i d s)) = hold_view s"
    by (simp add: client_read_def split_beta exec_cmds_view split: option.split) (simp add: hold_view_def)
qed (simp_all add: hold_view_def accept_def Let_def drop_client_def set_host_size_def)

lemma timed_hold:
  "timed rw s0 now held s \<Longrightarrow> sv_sync_start s0 = None \<Longrightarrow> \<not> sv_timer s0 \<Longrightarrow>
    hold_ok now held (v_sync (sv_vt s)) (sv_sync_start s) (sv_timer s)"
proof (induction rule: timed.induct)
  case (master now held s t1 t2 d env ts s' es)
  then have ih: "hold_ok now held (v_sync (sv_vt s)) (sv_sync_start s) (sv_timer s)" by simp
  obtain v where v: "feed rw (sv_vt s) d = Some v"
    using master.hyps by (cases "feed rw (sv_vt s) d") (auto simp: master_read_eq master_data_eq)
  have s': "sv_vt s' = v \<and> (if v_sync v then sv_sync_start s' = Some (hold_start t1 s) \<and> (sv_timer s' \<longleftrightarrow> sv_timer s \<or> sv_sync_start s = None)
      else sv_sync_start s' = None \<and> \<not> sv_timer s')"
    using master.hyps(5) v
    by (auto simp: master_read_eq [OF master.hyps(4)] master_data_eq Let_def start_hold_def hold_start_def holding_def split: if_splits option.splits)
  show ?case using s' ih master.hyps(2,3) unfolding hold_ok_def holding_def hold_start_def
    by (auto split: if_splits option.splits)
next
  case (valve now held s t env)
  then have "hold_ok now held (v_sync (sv_vt s)) (sv_sync_start s) (sv_timer s)" by simp
  then show ?case using valve.hyps by (auto simp: hold_ok_def sync_valve_def Let_def)
qed (use view_keeps hold_ok_later in \<open>auto simp: hold_view_def hold_ok_def\<close>)

lemma timed_ok: "timed rw s0 now held s \<Longrightarrow> reaches rw s0 s"
  by (induction rule: timed.induct) (auto intro: reaches.intros)

text \<open>C11: No screen is held back for ever. Whenever the latest screen has not been sent, claude holds a synchronised
  update open and the valve's timer is pending; when it fires, every attached client gets one frame of exactly that
  screen and the host terminal gets one.\<close>

theorem held_screen_shown:
  assumes "timed rw (new_server cfg (new_model cols rows) host hc hr (Some new_counters) ver) now True s" and "1 \<le> cols" and "1 \<le> rows"
  shows "sv_timer s \<and> length (host_frames (snd (sync_valve env s))) = (if sv_host s then 1 else 0)
    \<and> list_all (\<lambda>c. frames_to (sc_id c) (snd (sync_valve env s)) = [frame_of c (sv_vt s)]) (sv_clients s)"
proof -
  have c: "counted s" using reaches_ok [OF timed_ok [OF assms(1)] new_server_ok [OF assms(2,3)]] by (simp add: server_ok_def)
  have h: "sv_timer s" "v_sync (sv_vt s)" "sv_sync_start s \<noteq> None"
    using timed_hold [OF assms(1)] by (auto simp: hold_ok_def new_server_def)
  have d: "distinct (ids (s\<lparr>sv_timer := False\<rparr>))" using c by (simp add: counted_def ids_def)
  have "snd (sync_valve env s) = snd (broadcast env (s\<lparr>sv_timer := False\<rparr>))" using h by (simp add: sync_valve_def Let_def)
  then show ?thesis using broadcast_frames [OF d, where env = env] h(1) by (simp add: list_all_iff)
qed

theorem held_screen_shown_witness:
  "\<exists>s. sv_timer s \<and> length (host_frames (snd (sync_valve demo_env s))) = 1"
proof -
  let ?d = "ESC # ''[?2026h''"
  obtain v where v: "feed (\<lambda>_. 1) (new_model 4 2) ?d = Some v" "v_sync v"
    by (simp add: feed_def new_model_def ctl_byte_def ground_ctl_def esc_byte_def csi_byte_def csi_def params_def csi_op_def
        set_modes_def Let_def clamp_cursor_def clamp_int_def)
  have hold: "holding 0 1 v demo_server" using v by (simp add: holding_def hold_start_def demo_server_def new_server_def sync_hold_max_def)
  then obtain s where s: "master_read (\<lambda>_. 1) demo_env 0 1 [] ?d False demo_server = Some s" "sv_vt (fst s) = v"
      "sv_host (fst s)"
    using v by (auto simp: master_read_eq master_data_eq demo_server_def new_server_def Let_def start_hold_def)
  have "timed (\<lambda>_. 1) demo_server 1 (holding 0 1 (sv_vt (fst s)) demo_server) (fst s)"
    by (rule timed.master [OF timed.init [of _ _ 0], where d = ?d and env = demo_env and ts = "[]" and es = "snd s"])
       (use s in auto)
  then have "timed (\<lambda>_. 1) demo_server 1 True (fst s)" using hold s(2) by simp
  then show ?thesis using held_screen_shown [of "\<lambda>_. 1" demo_config 4 2 True 4 2 "[]" 1 "fst s" demo_env] s(3)
    by (auto simp: demo_server_def)
qed

section \<open>What the host's keys send to claude\<close>

text \<open>C23: The host terminal's input handler implements the key discipline: over any sequence of reads, what it sends to
  claude and the nav-mode it ends in are those of the two-state machine \<open>key_step\<close>, in which wheel and page keys (when
  enabled) are consumed, the nav key toggles and is cut out, and nav-mode swallows everything else; with the host's own
  scrolling selected every byte is passed on. Scroll positions, clients and the screen have no influence.\<close>

theorem host_input_refines:
  "(sv_nav (fst (host_inputs ds s)), typed (snd (host_inputs ds s))) = key_run (sv_cfg s) (sv_nav s) ds"
  by (rule host_inputs_run)

section \<open>The session log\<close>

definition log_text :: "effect list \<Rightarrow> bytes" where
  "log_text es = concat (map (\<lambda>e. case e of ToLog d \<Rightarrow> d | _ \<Rightarrow> []) es)"

definition lines_text :: "bytes list \<Rightarrow> bytes" where
  "lines_text ls = concat (map (\<lambda>l. l @ [CHR 0x0A]) ls)"

lemma log_text_simps [simp]:
  "log_text [] = []" "log_text (xs @ ys) = log_text xs @ log_text ys" "log_text (ToLog d # es) = d @ log_text es"
  "log_text (ToHost f # es) = log_text es" "log_text (ToClient i f # es) = log_text es" "log_text (CloseConn i # es) = log_text es"
  "log_text (WriteStatus p # es) = log_text es" "log_text (CloseLog # es) = log_text es"
  by (simp_all add: log_text_def)

lemma join_lines: "ls \<noteq> [] \<Longrightarrow> join [CHR 0x0A] ls @ [CHR 0x0A] = lines_text ls"
  by (induction ls rule: induct_list012) (simp_all add: lines_text_def)

lemma log_text_lines [simp]: "log_text (log_lines ls) = lines_text ls"
  using join_lines [of ls] by (simp add: log_lines_def lines_text_def)

lemma log_text_render [simp]: "log_text (snd (render_host s)) = []" "log_text (snd (render_client env i s)) = []"
  by (simp_all add: render_host_def render_client_def split_beta Let_def split: option.split)

lemma log_text_broadcast [simp]: "log_text (snd (broadcast env s)) = []"
proof -
  have "log_text (snd (render_clients env is s)) = []" for "is" s
    by (induction "is" arbitrary: s) (simp_all add: split_beta)
  then show ?thesis by (simp add: broadcast_def split_beta)
qed

lemma log_text_status [simp]: "log_text (snd (maybe_write_status now s)) = []"
  by (simp add: maybe_write_status_def split_beta Let_def split: option.split)

lemma sess_status [simp]: "sv_sess (fst (maybe_write_status now s)) = sv_sess s"
  by (simp add: maybe_write_status_def split_beta Let_def split: option.split)

text \<open>A server that writes a session log, having logged everything up to the present screen.\<close>

definition logging :: "server \<Rightarrow> bool" where
  "logging s \<longleftrightarrow> (\<exists>f. sv_sess s = Some f \<and> f_armed f \<and> f_last_total f = v_hist_total (sv_vt s) \<and> f_pending f = [])"

lemma history_cap: "vt_wf v \<Longrightarrow> length (history_lines v) \<le> pending_cap"
  by (auto simp: vt_wf_def history_lines_def hist_max_def pending_cap_def)

lemma capture_log:
  assumes "vt_wf (sv_vt s)" "logging s" "feed rw (sv_vt s) d = Some v" "v_hist_total v - v_hist_total (sv_vt s) \<le> hist_len v"
  shows "\<exists>new. v_hist_total v = v_hist_total (sv_vt s) + int (length new)
    \<and> suffix (history_lines v) (history_lines (sv_vt s) @ new)
    \<and> log_text (snd (session_log_capture (s\<lparr>sv_vt := v\<rparr>))) = lines_text new
    \<and> (\<exists>f. sv_sess (fst (session_log_capture (s\<lparr>sv_vt := v\<rparr>))) = Some f \<and> f_armed f \<and> f_last_total f = v_hist_total v \<and> f_pending f = [])"
proof -
  obtain f where f: "sv_sess s = Some f" "f_armed f" "f_last_total f = v_hist_total (sv_vt s)" "f_pending f = []"
    using assms(2) by (auto simp: logging_def)
  have st: "vt_step (sv_vt s) v" using assms(3) by (auto simp: vt_step_def)
  obtain new where n: "v_hist_total v = v_hist_total (sv_vt s) + int (length new)"
      "suffix (history_lines v) (history_lines (sv_vt s) @ new)"
      "take_new_at f (v_hist_total v) (history_lines v) = (f\<lparr>f_last_total := v_hist_total v\<rparr>, keep_last (length (history_lines v)) new)"
    using vth.capture_step [OF assms(1) st f(2,3)] by blast
  have l: "length new \<le> length (history_lines v)" using assms(4) n(1) by (simp add: hist_len_def history_lines_def)
  have c: "length new \<le> pending_cap" using l history_cap [OF vth.ok_step [OF assms(1) st]] by simp
  have "capture f v = f\<lparr>f_last_total := v_hist_total v, f_pending := new\<rparr>"
    using n(3) l c f(4) by (simp add: capture_def take_new_def add_pending_def)
  then show ?thesis using n f by (intro exI [of _ new]) (simp add: session_log_capture_def drain_def)
qed

lemma fed_log: "log_text (fed_effects now v s) = log_text (snd (session_log_capture (s\<lparr>sv_vt := v\<rparr>)))"
    "sv_sess (fed now v s) = sv_sess (fst (session_log_capture (s\<lparr>sv_vt := v\<rparr>)))"
  by (simp_all add: fed_effects_def fed_def)

lemma master_read_log:
  assumes "master_read rw env t1 t2 ts d False s = Some (s', es)" "d \<noteq> []"
  shows "\<exists>v. feed rw (sv_vt s) d = Some v \<and> sv_vt s' = v
    \<and> sv_sess s' = sv_sess (fst (session_log_capture (s\<lparr>sv_vt := v\<rparr>)))
    \<and> log_text es = log_text (snd (session_log_capture (s\<lparr>sv_vt := v\<rparr>)))"
proof -
  obtain v where v: "feed rw (sv_vt s) d = Some v"
    using assms by (cases "feed rw (sv_vt s) d") (auto simp: master_read_eq master_data_eq)
  have "sv_vt s' = v \<and> sv_sess s' = sv_sess (fed (io_now env) v s) \<and> log_text es = log_text (fed_effects (io_now env) v s)"
    using assms(1) v by (auto simp: master_read_eq [OF assms(2)] master_data_eq Let_def start_hold_def split: if_splits)
  then show ?thesis using v by (simp add: fed_log)
qed

text \<open>A sequence of reads of the child's output, each with its environment and times.\<close>

fun master_reads :: "(rune \<Rightarrow> nat) \<Rightarrow> (io_env \<times> int \<times> int \<times> bytes) list \<Rightarrow> server \<Rightarrow> (server \<times> effect list) option" where
  "master_reads rw [] s = Some (s, [])"
| "master_reads rw ((env, t1, t2, d) # rs) s = (case master_read rw env t1 t2 [] d False s of
      None \<Rightarrow> None
    | Some (s, e1) \<Rightarrow> (case master_reads rw rs s of None \<Rightarrow> None | Some (s, e2) \<Rightarrow> Some (s, e1 @ e2)))"

definition read_data :: "io_env \<times> int \<times> int \<times> bytes \<Rightarrow> bytes" where
  "read_data r = snd (snd (snd r))"

lemma read_data_tuple [simp]: "read_data (env, t1, t2, d) = d"
  by (simp add: read_data_def)

lemma master_reads_log:
  assumes "master_reads rw rs s = Some (s', es)" "vt_wf (sv_vt s)" "logging s" "retained rw (sv_vt s) (map read_data rs)"
    "list_all (\<lambda>r. read_data r \<noteq> []) rs"
  shows "\<exists>new. v_hist_total (sv_vt s') = v_hist_total (sv_vt s) + int (length new)
    \<and> suffix (history_lines (sv_vt s')) (history_lines (sv_vt s) @ new) \<and> log_text es = lines_text new
    \<and> logging s' \<and> vt_wf (sv_vt s')"
  using assms
proof (induction rs arbitrary: s es)
  case Nil
  then show ?case by (auto simp: lines_text_def intro: exI [of _ "[]"])
next
  case (Cons r rs)
  obtain env t1 t2 d where r: "r = (env, t1, t2, d)" by (metis prod_cases4)
  obtain u e1 e2 where m: "master_read rw env t1 t2 [] d False s = Some (u, e1)" "master_reads rw rs u = Some (s', e2)" "es = e1 @ e2"
    using Cons.prems(1) r by (auto split: option.splits)
  have d: "d \<noteq> []" using Cons.prems(5) r by (simp add: read_data_def)
  obtain v where v: "feed rw (sv_vt s) d = Some v" "sv_vt u = v" "sv_sess u = sv_sess (fst (session_log_capture (s\<lparr>sv_vt := v\<rparr>)))"
      "log_text e1 = log_text (snd (session_log_capture (s\<lparr>sv_vt := v\<rparr>)))"
    using master_read_log [OF m(1) d] by blast
  have rt: "v_hist_total v - v_hist_total (sv_vt s) \<le> hist_len v" "retained rw v (map read_data rs)"
    using Cons.prems(4) v(1) r by simp_all
  obtain new where n: "v_hist_total v = v_hist_total (sv_vt s) + int (length new)"
      "suffix (history_lines v) (history_lines (sv_vt s) @ new)"
      "log_text (snd (session_log_capture (s\<lparr>sv_vt := v\<rparr>))) = lines_text new"
      "\<exists>f. sv_sess (fst (session_log_capture (s\<lparr>sv_vt := v\<rparr>))) = Some f \<and> f_armed f \<and> f_last_total f = v_hist_total v \<and> f_pending f = []"
    using capture_log [OF Cons.prems(2,3) v(1) rt(1)] by blast
  have w: "vt_wf (sv_vt u)" "logging u"
    using v n(4) vth.ok_step [OF Cons.prems(2)] by (auto simp: logging_def vt_step_def)
  obtain new2 where n2: "v_hist_total (sv_vt s') = v_hist_total v + int (length new2)"
      "suffix (history_lines (sv_vt s')) (history_lines v @ new2)" "log_text e2 = lines_text new2" "logging s'" "vt_wf (sv_vt s')"
    using Cons.IH [OF m(2) w] rt(2) Cons.prems(5) v(2) by auto
  show ?case using n n2 v m(3) suffix_trans_append [OF n2(2) n(2)]
    by (intro exI [of _ "new @ new2"]) (simp add: lines_text_def)
qed

lemma first_capture:
  assumes "sv_sess s = Some new_flusher"
  shows "log_text (snd (session_log_capture s)) = []"
    "sv_sess (fst (session_log_capture s)) = Some (new_flusher\<lparr>f_armed := True, f_last_total := v_hist_total (sv_vt s)\<rparr>)"
  using assms by (simp_all add: session_log_capture_def capture_def take_new_def take_new_at_def add_pending_def drain_def
      new_flusher_def lines_text_def)

lemma stop_log:
  assumes "logging s"
  shows "log_text (snd (stop ts s)) = lines_text (map (\<lambda>l. trim_right_set l '' '') (trim_blank_tail (visible_lines (sv_vt s)))) @ log_footer ts"
proof -
  obtain f where f: "sv_sess s = Some f" "f_armed f" "f_last_total f = v_hist_total (sv_vt s)" "f_pending f = []"
    using assms by (auto simp: logging_def)
  have c: "log_text (map (\<lambda>c. CloseConn (sc_id c)) cs) = []" for cs by (induction cs) simp_all
  have "snd (drain (capture f (sv_vt s))) = []"
    using f by (simp add: capture_def take_new_def take_new_at_def add_pending_def drain_def Let_def)
  then show ?thesis using f(1) c by (simp add: stop_def finalize_session_log_def split_beta Let_def) (simp add: lines_text_def)
qed

text \<open>C27: The session log is exact from the second read on: over any run of reads, the text written until the proxy has
  stopped consists of precisely the lines that scrolled off the screen after the first read - each once and in order -
  then the lines of the final screen without trailing blank ones, then the footer; provided no read scrolls out more
  rows than the history retains. Lines that scroll off during the first read are not logged.\<close>

theorem session_log_exact:
  assumes "sv_sess s = Some new_flusher" and "vt_wf (sv_vt s)" and "feed rw (sv_vt s) (read_data r) = Some v1"
    and "master_reads rw (r # rs) s = Some (s', es)" and "list_all (\<lambda>r. read_data r \<noteq> []) (r # rs)"
    and "retained rw v1 (map read_data rs)"
  shows "\<exists>news. v_hist_total (sv_vt s') = v_hist_total v1 + int (length news)
    \<and> suffix (history_lines (sv_vt s')) (history_lines v1 @ news)
    \<and> log_text (es @ snd (stop ts s')) = lines_text news
      @ lines_text (map (\<lambda>l. trim_right_set l '' '') (trim_blank_tail (visible_lines (sv_vt s')))) @ log_footer ts"
proof -
  obtain env t1 t2 d where r: "r = (env, t1, t2, d)" by (metis prod_cases4)
  have d: "d \<noteq> []" using assms(5) r by (simp add: read_data_def)
  obtain u e1 e2 where m: "master_read rw env t1 t2 [] d False s = Some (u, e1)" "master_reads rw rs u = Some (s', e2)" "es = e1 @ e2"
    using assms(4) r by (auto split: option.splits)
  have u: "sv_vt u = v1" "logging u" "log_text e1 = []"
    using master_read_log [OF m(1) d] assms(1,3) r first_capture [of "s\<lparr>sv_vt := v1\<rparr>"]
    by (auto simp: read_data_def logging_def new_flusher_def)
  have w: "vt_wf v1" using assms(2,3) vth.ok_step [of "sv_vt s" v1] by (auto simp: vt_step_def)
  obtain new where n: "v_hist_total (sv_vt s') = v_hist_total v1 + int (length new)"
      "suffix (history_lines (sv_vt s')) (history_lines v1 @ new)" "log_text e2 = lines_text new" "logging s'"
    using master_reads_log [OF m(2)] u w assms(5,6) by auto
  then show ?thesis using m(3) u(3) stop_log [OF n(4), of ts] by (intro exI [of _ new]) simp
qed

definition log_server :: server where
  "log_server = (new_server demo_config (new_model 4 1) False 4 1 None [])\<lparr>sv_sess := Some new_flusher\<rparr>"

lemma log_server_fields: "sv_vt log_server = new_model 4 1" "sv_sess log_server = Some new_flusher"
  by (simp_all add: log_server_def new_server_def)

theorem session_log_exact_witness:
  "\<exists>s' es. v_hist_total (sv_vt s') = 1 \<and> log_text (es @ snd (stop [] s')) = ''ab'' @ [CHR 0x0A] @ log_footer []"
proof -
  let ?rw = "\<lambda>_. 1 :: nat"
  let ?s = log_server
  have r4: "replicate 4 x = [x, x, x, x]" for x :: cell by (simp add: numeral_eq_Suc)
  note ev = feed_def new_model_def blank_def blank_line_def put_byte_def utf8_len_def draw_def place_def
        set_cell_def Let_def ctl_byte_def ground_ctl_def line_feed_def shift_up.simps copy_line_def hist_max_def
        history_lines_def line_text_def trim_right_set_def cell0_def r4 char_of_def bit_iff_odd hist_len_def
        visible_lines_def trim_blank_tail_def
  obtain v1 where v1: "feed ?rw (new_model 4 1) ''ab'' = Some v1" "v_hist_total v1 = 0" "history_lines v1 = []"
      "\<exists>v2. feed ?rw v1 [CHR 0x0A] = Some v2 \<and> v_hist_total v2 = 1 \<and> hist_len v2 = 1 \<and> history_lines v2 = [''ab'']
        \<and> trim_blank_tail (visible_lines v2) = []"
    by (simp add: ev)
  then obtain v2 where v2: "feed ?rw v1 [CHR 0x0A] = Some v2" "v_hist_total v2 = 1" "hist_len v2 = 1" "history_lines v2 = [''ab'']"
      "trim_blank_tail (visible_lines v2) = []" by blast
  obtain s1 e1 where s1: "master_read ?rw demo_env 0 0 [] ''ab'' False ?s = Some (s1, e1)" "sv_vt s1 = v1"
    using master_read_total [of ?rw ?s "''ab''" v1 demo_env 0 0 "[]"] v1(1) log_server_fields by auto
  obtain s2 e2 where s2: "master_read ?rw demo_env 0 0 [] [CHR 0x0A] False s1 = Some (s2, e2)" "sv_vt s2 = v2"
    using master_read_total [of ?rw s1 "[CHR 0x0A]" v2 demo_env 0 0 "[]"] v2(1) s1(2) by auto
  let ?r = "(demo_env, 0 :: int, 0 :: int, ''ab'')" and ?rs = "[(demo_env, 0 :: int, 0 :: int, [CHR 0x0A])]"
  have "\<exists>news. v_hist_total (sv_vt s2) = v_hist_total v1 + int (length news)
      \<and> suffix (history_lines (sv_vt s2)) (history_lines v1 @ news)
      \<and> log_text ((e1 @ e2) @ snd (stop [] s2)) = lines_text news
        @ lines_text (map (\<lambda>l. trim_right_set l '' '') (trim_blank_tail (visible_lines (sv_vt s2)))) @ log_footer []"
    by (rule session_log_exact [where s = ?s and r = ?r and rs = ?rs and rw = ?rw])
       (use s1 s2 v1 v2 new_model_wf [of 4 1] log_server_fields in auto)
  then obtain news where n: "length news = 1" "suffix [''ab''] news"
      "log_text ((e1 @ e2) @ snd (stop [] s2)) = lines_text news @ lines_text [] @ log_footer []"
    using v1 v2 s2 by auto
  then have "news = [''ab'']" by (auto simp: suffix_def length_Suc_conv)
  then show ?thesis using n(3) s2(2) v2(2) by (intro exI [of _ s2] exI [of _ "e1 @ e2"]) (simp add: lines_text_def)
qed

end
