(* ===== verification/SocketClient.thy ===== *)
theory SocketClient
  imports HostInput
begin

text \<open>
  \<open>internal/client\<close>: the socket client. \<open>process_stdin\<close> turns one read of the keyboard into messages to the proxy and text on
  the terminal; every failing write ends the client, so a run with a write error is a prefix of the run modelled.
  \<open>run_by_key\<close> is the attach loop around it. The clipboard, the clock and the dialling results are arguments.
\<close>

section \<open>State\<close>

record nav_client =
  nc_nav :: bool
  nc_pk_scrolled :: bool
  nc_remind_last :: int

datatype client_effect = Send client_msg | Show bytes

definition follow_dy :: int where "follow_dy = 32767"

definition nav_interval :: int where "nav_interval = 2000000000"

text \<open>\<open>navReminder\<close>.\<close>

definition remind :: "int \<Rightarrow> nav_client \<Rightarrow> nav_client \<times> client_effect list" where
  "remind now s = (if now - nc_remind_last s < nav_interval then (s, [])
     else (s\<lparr>nc_remind_last := now\<rparr>, [Show host_nav_on]))"

definition mark_shown :: "int \<Rightarrow> nav_client \<Rightarrow> nav_client" where
  "mark_shown now s = s\<lparr>nc_remind_last := now\<rparr>"

definition scroll_keys :: "config \<Rightarrow> bytes \<Rightarrow> int option" where
  "scroll_keys c = (let s = cf_nav_scroll c; p = cf_nav_page c in map_of
     [(ESC # ''[A'', - s), (''k'', - s), (ESC # ''[B'', s), (''j'', s), (ESC # ''[5~'', - p), (ESC # ''[6~'', p),
      (ESC # ''[H'', -1000000), (''g'', -1000000), (ESC # ''[F'', 1000000), (''G'', 1000000)])"

section \<open>One read of the keyboard\<close>

definition toggle_nav :: "config \<Rightarrow> int \<Rightarrow> bytes \<Rightarrow> nav_client \<Rightarrow> nav_client \<times> client_effect list" where
  "toggle_nav c now d s =
     (let nav = \<not> nc_nav s; rest = remove_all d (cf_nav_key c); s = s\<lparr>nc_nav := nav\<rparr> in
      if nav then (mark_shown now s, [Show host_nav_on])
      else (s\<lparr>nc_pk_scrolled := False\<rparr>,
            [Show host_nav_off, Send (MScroll follow_dy)] @ (if rest \<noteq> [] then [Send (MText rest)] else [])))"

definition paste_or_text :: "config \<Rightarrow> (bytes \<times> byte) option \<Rightarrow> bytes \<Rightarrow> client_effect list" where
  "paste_or_text c clip d = (case cf_img_paste_key c of
      None \<Rightarrow> [Send (MText d)]
    | Some k \<Rightarrow>
        if contains_sub d k then
          (case clip of
             Some (img, code) \<Rightarrow> Send (MImage img code) # (let rest = remove_all d k in if rest \<noteq> [] then [Send (MText rest)] else [])
           | None \<Rightarrow> [Send (MText d)])
        else [Send (MText d)])"

definition process_stdin :: "config \<Rightarrow> (bytes \<times> byte) option \<Rightarrow> int \<Rightarrow> bytes \<Rightarrow> nav_client \<Rightarrow> nav_client \<times> client_effect list" where
  "process_stdin c clip now d s =
     (case (if cf_wheel_scroll c then classify_wheel d else None) of
        Some wd \<Rightarrow> (s\<lparr>nc_pk_scrolled := True\<rparr>, [Send (MScroll (wd * min 32767 (cf_nav_wheel c)))])
      | None \<Rightarrow>
          if cf_pagekey_scroll c \<and> (d = pg_up \<or> d = pg_dn) then
            (let dy = min 32767 (cf_nav_page c); dy = (if d = pg_up then - dy else dy)
             in (s\<lparr>nc_pk_scrolled := True\<rparr>, [Send (MScroll dy)]))
          else
            let reset = (cf_pagekey_scroll c \<or> cf_wheel_scroll c) \<and> nc_pk_scrolled s \<and> is_live_reset_key d;
                e1 = (if reset then [Send (MScroll follow_dy)] else []);
                s = (if reset then s\<lparr>nc_pk_scrolled := False\<rparr> else s)
            in if contains_sub d (cf_nav_key c) then (let (s, e2) = toggle_nav c now d s in (s, e1 @ e2))
               else if nc_nav s then
                 (case scroll_keys c d of
                    Some dy \<Rightarrow> (s, e1 @ [Send (MScroll dy)])
                  | None \<Rightarrow> if is_live_reset_key d then (let (s, e2) = remind now s in (s, e1 @ e2)) else (s, e1))
               else (s, e1 @ paste_or_text c clip d))"

text \<open>The input pump: the reads in order, each with the clipboard and the time it finds.\<close>

fun input_pump :: "config \<Rightarrow> ((bytes \<times> byte) option \<times> int \<times> bytes) list \<Rightarrow> nav_client \<Rightarrow> nav_client \<times> client_effect list" where
  "input_pump c [] s = (s, [])"
| "input_pump c ((clip, now, d) # ds) s =
     (let (s, e1) = process_stdin c clip now d s; (s, e2) = input_pump c ds s in (s, e1 @ e2))"

definition messages :: "client_effect list \<Rightarrow> client_msg list" where
  "messages es = concat (map (\<lambda>e. case e of Send m \<Rightarrow> [m] | Show _ \<Rightarrow> []) es)"

section \<open>Connecting\<close>

text \<open>\<open>Connect\<close>: the first successful dial of at most 30 (or 1); \<open>dial n\<close> is the result of attempt \<open>n\<close>.\<close>

fun connect_from :: "(nat \<Rightarrow> 'c option) \<Rightarrow> nat \<Rightarrow> nat \<Rightarrow> 'c option" where
  "connect_from dial n 0 = None"
| "connect_from dial n (Suc k) = (case dial n of Some c \<Rightarrow> Some c | None \<Rightarrow> connect_from dial (Suc n) k)"

definition connect :: "(nat \<Rightarrow> 'c option) \<Rightarrow> bool \<Rightarrow> 'c option" where
  "connect dial retry = connect_from dial 0 (if retry then 30 else 1)"

text \<open>Why a session's relay ended: \<open>runLoop\<close> returns nil for each of them.\<close>

datatype loop_end = ProxyClosed | StdinEnd | WriteFailed

datatype run_result = RunOk | RunErr

definition run_loop_result :: "loop_end \<Rightarrow> run_result" where
  "run_loop_result e = RunOk"

definition run_conn :: "bool \<Rightarrow> loop_end \<Rightarrow> run_result" where
  "run_conn raw_ok e = (if \<not> raw_ok then RunErr else run_loop_result e)"

definition run_socket :: "(nat \<Rightarrow> 'c option) \<Rightarrow> bool \<Rightarrow> loop_end \<Rightarrow> run_result" where
  "run_socket dial raw_ok e = (case connect dial True of None \<Rightarrow> RunErr | Some _ \<Rightarrow> run_conn raw_ok e)"

text \<open>\<open>ResolveSockByKey\<close> over the decoded status file: entries with their key and pid (\<open>pid_from_any\<close> of the JSON value).\<close>

datatype json_val = JNum int | JStr bytes | JOther

definition pid_from_any :: "json_val \<Rightarrow> int" where
  "pid_from_any v = (case v of JNum n \<Rightarrow> n | JStr s \<Rightarrow> (case atoi s of Some n \<Rightarrow> n | None \<Rightarrow> 0) | JOther \<Rightarrow> 0)"

fun resolve_sock :: "(int \<Rightarrow> bytes) \<Rightarrow> (bytes \<Rightarrow> bool) \<Rightarrow> bytes \<Rightarrow> (bytes \<times> json_val) list \<Rightarrow> bytes option" where
  "resolve_sock sock_path sock_exists key [] = None"
| "resolve_sock sock_path sock_exists key ((k, v) # es) =
     (if k \<noteq> key then resolve_sock sock_path sock_exists key es
      else let pid = pid_from_any v in
        if pid \<le> 0 then None else if sock_exists (sock_path pid) then Some (sock_path pid) else None)"

text \<open>\<open>RunByKey\<close>: one element per iteration: the time, whether the key resolves, and the result of the run then started.
  The result is the number of the iteration in which the loop returns, if it does.\<close>

fun run_by_key :: "int option \<Rightarrow> nat \<Rightarrow> (int \<times> bool \<times> run_result) list \<Rightarrow> nat option" where
  "run_by_key since n [] = None"
| "run_by_key since n ((now, found, r) # its) =
     (if \<not> found then
        (case since of
           None \<Rightarrow> run_by_key (Some now) (Suc n) its
         | Some t \<Rightarrow> if now - t > 10000000000 then Some n else run_by_key since (Suc n) its)
      else if r = RunErr then run_by_key None (Suc n) its
      else Some n)"

section \<open>Agreement with the host's input handler\<close>

lemma scroll_keys_host: "scroll_keys c d = host_scroll_dy c d"
  by (simp add: scroll_keys_def host_scroll_dy_def Let_def)

definition text_of :: "client_effect list \<Rightarrow> bytes" where
  "text_of es = concat (map (\<lambda>e. case e of Send (MText d) \<Rightarrow> d | _ \<Rightarrow> []) es)"

lemma text_of_simps [simp]:
  "text_of [] = []" "text_of (xs @ ys) = text_of xs @ text_of ys" "text_of (Send (MText d) # es) = d @ text_of es"
  "text_of (Send (MScroll n) # es) = text_of es" "text_of (Show x # es) = text_of es" "text_of (Send (MImage i k) # es) = text_of es"
  by (simp_all add: text_of_def)

lemma client_step:
  assumes "cf_img_paste_key c = None"
  shows "(nc_nav (fst (process_stdin c clip now d s)), text_of (snd (process_stdin c clip now d s))) = key_step c (nc_nav s) d"
proof (cases "scroll_key c d")
  case True
  show ?thesis
  proof (cases "if cf_wheel_scroll c then classify_wheel d else None")
    case None
    then have "cf_pagekey_scroll c \<and> (d = pg_up \<or> d = pg_dn)" using True by (simp add: scroll_key_def split: if_splits)
    then show ?thesis using True by (simp only: process_stdin_def None option.case if_True Let_def) (simp add: key_step_def)
  qed (simp add: process_stdin_def key_step_def True)
next
  case False
  then have w: "(if cf_wheel_scroll c then classify_wheel d else None) = None"
    and p: "\<not> (cf_pagekey_scroll c \<and> (d = pg_up \<or> d = pg_dn))" by (auto simp: scroll_key_def)
  show ?thesis using assms
    by (simp add: process_stdin_def w p key_step_def False Let_def toggle_nav_def mark_shown_def remind_def paste_or_text_def
        split_beta split: option.split)
qed

definition read_of :: "(bytes \<times> byte) option \<times> int \<times> bytes \<Rightarrow> bytes" where
  "read_of r = snd (snd r)"

definition client_read :: "config \<Rightarrow> (bytes \<times> byte) option \<times> int \<times> bytes \<Rightarrow> nav_client \<Rightarrow> nav_client \<times> client_effect list" where
  "client_read c r s = (case r of (clip, now, d) \<Rightarrow> process_stdin c clip now d s)"

text \<open>The client is a handler of the contract with the image key and the configuration's own opt-out off.\<close>

interpretation client_keys: key_reader c "client_read c" "input_pump c" nc_nav text_of read_of "\<lambda>r. read_of r \<noteq> []"
    "\<lambda>s. cf_img_paste_key c = None \<and> \<not> managed_off c" for c
proof unfold_locales
  fix s :: nav_client and i :: "(bytes \<times> byte) option \<times> int \<times> bytes"
  assume "cf_img_paste_key c = None \<and> \<not> managed_off c" "read_of i \<noteq> []"
  then show "(nc_nav (fst (client_read c i s)), text_of (snd (client_read c i s))) = host_step c (nc_nav s) (read_of i)"
    using client_step by (cases i) (simp add: client_read_def host_step_def read_of_def)
next
  fix s :: nav_client and i :: "(bytes \<times> byte) option \<times> int \<times> bytes" and "is"
  show "input_pump c (i # is) s = (fst (input_pump c is (fst (client_read c i s))),
      snd (client_read c i s) @ snd (input_pump c is (fst (client_read c i s))))"
    by (cases i) (simp add: client_read_def split_beta)
qed simp_all

text \<open>The two input handlers - of a socket client and of the host terminal - agree: fed the same reads in the same mode,
  they type the same bytes into claude and end in the same mode, although one scrolls locally and the other by scroll
  frames.\<close>

interpretation client_and_host: key_readers c "client_read c" "input_pump c" nc_nav text_of read_of "\<lambda>r. read_of r \<noteq> []"
    "\<lambda>s. cf_img_paste_key c = None \<and> \<not> managed_off c"
    handle_host_input host_inputs sv_nav typed "\<lambda>d. d" "\<lambda>d. True" "\<lambda>s. sv_cfg s = c" for c ..

lemma client_agrees_with_host:
  assumes "cf_img_paste_key c = None" "\<not> managed_off c" "list_all (\<lambda>r. read_of r \<noteq> []) ins"
    and "sv_cfg h = c" "sv_nav h = nc_nav s"
  shows "nc_nav (fst (input_pump c ins s)) = sv_nav (fst (host_inputs (map read_of ins) h))
    \<and> text_of (snd (input_pump c ins s)) = typed (snd (host_inputs (map read_of ins) h))"
  using client_and_host.agree [of c h ins "map read_of ins" s] assms by (simp add: list_all_iff)

text \<open>The keys over the wire.\<close>

definition typed_atoms :: "wire_atom list \<Rightarrow> bytes" where
  "typed_atoms as = concat (map (\<lambda>a. case a of Typed b \<Rightarrow> [b] | Frame _ \<Rightarrow> []) as)"

lemma typed_atoms_msgs: "typed_atoms (concat (map msg_atoms (messages es))) = text_of es"
proof (induction es)
  case (Cons e es)
  have m: "typed_atoms (xs @ ys) = typed_atoms xs @ typed_atoms ys" for xs ys by (simp add: typed_atoms_def)
  have t: "typed_atoms (map Typed d) = d" for d by (induction d) (simp_all add: typed_atoms_def)
  have "typed_atoms (concat (map msg_atoms (messages [e]))) = text_of [e]"
  proof (cases e)
    case (Send x)
    then show ?thesis by (cases x) (simp_all add: messages_def text_of_def t, simp_all add: typed_atoms_def)
  qed (simp add: messages_def text_of_def typed_atoms_def)
  moreover have "messages (e # es) = messages [e] @ messages es" "text_of (e # es) = text_of [e] @ text_of es"
    by (simp_all add: messages_def text_of_def)
  ultimately show ?case using Cons m by simp
qed (simp add: messages_def typed_atoms_def)

lemma remove_all_subset: "set (remove_all d k) \<subseteq> set d"
proof (induction d k rule: remove_all.induct)
  case (1 s old)
  show ?case
  proof (cases s)
    case (Cons x xs)
    have "set (drop (length old) s) \<subseteq> set s" by (rule set_drop_subset)
    then show ?thesis using 1 Cons by (subst remove_all.simps) auto
  qed (simp add: remove_all.simps)
qed

lemma process_stdin_ok:
  assumes "cf_img_paste_key c = None" "CHR 0xFF \<notin> set d"
  shows "list_all msg_ok (messages (snd (process_stdin c clip now d s)))"
  using assms remove_all_subset [of d "cf_nav_key c"]
  by (auto simp: process_stdin_def Let_def toggle_nav_def remind_def paste_or_text_def messages_def split_beta split: option.split)

lemma input_pump_ok:
  "cf_img_paste_key c = None \<Longrightarrow> list_all (\<lambda>r. CHR 0xFF \<notin> set (read_of r)) ins \<Longrightarrow> list_all msg_ok (messages (snd (input_pump c ins s)))"
proof (induction ins arbitrary: s)
  case (Cons r ins)
  have m: "messages (xs @ ys) = messages xs @ messages ys" for xs ys by (simp add: messages_def)
  obtain clip now d where r: "r = (clip, now, d)" by (metis prod_cases3)
  show ?case using Cons process_stdin_ok [of c d clip now s] r by (simp add: split_beta m read_of_def)
qed (simp add: messages_def)


definition plain_keys :: config where
  "plain_keys = (load id id Map.empty (\<lambda>_. None) id None False)
     \<lparr>cf_img_paste_key := None, cf_size_policy := ''client'', cf_host_flow := False, cf_nav_key := [CHR 0x1C],
      cf_wheel_scroll := False, cf_pagekey_scroll := False\<rparr>"

definition idle_client :: nav_client where
  "idle_client = \<lparr>nc_nav = False, nc_pk_scrolled = False, nc_remind_last = 0\<rparr>"

lemma plain_keys_fields: "cf_img_paste_key plain_keys = None" "\<not> managed_off plain_keys"
  by (simp_all add: plain_keys_def managed_off_def)


section \<open>Attaching by session key\<close>

text \<open>What ends the loop, over the whole schedule of iterations: a run that ended without an error, or a session that has not been
  found for more than ten seconds.\<close>

type_synonym attach_round = "int \<times> bool \<times> run_result"

definition missing :: "attach_round \<Rightarrow> bool" where "missing r \<longleftrightarrow> \<not> fst (snd r)"

definition ends_at :: "attach_round list \<Rightarrow> nat \<Rightarrow> bool" where
  "ends_at rs k \<longleftrightarrow> k < length rs \<and>
     (if missing (rs ! k)
      then \<exists>i<k. (\<forall>j. i \<le> j \<and> j < k \<longrightarrow> missing (rs ! j)) \<and> fst (rs ! k) - fst (rs ! i) > 10000000000
      else snd (snd (rs ! k)) = RunOk)"

definition first_end :: "attach_round list \<Rightarrow> nat \<Rightarrow> nat option" where
  "first_end rs n = find (ends_at rs) [n..<length rs]"

text \<open>When the session went missing: the start of the stretch of iterations that did not find it, at the end of those so far.\<close>

definition since_of :: "attach_round list \<Rightarrow> int option" where
  "since_of rs = (case takeWhile missing (rev rs) of [] \<Rightarrow> None | ms \<Rightarrow> Some (fst (last ms)))"

lemma since_of_snoc:
  "since_of (rs @ [r]) = (if missing r then Some (case since_of rs of None \<Rightarrow> fst r | Some t \<Rightarrow> t) else None)"
  by (auto simp: since_of_def split: list.split)

lemma since_of_stretch:
  "since_of rs = Some t \<Longrightarrow> \<exists>i<length rs. (\<forall>j. i \<le> j \<and> j < length rs \<longrightarrow> missing (rs ! j)) \<and> fst (rs ! i) = t"
proof (induction rs arbitrary: t rule: rev_induct)
  case (snoc r rs)
  show ?case
  proof (cases "since_of rs")
    case None
    then show ?thesis using snoc.prems by (intro exI [of _ "length rs"]) (auto simp: since_of_snoc less_Suc_eq split: if_splits)
  next
    case (Some u)
    then have m: "missing r" "u = t" using snoc.prems by (auto simp: since_of_snoc split: if_splits)
    obtain i where "i < length rs" "\<forall>j. i \<le> j \<and> j < length rs \<longrightarrow> missing (rs ! j)" "fst (rs ! i) = t"
      using snoc.IH [OF Some] m by blast
    then show ?thesis using m by (intro exI [of _ i]) (auto simp: nth_append less_Suc_eq)
  qed
qed (simp add: since_of_def)

lemma since_of_earliest:
  "i < length rs \<Longrightarrow> (\<forall>j. i \<le> j \<and> j < length rs \<longrightarrow> missing (rs ! j)) \<Longrightarrow> sorted (map fst rs) \<Longrightarrow>
    \<exists>t. since_of rs = Some t \<and> t \<le> fst (rs ! i)"
proof (induction rs rule: rev_induct)
  case (snoc r rs)
  have m: "missing r" using snoc.prems(1,2) by (metis length_append_singleton nth_append_length lessI less_Suc_eq_le)
  show ?case
  proof (cases "i = length rs")
    case True
    then show ?thesis using m snoc.prems(3)
    proof (cases "since_of rs")
      case (Some t)
      obtain k where "k < length rs" "fst (rs ! k) = t" using since_of_stretch [OF Some] by blast
      then have "t \<in> fst ` set rs" by force
      then show ?thesis using True m Some snoc.prems(3) by (auto simp: since_of_snoc sorted_append)
    qed (simp add: since_of_snoc)
  next
    case False
    then have i: "i < length rs" using snoc.prems(1) by simp
    have "\<forall>j. i \<le> j \<and> j < length rs \<longrightarrow> missing (rs ! j)" using snoc.prems(2) by (auto simp: nth_append)
    then show ?thesis using snoc.IH [OF i] snoc.prems(3) m i by (auto simp: since_of_snoc sorted_append nth_append)
  qed
qed simp

lemma ends_here:
  assumes "sorted (map fst (pre @ [r]))"
  shows "ends_at (pre @ r # rs) (length pre) \<longleftrightarrow>
    (if missing r then (case since_of pre of None \<Rightarrow> False | Some t \<Rightarrow> fst r - t > 10000000000) else snd (snd r) = RunOk)"
proof (cases "missing r")
  case True
  have e: "ends_at (pre @ r # rs) (length pre) \<longleftrightarrow>
      (\<exists>i<length pre. (\<forall>j. i \<le> j \<and> j < length pre \<longrightarrow> missing (pre ! j)) \<and> fst r - fst (pre ! i) > 10000000000)"
    using True by (auto simp: ends_at_def nth_append)
  have st: "sorted (map fst pre)" using assms by (simp add: sorted_append)
  have "(\<exists>i<length pre. (\<forall>j. i \<le> j \<and> j < length pre \<longrightarrow> missing (pre ! j)) \<and> fst r - fst (pre ! i) > 10000000000)
      \<longleftrightarrow> (\<exists>t. since_of pre = Some t \<and> fst r - t > 10000000000)" (is "?L \<longleftrightarrow> ?R")
  proof
    assume ?L
    then obtain i where i: "i < length pre" "\<forall>j. i \<le> j \<and> j < length pre \<longrightarrow> missing (pre ! j)" "fst r - fst (pre ! i) > 10000000000"
      by blast
    obtain t where "since_of pre = Some t" "t \<le> fst (pre ! i)" using since_of_earliest [OF i(1,2) st] by blast
    then show ?R using i(3) by auto
  next
    assume ?R
    then show ?L using since_of_stretch by blast
  qed
  then show ?thesis using True e by (auto split: option.split)
qed (simp add: ends_at_def)

lemma run_by_key_first_end:
  "sorted (map fst (pre @ rs)) \<Longrightarrow> run_by_key (since_of pre) (length pre) rs = first_end (pre @ rs) (length pre)"
proof (induction rs arbitrary: pre)
  case (Cons r rs)
  obtain now found e where r: "r = (now, found, e)" by (metis prod_cases3)
  have f: "first_end (pre @ r # rs) (length pre) =
      (if ends_at (pre @ r # rs) (length pre) then Some (length pre) else first_end ((pre @ [r]) @ rs) (length (pre @ [r])))"
    unfolding first_end_def by (simp add: upt_conv_Cons del: upt_Suc)
  have h: "ends_at (pre @ r # rs) (length pre) \<longleftrightarrow>
    (if missing r then (case since_of pre of None \<Rightarrow> False | Some t \<Rightarrow> fst r - t > 10000000000) else snd (snd r) = RunOk)"
    using Cons.prems by (intro ends_here) (auto simp: sorted_append)
  have ih: "run_by_key (since_of (pre @ [r])) (Suc (length pre)) rs = first_end ((pre @ [r]) @ rs) (length (pre @ [r]))"
    using Cons.IH [of "pre @ [r]"] Cons.prems by simp
  show ?case using ih unfolding f h
    by (cases e) (auto simp: r missing_def since_of_snoc split: option.split)
qed (simp add: first_end_def)

text \<open>The attach loop never follows a session to a new proxy: it returns in the iteration in which a connection was
  established, for every way that connection can end, although its purpose is to reconnect when the proxy is replaced.\<close>

lemma attach_returns_after_connection:
  assumes "connect dial True = Some conn"
  shows "run_by_key since n ((now, True, run_socket dial True e) # its) = Some n"
  using assms by (simp add: run_socket_def run_conn_def run_loop_result_def)



end
