(* ===== verification/ClientLoop.thy ===== *)
theory ClientLoop
  imports SocketClient
begin

text \<open>
  The rest of the loop of a socket client (\<open>internal/client/client.go\<close>): the pump from the connection to the terminal, and
  the watchers that tell the proxy of a new terminal size (\<open>resize_unix.go\<close>, \<open>resize_windows.go\<close>). The watchers and the
  goroutine that sends the size run beside the terminal, so both are step relations over what can happen.
\<close>

section \<open>The output pump\<close>

definition session_ended :: bytes where
  "session_ended = [CHR 0x0D, CHR 0x0A, ESC] @ ''[33m--- Claude session ended ---'' @ [ESC] @ ''[0m'' @ [CHR 0x0D, CHR 0x0A]"

text \<open>The reads of the connection, each with the bytes read and whether it failed; the writes to the terminal.\<close>

fun output_pump :: "(bytes \<times> bool) list \<Rightarrow> bytes list" where
  "output_pump [] = []"
| "output_pump ((d, err) # rs) = (if d \<noteq> [] then [d] else []) @ (if err then [session_ended] else output_pump rs)"

text \<open>What the connection delivers reaches the terminal, followed by the notice when it ends.\<close>

lemma output_pump_all:
  "list_all (\<lambda>r. \<not> snd r) rs \<Longrightarrow> concat (output_pump (rs @ [(d, True)])) = concat (map fst rs) @ d @ session_ended"
  by (induction rs) auto

section \<open>The size of the terminal\<close>

type_synonym size = "int \<times> int"

definition resize_frame :: "size option \<Rightarrow> client_effect list" where
  "resize_frame got = (case got of None \<Rightarrow> [] | Some (cols, rows) \<Rightarrow> [Send (MResize cols rows)])"

text \<open>
  \<open>ws_cur\<close> is the size the terminal has, \<open>ws_sent\<close> the one the proxy was last told. On unix a change raises a signal:
  the channel of signals, the watcher and the channel of notices hold one each.
\<close>

record winch =
  ws_cur :: size
  ws_sent :: size
  ws_signal :: bool
  ws_held :: bool
  ws_notice :: bool

inductive winch_step :: "winch \<Rightarrow> winch \<Rightarrow> bool" where
  resize: "winch_step s (s\<lparr>ws_cur := sz, ws_signal := True\<rparr>)"
| receive: "ws_signal s \<Longrightarrow> \<not> ws_held s \<Longrightarrow> winch_step s (s\<lparr>ws_signal := False, ws_held := True\<rparr>)"
| notify: "ws_held s \<Longrightarrow> \<not> ws_notice s \<Longrightarrow> winch_step s (s\<lparr>ws_held := False, ws_notice := True\<rparr>)"
| send: "ws_notice s \<Longrightarrow> winch_step s (s\<lparr>ws_notice := False, ws_sent := ws_cur s\<rparr>)"

definition winch_start :: "size \<Rightarrow> winch" where
  "winch_start sz = \<lparr>ws_cur = sz, ws_sent = sz, ws_signal = False, ws_held = False, ws_notice = False\<rparr>"

definition winch_idle :: "winch \<Rightarrow> bool" where
  "winch_idle s \<longleftrightarrow> \<not> ws_signal s \<and> \<not> ws_held s \<and> \<not> ws_notice s"

lemma winch_follows:
  assumes "winch_step\<^sup>*\<^sup>* (winch_start sz) s"
  shows "winch_idle s \<longrightarrow> ws_sent s = ws_cur s"
  using assms
proof (induction rule: rtranclp_induct)
  case (step y z)
  from step(2,3) show ?case by cases (auto simp: winch_idle_def)
qed (simp add: winch_start_def)

text \<open>
  On windows the size is read from time to time; a notice is put into a channel of one when it differs from the size read
  before. A size that cannot be read is skipped.
\<close>

record poller =
  pl_cur :: "size option"
  pl_sent :: "size option"
  pl_last :: "size option"
  pl_notice :: bool

definition poll_tick :: "poller \<Rightarrow> poller" where
  "poll_tick s = (case pl_cur s of
      None \<Rightarrow> s
    | Some sz \<Rightarrow> if pl_last s \<noteq> Some sz then s\<lparr>pl_last := Some sz, pl_notice := True\<rparr> else s)"

definition poll_send :: "poller \<Rightarrow> poller" where
  "poll_send s = s\<lparr>pl_notice := False, pl_sent := (case pl_cur s of None \<Rightarrow> pl_sent s | Some sz \<Rightarrow> Some sz)\<rparr>"

inductive poll_step :: "poller \<Rightarrow> poller \<Rightarrow> bool" where
  resize: "poll_step s (s\<lparr>pl_cur := sz\<rparr>)"
| tick: "poll_step s (poll_tick s)"
| send: "pl_notice s \<Longrightarrow> poll_step s (poll_send s)"

definition poll_start :: "size \<Rightarrow> poller" where
  "poll_start sz = \<lparr>pl_cur = Some sz, pl_sent = Some sz, pl_last = Some sz, pl_notice = False\<rparr>"

text \<open>
  The size that was sent can be newer than the one that was polled. When the terminal then returns to the polled size before
  the next tick, no notice is given any more: nothing is pending, the poller sees no change, and the proxy has a size that the
  terminal does not have.
\<close>

lemma poll_misses_return:
  assumes "a \<noteq> b" "a0 \<noteq> a"
  shows "\<exists>s. poll_step\<^sup>*\<^sup>* (poll_start a0) s \<and> \<not> pl_notice s \<and> poll_tick s = s \<and> pl_cur s = Some a \<and> pl_sent s = Some b"
proof -
  let ?s = "poll_start a0"
  let ?s1 = "poll_tick (?s\<lparr>pl_cur := Some a\<rparr>)"
  let ?s2 = "poll_send (?s1\<lparr>pl_cur := Some b\<rparr>)"
  let ?s3 = "?s2\<lparr>pl_cur := Some a\<rparr>"
  have n: "pl_notice (?s1\<lparr>pl_cur := Some b\<rparr>)" using assms by (simp add: poll_tick_def poll_start_def)
  have "poll_step\<^sup>*\<^sup>* ?s ?s3"
    using poll_step.resize [of ?s "Some a"] poll_step.tick [of "?s\<lparr>pl_cur := Some a\<rparr>"] poll_step.resize [of ?s1 "Some b"]
      poll_step.send [OF n] poll_step.resize [of ?s2 "Some a"]
    by (meson converse_rtranclp_into_rtranclp rtranclp.rtrancl_refl)
  moreover have "\<not> pl_notice ?s3 \<and> poll_tick ?s3 = ?s3 \<and> pl_cur ?s3 = Some a \<and> pl_sent ?s3 = Some b"
    using assms by (simp add: poll_tick_def poll_send_def poll_start_def)
  ultimately show ?thesis by blast
qed

text \<open>When the size changes at most once between two ticks that were answered, the proxy follows.\<close>

lemma poll_follows:
  assumes "pl_sent s = pl_last s" "pl_cur s = Some sz"
  shows "pl_sent (let s = poll_tick s in if pl_notice s then poll_send s else s) = Some sz"
  using assms by (simp add: poll_tick_def poll_send_def Let_def)

end
