(* ===== verification/Scanner.thy ===== *)
theory Scanner
  imports GoUtf8
begin

text \<open>
  \<open>internal/scanner\<close>: finding the claude processes. The pure parsers of \<open>scanner.go\<close> and the two listings,
  \<open>ps aux\<close> with \<open>lsof\<close> (\<open>scanner_unix.go\<close>) and the CIM query (\<open>scanner_windows.go\<close>), whose
  outputs are parameters. A \<open>float64\<close> is kept as its 64 bits; \<open>strconv.ParseFloat\<close> is a parameter.
\<close>

record claude_session =
  cs_pid :: int
  cs_cwd :: bytes
  cs_sid :: bytes
  cs_start :: bytes
  cs_cpu :: "64 word"
  cs_mem :: "64 word"

definition no_session :: claude_session where
  "no_session = \<lparr>cs_pid = 0, cs_cwd = [], cs_sid = [], cs_start = [], cs_cpu = 0, cs_mem = 0\<rparr>"

definition session_key :: "claude_session \<Rightarrow> bytes" where
  "session_key s = (if cs_sid s \<noteq> [] then cs_sid s else ''pid-'' @ show_int (cs_pid s))"

definition short_dir :: "claude_session \<Rightarrow> bytes" where
  "short_dir s =
     (let d = trim_right_set (cs_cwd s) ''/'' in
      if d = [] then ''unknown''
      else let l = last (split_on (CHR ''/'') d) in if l = [] then ''unknown'' else l)"

section \<open>Command lines\<close>

definition is_hex_lower :: "byte \<Rightarrow> bool" where
  "is_hex_lower c \<longleftrightarrow> is_digit c \<or> (97 \<le> ord c \<and> ord c \<le> (102::nat))"

text \<open>The regular expression \<open>^[0-9a-f]{8}-[0-9a-f]{4}-\<close>.\<close>

definition session_id_re :: "bytes \<Rightarrow> bool" where
  "session_id_re v \<longleftrightarrow> 14 \<le> length v \<and> list_all is_hex_lower (take 8 v) \<and> v ! 8 = CHR ''-''
     \<and> list_all is_hex_lower (take 4 (drop 9 v)) \<and> v ! 13 = CHR ''-''"

fun extract_session_id :: "bytes list \<Rightarrow> bytes" where
  "extract_session_id (a # v # rest) =
     (if a = ''--resume'' \<and> session_id_re v then v else extract_session_id (v # rest))"
| "extract_session_id _ = []"

definition is_vscode_session :: "bytes list \<Rightarrow> bool" where
  "is_vscode_session cmdline =
     (let j = join '' '' cmdline in contains_sub j ''--output-format'' \<and> contains_sub j ''stream-json'')"

definition is_claude_cmd_base :: "bytes \<Rightarrow> bool" where
  "is_claude_cmd_base b \<longleftrightarrow> b = ''claude'' \<or> has_suffix b ''/claude''"

definition blank :: "byte \<Rightarrow> bool" where
  "blank c \<longleftrightarrow> c = CHR '' '' \<or> c = CHR 0x09"

text \<open>\<open>splitWSN\<close>: \<open>n\<close> counts the splits that are still allowed.\<close>

function split_wsn :: "bytes \<Rightarrow> nat \<Rightarrow> bytes list" where
  "split_wsn s n =
     (let s = dropWhile blank s in
      if s = [] then []
      else if n = 0 then [s]
      else takeWhile (\<lambda>c. \<not> blank c) s # split_wsn (dropWhile (\<lambda>c. \<not> blank c) s) (n - 1))"
  by pat_completeness auto
termination
  by (relation "measure (\<lambda>(s, n). n)") auto

declare split_wsn.simps [simp del]

definition parse_ps_line ::
  "(bytes \<Rightarrow> 64 word) \<Rightarrow> bytes \<Rightarrow> bool \<Rightarrow> claude_session option" where
  "parse_ps_line parse_float line vscode =
     (let parts = split_wsn line 10 in
      if length parts < 11 then None
      else
        let pid_str = parts ! 1; cpu_str = parts ! 2; fs = GoStrings.fields (parts ! 10) in
        if fs = [] then None
        else if \<not> is_claude_cmd_base (hd fs) then None
        else if is_vscode_session fs \<and> \<not> vscode then None
        else (case atoi pid_str of
                None \<Rightarrow> None
              | Some pid \<Rightarrow>
                  Some (no_session\<lparr>cs_pid := pid, cs_sid := extract_session_id fs,
                    cs_start := parts ! 8, cs_cpu := parse_float cpu_str\<rparr>)))"

section \<open>The escapes of lsof\<close>

definition is_hex :: "byte \<Rightarrow> bool" where
  "is_hex c \<longleftrightarrow> is_hex_lower c \<or> (65 \<le> ord c \<and> ord c \<le> (70::nat))"

definition hex_val :: "byte \<Rightarrow> nat" where
  "hex_val c = (if is_digit c then ord c - 48
                else if 97 \<le> ord c \<and> ord c \<le> (102::nat) then ord c - 87 else ord c - 55)"

fun unescape_bytes :: "bytes \<Rightarrow> bytes" where
  "unescape_bytes (a # b # c # d # s) =
     (if a = CHR 0x5C \<and> b = CHR ''x'' \<and> is_hex c \<and> is_hex d
      then char_of (hex_val c * 16 + hex_val d) # unescape_bytes s
      else a # unescape_bytes (b # c # d # s))"
| "unescape_bytes (a # s) = a # unescape_bytes s"
| "unescape_bytes [] = []"

definition unescape_lsof :: "bytes \<Rightarrow> bytes" where
  "unescape_lsof s = (if contains_sub s [CHR 0x5C, CHR ''x''] then unescape_bytes s else s)"

section \<open>Listing on unix\<close>

text \<open>\<open>lsof\<close> is the output of the command for a process id, \<open>None\<close> for an error or a timeout.\<close>

definition get_cwd_lsof :: "(int \<Rightarrow> bytes option) \<Rightarrow> int \<Rightarrow> bytes" where
  "get_cwd_lsof lsof pid =
     (case lsof pid of
        None \<Rightarrow> []
      | Some s \<Rightarrow>
          (case find (\<lambda>ln. has_prefix ln ''n'') (split_on (CHR 0x0A) s) of
             None \<Rightarrow> []
           | Some ln \<Rightarrow> unescape_lsof (drop 1 ln)))"

definition scan_unix ::
  "(bytes \<Rightarrow> 64 word) \<Rightarrow> (int \<Rightarrow> bytes option) \<Rightarrow> bytes option \<Rightarrow> bool \<Rightarrow> claude_session list option" where
  "scan_unix parse_float lsof ps vscode =
     map_option (\<lambda>s.
       map (\<lambda>x. x\<lparr>cs_cwd := get_cwd_lsof lsof (cs_pid x)\<rparr>)
         (List.map_filter (\<lambda>line. parse_ps_line parse_float line vscode)
           (drop 1 (split_on (CHR 0x0A) s)))) ps"

section \<open>Listing on windows\<close>

record arg_state =
  as_args :: "bytes list"
  as_cur :: "rune list"
  as_quote :: bool
  as_bs :: nat

definition flush_bs :: "bool \<Rightarrow> arg_state \<Rightarrow> arg_state" where
  "flush_bs before_quote a =
     a\<lparr>as_cur := as_cur a @ replicate (if before_quote then as_bs a div 2 else as_bs a) 92, as_bs := 0\<rparr>"

definition end_arg :: "arg_state \<Rightarrow> arg_state" where
  "end_arg a = (if as_cur a \<noteq> [] then a\<lparr>as_args := as_args a @ [string_of_runes (as_cur a)], as_cur := []\<rparr>
                else a)"

definition arg_rune :: "arg_state \<Rightarrow> rune \<Rightarrow> arg_state" where
  "arg_rune a c =
     (if c = 92 then a\<lparr>as_bs := as_bs a + 1\<rparr>
      else if c = 34 then
        (if odd (as_bs a) then (let a = flush_bs True a in a\<lparr>as_cur := as_cur a @ [34]\<rparr>)
         else (let a = flush_bs True a in a\<lparr>as_quote := \<not> as_quote a\<rparr>))
      else if (c = 32 \<or> c = 9) \<and> \<not> as_quote a then end_arg (flush_bs False a)
      else (let a = flush_bs False a in a\<lparr>as_cur := as_cur a @ [c]\<rparr>))"

definition split_win_cmdline :: "bytes \<Rightarrow> bytes list" where
  "split_win_cmdline s =
     as_args (end_arg (flush_bs False
       (foldl arg_rune \<lparr>as_args = [], as_cur = [], as_quote = False, as_bs = 0\<rparr> (runes_of s))))"

text \<open>\<open>filepath.Base\<close> on windows; \<open>vol_len\<close> is the length of the volume name at the head of a path.\<close>

definition win_sep :: "byte \<Rightarrow> bool" where
  "win_sep c \<longleftrightarrow> c = CHR ''/'' \<or> c = CHR 0x5C"

definition win_path_base :: "(bytes \<Rightarrow> nat) \<Rightarrow> bytes \<Rightarrow> bytes" where
  "win_path_base vol_len p =
     (if p = [] then ''.''
      else let p = trim_right_set p [CHR ''/'', CHR 0x5C];
               p = drop (vol_len p) p;
               p = rev (takeWhile (\<lambda>c. \<not> win_sep c) (rev p))
           in if p = [] then [CHR 0x5C] else p)"

definition win_claude_base :: "(bytes \<Rightarrow> bytes) \<Rightarrow> (bytes \<Rightarrow> nat) \<Rightarrow> bytes \<Rightarrow> bool" where
  "win_claude_base uni vol_len arg0 =
     (is_claude_cmd_base arg0
      \<or> foldl trim_suffix (to_lower uni (win_path_base vol_len arg0)) [''.exe'', ''.cmd'', ''.bat'', ''.ps1'']
        = ''claude'')"

definition scan_windows_line ::
  "(bytes \<Rightarrow> bytes) \<Rightarrow> (bytes \<Rightarrow> nat) \<Rightarrow> bool \<Rightarrow> bytes \<Rightarrow> claude_session option" where
  "scan_windows_line uni vol_len vscode ln =
     (let ln = trim_right_set ln [CHR 0x0D] in
      case index_byte ln (CHR 0x09) of
        None \<Rightarrow> None
      | Some 0 \<Rightarrow> None
      | Some i \<Rightarrow>
          (case atoi (trim_space (take i ln)) of
             None \<Rightarrow> None
           | Some pid \<Rightarrow>
               let cmdline = trim_space (drop (Suc i) ln) in
               if cmdline = [] then None
               else let fs = split_win_cmdline cmdline in
                 if fs = [] \<or> \<not> win_claude_base uni vol_len (hd fs) then None
                 else if is_vscode_session fs \<and> \<not> vscode then None
                 else Some (no_session\<lparr>cs_pid := pid, cs_sid := extract_session_id fs\<rparr>)))"

definition scan_windows ::
  "(bytes \<Rightarrow> bytes) \<Rightarrow> (bytes \<Rightarrow> nat) \<Rightarrow> bytes option \<Rightarrow> bool \<Rightarrow> claude_session list option" where
  "scan_windows uni vol_len cim vscode =
     map_option (\<lambda>s. List.map_filter (scan_windows_line uni vol_len vscode) (split_on (CHR 0x0A) s)) cim"

section \<open>The parsers on well-formed input\<close>

text \<open>A word has no blanks; the columns of \<open>ps aux\<close> are words but for the command.\<close>

definition word :: "bytes \<Rightarrow> bool" where
  "word w \<longleftrightarrow> w \<noteq> [] \<and> list_all (\<lambda>c. \<not> blank c) w"

definition gap :: "bytes \<Rightarrow> bool" where
  "gap g \<longleftrightarrow> g \<noteq> [] \<and> list_all blank g"

lemma dropWhile_gap: "list_all blank g \<Longrightarrow> dropWhile blank (g @ s) = dropWhile blank s"
  by (induction g) auto

lemma word_span:
  assumes "word w" and "s = [] \<or> blank (hd s)"
  shows "takeWhile (\<lambda>c. \<not> blank c) (w @ s) = w" "dropWhile (\<lambda>c. \<not> blank c) (w @ s) = s"
proof -
  have w: "\<forall>c \<in> set w. \<not> blank c" using assms(1) by (simp add: word_def list_all_iff)
  have s: "takeWhile (\<lambda>c. \<not> blank c) s = []" "dropWhile (\<lambda>c. \<not> blank c) s = s"
    using assms(2) by (cases s; auto)+
  show "takeWhile (\<lambda>c. \<not> blank c) (w @ s) = w" using w s by (simp add: takeWhile_append)
  show "dropWhile (\<lambda>c. \<not> blank c) (w @ s) = s" using w s by (simp add: dropWhile_append)
qed

fun row :: "(bytes \<times> bytes) list \<Rightarrow> bytes \<Rightarrow> bytes" where
  "row [] cmd = cmd"
| "row ((w, g) # cols) cmd = w @ g @ row cols cmd"

lemma split_wsn_row:
  assumes "list_all (\<lambda>(w, g). word w \<and> gap g) cols" and "cmd \<noteq> []" and "\<not> blank (hd cmd)"
  shows "split_wsn (row cols cmd) (length cols) = map fst cols @ [cmd]"
  using assms(1)
proof (induction cols)
  case Nil
  then show ?case using assms(2,3) by (cases cmd) (simp_all add: split_wsn.simps [of _ 0])
next
  case (Cons c cols)
  obtain w g where c: "c = (w, g)" by (cases c)
  have w: "word w" and g: "gap g" using Cons.prems c by auto
  have d: "dropWhile blank (w @ g @ row cols cmd) = w @ g @ row cols cmd"
    using w by (cases w) (auto simp: word_def)
  have h: "g @ row cols cmd = [] \<or> blank (hd (g @ row cols cmd))"
    using g by (cases g) (auto simp: gap_def)
  have skip: "split_wsn (g @ s) n = split_wsn s n" for s n
    using g by (simp add: split_wsn.simps [of "g @ s"] split_wsn.simps [of s] dropWhile_gap gap_def)
  have ne: "w @ g @ row cols cmd \<noteq> []" using w by (simp add: word_def)
  have "split_wsn (row (c # cols) cmd) (length (c # cols))
        = w # split_wsn (g @ row cols cmd) (length cols)"
    using ne unfolding c row.simps split_wsn.simps [of "w @ g @ row cols cmd"] d Let_def
    by (simp add: word_span [OF w h])
  then show ?case using Cons c by (simp add: skip)
qed

lemma ps_row_parsed:
  assumes "length cols = 10" and "list_all (\<lambda>(w, g). word w \<and> gap g) cols"
    and "cmd \<noteq> []" and "\<not> blank (hd cmd)"
    and "fst (cols ! 1) = show_nat n" and "n < 2 ^ 63"
  shows "parse_ps_line pf (row cols cmd) vscode =
     (let fs = GoStrings.fields cmd in
      if fs \<noteq> [] \<and> is_claude_cmd_base (hd fs) \<and> (is_vscode_session fs \<longrightarrow> vscode)
      then Some \<lparr>cs_pid = int n, cs_cwd = [], cs_sid = extract_session_id fs, cs_start = fst (cols ! 8),
        cs_cpu = pf (fst (cols ! 2)), cs_mem = 0\<rparr>
      else None)"
  using assms split_wsn_row [OF assms(2-4)]
  by (simp add: parse_ps_line_def Let_def nth_append no_session_def atoi_show_nat)

text \<open>The quoting that \<open>CommandLineToArgvW\<close> undoes: backslashes are doubled before a quote.\<close>

fun esc_arg :: "nat \<Rightarrow> rune list \<Rightarrow> rune list" where
  "esc_arg n [] = replicate n 92 @ [34]"
| "esc_arg n (c # cs) =
     (if c = 92 then 92 # esc_arg (Suc n) cs
      else if c = 34 then replicate n 92 @ [92, 34] @ esc_arg 0 cs
      else c # esc_arg 0 cs)"

definition quote_arg :: "rune list \<Rightarrow> rune list" where
  "quote_arg a = 34 # esc_arg 0 a"

fun quote_args :: "rune list list \<Rightarrow> rune list" where
  "quote_args [] = []"
| "quote_args [a] = quote_arg a"
| "quote_args (a # b # as) = quote_arg a @ 32 # quote_args (b # as)"

lemma arg_rune_simps [simp]:
  "arg_rune a 92 = a\<lparr>as_bs := as_bs a + 1\<rparr>"
  "odd (as_bs a) \<Longrightarrow> arg_rune a 34 = (flush_bs True a)\<lparr>as_cur := as_cur (flush_bs True a) @ [34]\<rparr>"
  "even (as_bs a) \<Longrightarrow> arg_rune a 34 = (flush_bs True a)\<lparr>as_quote := \<not> as_quote (flush_bs True a)\<rparr>"
  "c \<noteq> 92 \<Longrightarrow> c \<noteq> 34 \<Longrightarrow> as_quote a \<Longrightarrow>
     arg_rune a c = (flush_bs False a)\<lparr>as_cur := as_cur (flush_bs False a) @ [c]\<rparr>"
  "\<not> as_quote a \<Longrightarrow> arg_rune a 32 = end_arg (flush_bs False a)"
  by (auto simp: arg_rune_def Let_def)

lemma arg_backslashes: "foldl arg_rune a (replicate n 92) = a\<lparr>as_bs := as_bs a + n\<rparr>"
  by (induction n arbitrary: a) auto

lemma esc_arg_read:
  "foldl arg_rune \<lparr>as_args = xs, as_cur = cur, as_quote = True, as_bs = n\<rparr> (esc_arg n a)
   = \<lparr>as_args = xs, as_cur = cur @ replicate n 92 @ a, as_quote = False, as_bs = 0\<rparr>"
proof (induction a arbitrary: n cur)
  case Nil
  then show ?case by (simp add: arg_backslashes flush_bs_def)
next
  case (Cons c cs)
  consider "c = 92" | "c = 34" | "c \<noteq> 92" "c \<noteq> 34" by blast
  then show ?case
  proof cases
    case 1
    then show ?thesis using Cons [of cur "Suc n"]
      by (simp add: replicate_append_same)
  next
    case 2
    then show ?thesis using Cons [of "cur @ replicate n 92 @ [34]" 0]
      by (simp add: arg_backslashes flush_bs_def)
  next
    case 3
    then show ?thesis using Cons [of "cur @ replicate n 92 @ [c]" 0]
      by (simp add: flush_bs_def)
  qed
qed

lemma quote_arg_read:
  "foldl arg_rune \<lparr>as_args = xs, as_cur = [], as_quote = False, as_bs = 0\<rparr> (quote_arg a)
   = \<lparr>as_args = xs, as_cur = a, as_quote = False, as_bs = 0\<rparr>"
  using esc_arg_read [of xs "[]" 0 a] by (simp add: quote_arg_def flush_bs_def)

lemma quote_args_read:
  assumes "list_all (\<lambda>a. a \<noteq> []) as"
  shows "as_args (end_arg (flush_bs False
     (foldl arg_rune \<lparr>as_args = xs, as_cur = [], as_quote = False, as_bs = 0\<rparr> (quote_args as))))
   = xs @ map string_of_runes as"
  using assms
proof (induction "as" arbitrary: xs rule: quote_args.induct)
  case (3 a b "as")
  have "arg_rune \<lparr>as_args = xs, as_cur = a, as_quote = False, as_bs = 0\<rparr> 32
        = \<lparr>as_args = xs @ [string_of_runes a], as_cur = [], as_quote = False, as_bs = 0\<rparr>"
    using 3(2) by (simp add: flush_bs_def end_arg_def)
  then show ?case using 3 by (simp add: quote_arg_read)
qed (auto simp: quote_arg_read flush_bs_def end_arg_def)

lemma quote_args_valid:
  assumes "list_all (list_all valid_rune) as"
  shows "list_all valid_rune (quote_args as)"
proof -
  have esc: "list_all valid_rune (esc_arg n a)" if "list_all valid_rune a" for n a
    using that by (induction a arbitrary: n) (auto simp: valid_rune_def list_all_iff)
  show ?thesis using assms
    by (induction "as" rule: quote_args.induct)
       (auto simp: quote_arg_def esc valid_rune_def)
qed

lemma win_cmdline_split:
  assumes "list_all (\<lambda>a. a \<noteq> [] \<and> list_all valid_rune a) as"
  shows "split_win_cmdline (string_of_runes (quote_args as)) = map string_of_runes as"
proof -
  have "list_all (list_all valid_rune) as" and ne: "list_all (\<lambda>a. a \<noteq> []) as"
    using assms by (auto simp: list_all_iff)
  then show ?thesis
    using quote_args_read [OF ne, of "[]"]
    by (simp add: split_win_cmdline_def runes_of_string quote_args_valid)
qed

text \<open>Quoting any list of non-empty arguments by the rules that Windows documents for command lines, and
  splitting the result, gives the arguments back: no argument is cut at a blank, and no quote or backslash
  is lost or added.
\<close>

theorem win_cmdline_roundtrip:
  assumes "list_all (\<lambda>a. a \<noteq> [] \<and> list_all valid_rune a) as"
  shows "split_win_cmdline (string_of_runes (quote_args as)) = map string_of_runes as"
  using assms by (rule win_cmdline_split)

theorem win_cmdline_roundtrip_witness:
  "split_win_cmdline (string_of_runes (quote_args [[67, 58, 92, 32, 92], [34, 8599]]))
   = map string_of_runes [[67, 58, 92, 32, 92], [34, 8599]]"
  by (rule win_cmdline_roundtrip) (simp add: valid_rune_def)

text \<open>Windows gives a program its empty arguments too; here they are dropped.\<close>

lemma empty_argument_lost: "split_win_cmdline ''a \"\" b'' = [''a'', ''b'']"
proof -
  have s: "string_of_runes [97, 32, 34, 34, 32, 98] = ''a \"\" b''" "string_of_runes [97] = ''a''"
    "string_of_runes [98] = ''b''" by (simp_all add: string_of_runes_def char_of_def bit_0)
  then have "runes_of ''a \"\" b'' = [97, 32, 34, 34, 32, 98]"
    using runes_of_string [of "[97, 32, 34, 34, 32, 98]"] by (simp add: valid_rune_def)
  then show ?thesis
    by (simp add: split_win_cmdline_def flush_bs_def end_arg_def s arg_rune_def)
qed

text \<open>\<open>last == ""\<close> never happens in \<open>ShortDir\<close>: the trailing slashes are gone.\<close>

lemma last_split_on: "s \<noteq> [] \<Longrightarrow> last s \<noteq> c \<Longrightarrow> last (split_on c s) \<noteq> []"
proof (induction s)
  case (Cons x s)
  then show ?case by (cases s) (auto split: list.splits if_splits)
qed simp

lemma last_trim_right: "trim_right_set s cs \<noteq> [] \<Longrightarrow> last (trim_right_set s cs) \<notin> set cs"
  unfolding trim_right_set_def by (metis hd_dropWhile last_rev rev_is_Nil_conv)

lemma short_dir_component:
  "trim_right_set (cs_cwd s) ''/'' \<noteq> [] \<Longrightarrow>
   short_dir s = last (split_on (CHR ''/'') (trim_right_set (cs_cwd s) ''/'')) \<and> short_dir s \<noteq> []"
  using last_split_on [of "trim_right_set (cs_cwd s) ''/''" "CHR ''/''"] last_trim_right [of "cs_cwd s" "''/''"]
  by (auto simp: short_dir_def Let_def)

end
