(* ===== verification/Tmux.thy ===== *)
theory Tmux
  imports Scanner
begin

text \<open>
  \<open>internal/tmux\<close>: the window manager, a thin layer over the tmux executable (\<open>tmux.go\<close>), the markers that tie a
  window to a remote session (\<open>mark_unix.go\<close>, \<open>mark_windows.go\<close>) and the quoting of the commands run in
  windows (\<open>quote_unix.go\<close>, \<open>quote_windows.go\<close>). The tmux executable is the parameter \<open>tm\<close>: it takes the
  state of the tmux server and an argument list and gives the standard output (\<open>None\<close> for a non-zero exit
  code) and the new state. The two build variants are selected by a value of type \<open>os\<close>.
\<close>

datatype os = Unix | Windows

type_synonym 'w tmux = "'w \<Rightarrow> bytes list \<Rightarrow> bytes option \<times> 'w"

section \<open>Running tmux\<close>

definition out_err :: "'w tmux \<Rightarrow> bytes list \<Rightarrow> 'w \<Rightarrow> bytes option \<times> 'w" where
  "out_err tm args w = (case tm w args of (r, w) \<Rightarrow> (map_option trim_space r, w))"

definition tm_out :: "'w tmux \<Rightarrow> bytes list \<Rightarrow> 'w \<Rightarrow> bytes \<times> 'w" where
  "tm_out tm args w = (case out_err tm args w of (r, w) \<Rightarrow> (case r of None \<Rightarrow> [] | Some s \<Rightarrow> s, w))"

definition tm_ok :: "'w tmux \<Rightarrow> bytes list \<Rightarrow> 'w \<Rightarrow> bool \<times> 'w" where
  "tm_ok tm args w = (case tm w args of (r, w) \<Rightarrow> (r \<noteq> None, w))"

section \<open>Quoting\<close>

text \<open>The characters that need no quotes; \<open>\\<close> is one of them on windows.\<close>

definition quote_safe :: "os \<Rightarrow> rune \<Rightarrow> bool" where
  "quote_safe os r \<longleftrightarrow> r \<in> {95, 45, 46, 47, 58, 64} \<or> (os = Windows \<and> r = 92)
     \<or> (97 \<le> r \<and> r \<le> 122) \<or> (65 \<le> r \<and> r \<le> 90) \<or> (48 \<le> r \<and> r \<le> 57)"

definition shquote_unix :: "bytes \<Rightarrow> bytes" where
  "shquote_unix s =
     (if s = [] then [CHR 0x27, CHR 0x27]
      else if list_all (quote_safe Unix) (runes_of s) then s
      else [CHR 0x27]
        @ replace_all s [CHR 0x27] [CHR 0x27, CHR 0x22, CHR 0x27, CHR 0x22, CHR 0x27]
        @ [CHR 0x27])"

definition shquote_windows :: "bytes \<Rightarrow> bytes" where
  "shquote_windows s =
     (if s = [] then [CHR 0x22, CHR 0x22]
      else if list_all (quote_safe Windows) (runes_of s) then s
      else [CHR 0x22] @ replace_all s [CHR 0x22] [CHR 0x22, CHR 0x22] @ [CHR 0x22])"

definition shquote :: "os \<Rightarrow> bytes \<Rightarrow> bytes" where
  "shquote os s = (case os of Unix \<Rightarrow> shquote_unix s | Windows \<Rightarrow> shquote_windows s)"

text \<open>\<open>shell_env\<close> is the value of \<open>SHELL\<close>, empty when unset.\<close>

definition interactive_shell_unix :: "bytes \<Rightarrow> bytes \<Rightarrow> bytes" where
  "interactive_shell_unix shell_env cwd =
     (let sh = (if shell_env = [] then ''/bin/zsh'' else shell_env) in
      if cwd \<noteq> [] then ''cd '' @ shquote_unix cwd @ '' && exec '' @ sh else ''exec '' @ sh)"

definition interactive_shell_windows :: "bytes \<Rightarrow> bytes" where
  "interactive_shell_windows cwd =
     (if cwd \<noteq> [] then ''cmd /k cd /d '' @ shquote_windows cwd else ''cmd'')"

definition interactive_shell :: "os \<Rightarrow> bytes \<Rightarrow> bytes \<Rightarrow> bytes" where
  "interactive_shell os shell_env cwd =
     (case os of Unix \<Rightarrow> interactive_shell_unix shell_env cwd | Windows \<Rightarrow> interactive_shell_windows cwd)"

text \<open>\<open>self\<close> is the result of \<open>os.Executable\<close>, \<open>None\<close> for an error.\<close>

definition socket_cmd :: "os \<Rightarrow> bytes option \<Rightarrow> bytes \<Rightarrow> bytes" where
  "socket_cmd os self path =
     (let me = (case self of None \<Rightarrow> ''claude-master''
                | Some s \<Rightarrow> if s = [] then ''claude-master'' else s)
      in shquote os me @ '' socket-client --retry '' @ shquote os path)"

definition base_name :: "bytes \<Rightarrow> bytes" where
  "base_name p = (case last_index p ''/'' of Some i \<Rightarrow> drop (Suc i) p | None \<Rightarrow> p)"

section \<open>The manager and its windows\<close>

record manager =
  mg_session :: bytes
  mg_map :: "bytes \<Rightarrow> bytes option"

definition new_manager :: "bool \<Rightarrow> bytes \<Rightarrow> manager option" where
  "new_manager have_tmux session =
     (if have_tmux then Some \<lparr>mg_session = session, mg_map = (\<lambda>_. None)\<rparr> else None)"

text \<open>A key that is not in the map reads as the empty name.\<close>

definition window_for :: "manager \<Rightarrow> bytes \<Rightarrow> bytes" where
  "window_for m key = (case mg_map m key of None \<Rightarrow> [] | Some n \<Rightarrow> n)"

definition adopt_window :: "bytes \<Rightarrow> bytes \<Rightarrow> manager \<Rightarrow> manager" where
  "adopt_window key name m = m\<lparr>mg_map := (mg_map m)(key \<mapsto> name)\<rparr>"

definition target :: "manager \<Rightarrow> bytes \<Rightarrow> bytes" where
  "target m x = mg_session m @ '':'' @ x"

definition list_names_args :: "manager \<Rightarrow> bytes list" where
  "list_names_args m = [''list-windows'', ''-t'', mg_session m, ''-F'', ''#{window_name}'']"

definition list_windows :: "'w tmux \<Rightarrow> manager \<Rightarrow> 'w \<Rightarrow> bytes list \<times> 'w" where
  "list_windows tm m w =
     (case tm_out tm (list_names_args m) w of
        (o', w) \<Rightarrow> (if o' = [] then [] else split_on (CHR 0x0A) o', w))"

definition list_windows_err :: "'w tmux \<Rightarrow> manager \<Rightarrow> 'w \<Rightarrow> bytes list option \<times> 'w" where
  "list_windows_err tm m w =
     (case out_err tm (list_names_args m) w of
        (r, w) \<Rightarrow> (map_option (\<lambda>o'. if o' = [] then [] else split_on (CHR 0x0A) o') r, w))"

text \<open>\<open>itoa\<close> writes into a buffer of four bytes: a longer number is an index panic.\<close>

function itoa_loop :: "int \<Rightarrow> nat \<Rightarrow> bytes \<Rightarrow> bytes option" where
  "itoa_loop i n acc =
     (if i \<le> 0 then Some acc
      else if n = 0 then None
      else itoa_loop (i div 10) (n - 1) (char_of (48 + nat (i mod 10)) # acc))"
  by pat_completeness auto
termination
  by (relation "measure (\<lambda>(i, n, acc). n)") auto

declare itoa_loop.simps [simp del]

definition itoa :: "int \<Rightarrow> bytes option" where
  "itoa i = (if i = 0 then Some ''0'' else itoa_loop i 4 [])"

fun unique_from :: "bytes list \<Rightarrow> bytes \<Rightarrow> bytes \<Rightarrow> nat \<Rightarrow> nat \<Rightarrow> bytes option" where
  "unique_from existing base pre i 0 = Some base"
| "unique_from existing base pre i (Suc k) =
     Option.bind (itoa (int i)) (\<lambda>d.
       if pre @ ''-'' @ d \<in> set existing then unique_from existing base pre (Suc i) k
       else Some (pre @ ''-'' @ d))"

text \<open>\<open>uniqueName\<close>, on the names that \<open>ListWindows\<close> gave; \<open>None\<close> would be the panic of \<open>itoa\<close>.\<close>

definition unique_name :: "bytes list \<Rightarrow> bytes \<Rightarrow> bytes option" where
  "unique_name existing base =
     (let base = take 20 base; pre = take 17 base in
      if base \<notin> set existing then Some base else unique_from existing base pre 2 48)"

definition new_window_args :: "manager \<Rightarrow> bytes \<Rightarrow> bytes \<Rightarrow> bytes list" where
  "new_window_args m name cmd = [''new-window'', ''-a'', ''-t'', mg_session m, ''-n'', name, cmd]"

text \<open>
  The common body of \<open>EnsureCmdWindow\<close> and \<open>AddWindow\<close>: reuse the window known for the key when tmux still
  has it, else create one under a fresh name. The list of windows is only asked for when a name is known.
\<close>

definition ensure_window ::
  "'w tmux \<Rightarrow> bytes \<Rightarrow> bytes \<Rightarrow> bytes \<Rightarrow> manager \<Rightarrow> 'w \<Rightarrow> (bytes \<times> manager \<times> 'w) option" where
  "ensure_window tm key base cmd m w =
     (let ex = window_for m key;
          (known, w) = (if ex = [] then (False, w)
                        else case list_windows tm m w of (ns, w) \<Rightarrow> (ex \<in> set ns, w))
      in if known then Some (ex, m, w)
         else (case list_windows tm m w of (ns, w) \<Rightarrow>
           Option.bind (unique_name ns base) (\<lambda>name.
             case tm_out tm (new_window_args m name cmd) w of
               (_, w) \<Rightarrow> Some (name, adopt_window key name m, w))))"

definition ensure_cmd_window where
  "ensure_cmd_window tm key base command m w = ensure_window tm key base command m w"

text \<open>\<open>AddWindow\<close>: the command is the socket client, or a shell when the session has no socket.\<close>

definition add_window ::
  "os \<Rightarrow> bytes option \<Rightarrow> bytes \<Rightarrow> 'w tmux \<Rightarrow> claude_session \<Rightarrow> bytes \<Rightarrow> manager \<Rightarrow> 'w
   \<Rightarrow> (bytes \<times> manager \<times> 'w) option" where
  "add_window os self shell_env tm s path m w =
     ensure_window tm (session_key s) (short_dir s)
       (if path \<noteq> [] then socket_cmd os self path else interactive_shell os shell_env (cs_cwd s)) m w"

definition rename_window :: "'w tmux \<Rightarrow> bytes \<Rightarrow> bytes \<Rightarrow> manager \<Rightarrow> 'w \<Rightarrow> manager \<times> 'w" where
  "rename_window tm key new m w =
     (let old = window_for m key in
      if old = [] then (m, w)
      else case list_windows tm m w of (ns, w) \<Rightarrow>
        if old \<notin> set ns then (m, w)
        else let new = take 30 new in
          case tm_out tm [''rename-window'', ''-t'', target m old, new] w of
            (_, w) \<Rightarrow> (adopt_window key new m, w))"

definition remove_window :: "'w tmux \<Rightarrow> bytes \<Rightarrow> manager \<Rightarrow> 'w \<Rightarrow> manager \<times> 'w" where
  "remove_window tm key m w =
     (let name = window_for m key in
      if name = [] then (m, w)
      else let m' = m\<lparr>mg_map := (mg_map m)(key := None)\<rparr> in
        case list_windows tm m w of (ns, w) \<Rightarrow>
          if name \<in> set ns then (m', snd (tm_out tm [''kill-window'', ''-t'', target m name] w))
          else (m', w))"

definition kill_window_id :: "'w tmux \<Rightarrow> manager \<Rightarrow> bytes \<Rightarrow> 'w \<Rightarrow> 'w" where
  "kill_window_id tm m wid w =
     (if wid \<noteq> [] then snd (tm_out tm [''kill-window'', ''-t'', target m wid] w) else w)"

text \<open>The two \<open>set-option\<close> commands of \<open>StyleWindowID\<close> and \<open>SetWindowStyle\<close>.\<close>

definition style_target :: "'w tmux \<Rightarrow> bytes \<Rightarrow> bytes \<Rightarrow> bytes \<Rightarrow> 'w \<Rightarrow> 'w" where
  "style_target tm t style cur w =
     snd (tm_out tm [''set-option'', ''-w'', ''-t'', t, ''window-status-current-style'', cur]
       (snd (tm_out tm [''set-option'', ''-w'', ''-t'', t, ''window-status-style'', style] w)))"

definition style_window_id :: "'w tmux \<Rightarrow> manager \<Rightarrow> bytes \<Rightarrow> bytes \<Rightarrow> 'w \<Rightarrow> 'w" where
  "style_window_id tm m wid style w =
     (if wid = [] then w else style_target tm (target m wid) style (style @ '',bold'') w)"

definition set_window_style :: "'w tmux \<Rightarrow> manager \<Rightarrow> bytes \<Rightarrow> bytes \<Rightarrow> 'w \<Rightarrow> 'w" where
  "set_window_style tm m key style w =
     (let name = window_for m key in
      if name = [] then w else style_target tm (target m name) style (style @ '',reverse'') w)"

definition reattach_window :: "os \<Rightarrow> bytes option \<Rightarrow> 'w tmux \<Rightarrow> manager \<Rightarrow> bytes \<Rightarrow> bytes \<Rightarrow> 'w \<Rightarrow> 'w" where
  "reattach_window os self tm m name path w =
     snd (tm_out tm [''send-keys'', ''-t'', target m name, socket_cmd os self path, ''Enter''] w)"

definition is_socket_client_running ::
  "(bytes \<Rightarrow> bytes) \<Rightarrow> bytes option \<Rightarrow> 'w tmux \<Rightarrow> manager \<Rightarrow> bytes \<Rightarrow> 'w \<Rightarrow> bool \<times> 'w" where
  "is_socket_client_running uni self tm m name w =
     (case tm_out tm [''list-panes'', ''-t'', target m name, ''-F'', ''#{pane_current_command}''] w of
        (o', w) \<Rightarrow>
          (let o' = to_lower uni o';
               me = (case self of None \<Rightarrow> ''claude-master'' | Some ex \<Rightarrow> to_lower uni (base_name ex))
           in (contains_sub o' me \<or> contains_sub o' ''python'' \<or> contains_sub o' ''bash'', w)))"

section \<open>Markers\<close>

text \<open>
  A window of a remote session carries a marker: on unix in the option \<open>@cm_remote\<close>, on windows base32-encoded
  at the end of its name. \<open>base32.StdEncoding.WithPadding(NoPadding)\<close>: five bytes are eight letters.
\<close>

definition b32_char :: "nat \<Rightarrow> byte" where
  "b32_char d = (if d < 26 then char_of (65 + d) else char_of (24 + d))"

definition b32_val :: "byte \<Rightarrow> nat option" where
  "b32_val c = (if 65 \<le> ord c \<and> ord c \<le> (90::nat) then Some (ord c - 65)
                else if 50 \<le> ord c \<and> ord c \<le> (55::nat) then Some (ord c - 24) else None)"

text \<open>The bits of a group, most significant first, as a number: \<open>n\<close> digits of \<open>k\<close> bits.\<close>

fun digits_be :: "nat \<Rightarrow> nat \<Rightarrow> nat \<Rightarrow> nat list" where
  "digits_be k 0 x = []"
| "digits_be k (Suc n) x = x div 2 ^ (k * n) mod 2 ^ k # digits_be k n x"

fun undigits :: "nat \<Rightarrow> nat list \<Rightarrow> nat" where
  "undigits k [] = 0"
| "undigits k (d # ds) = d * 2 ^ (k * length ds) + undigits k ds"

text \<open>\<open>r\<close> bytes, 1 to 5, make 2, 4, 5, 7 or 8 letters; the last letter is filled with zero bits.\<close>

definition b32_letters :: "nat \<Rightarrow> nat" where
  "b32_letters r = (8 * r + 4) div 5"

definition b32_group :: "bytes \<Rightarrow> bytes" where
  "b32_group g =
     (let n = b32_letters (length g)
      in map b32_char (digits_be 5 n (undigits 8 (map ord g) * 2 ^ (5 * n - 8 * length g))))"

function b32_encode :: "bytes \<Rightarrow> bytes" where
  "b32_encode s = (if s = [] then [] else b32_group (take 5 s) @ b32_encode (drop 5 s))"
  by pat_completeness auto
termination
  by (relation "measure length") auto

declare b32_encode.simps [simp del]

text \<open>
  Decoding: line breaks are dropped, any other foreign character is an error; a last group of 1, 3 or 6
  letters gives no byte.
\<close>

definition b32_ungroup :: "nat list \<Rightarrow> bytes" where
  "b32_ungroup ds =
     (let n = length ds; r = 5 * n div 8
      in if n \<in> {2, 4, 5, 7, 8}
         then map char_of (digits_be 8 r (undigits 5 ds div 2 ^ (5 * n - 8 * r))) else [])"

function b32_join :: "nat list \<Rightarrow> bytes" where
  "b32_join ds = (if ds = [] then [] else b32_ungroup (take 8 ds) @ b32_join (drop 8 ds))"
  by pat_completeness auto
termination
  by (relation "measure length") auto

declare b32_join.simps [simp del]

definition b32_decode :: "bytes \<Rightarrow> bytes option" where
  "b32_decode s =
     (let ds = map b32_val (filter (\<lambda>c. c \<noteq> CHR 0x0D \<and> c \<noteq> CHR 0x0A) s)
      in if None \<in> set ds then None else Some (b32_join (map the ds)))"

definition enc_marker_token :: "bytes \<Rightarrow> bytes" where
  "enc_marker_token marker = ''cmr1_'' @ b32_encode marker"

definition dec_marker :: "bytes \<Rightarrow> bytes option" where
  "dec_marker name =
     (case last_index name ''cmr1_'' of
        None \<Rightarrow> None
      | Some i \<Rightarrow> b32_decode (drop (i + 5) name))"

definition initial_name :: "os \<Rightarrow> bytes \<Rightarrow> bytes \<Rightarrow> bytes" where
  "initial_name os name marker =
     (case os of
        Unix \<Rightarrow> name
      | Windows \<Rightarrow>
          if marker = [] then name
          else if name \<noteq> [] then name @ '' '' @ enc_marker_token marker else enc_marker_token marker)"

text \<open>\<open>currentName\<close>: the name of a window by its id.\<close>

definition current_name :: "'w tmux \<Rightarrow> manager \<Rightarrow> bytes \<Rightarrow> 'w \<Rightarrow> bytes \<times> 'w" where
  "current_name tm m wid w =
     (case out_err tm [''list-windows'', ''-t'', mg_session m, ''-F'', ''#{window_id}=#{window_name}''] w of
        (None, w) \<Rightarrow> ([], w)
      | (Some o', w) \<Rightarrow>
          (case find (\<lambda>ln. case index_byte ln (CHR ''='') of None \<Rightarrow> False | Some k \<Rightarrow> take k ln = wid)
                  (split_on (CHR 0x0A) o') of
             None \<Rightarrow> ([], w)
           | Some ln \<Rightarrow> (drop (Suc (length wid)) ln, w)))"

text \<open>The name that \<open>markWindow\<close> gives on windows: an old token is cut off first.\<close>

definition marked_name :: "bytes \<Rightarrow> bytes \<Rightarrow> bytes" where
  "marked_name label marker =
     (let label = (case last_index label ''cmr1_'' of None \<Rightarrow> label
                   | Some i \<Rightarrow> trim_right_set (take i label) '' '')
      in if label \<noteq> [] then label @ '' '' @ enc_marker_token marker else enc_marker_token marker)"

definition mark_window :: "os \<Rightarrow> 'w tmux \<Rightarrow> manager \<Rightarrow> bytes \<Rightarrow> bytes \<Rightarrow> 'w \<Rightarrow> 'w" where
  "mark_window os tm m wid marker w =
     (let t = target m wid;
          w = (case os of
                 Unix \<Rightarrow> snd (out_err tm [''set-option'', ''-w'', ''-t'', t, ''@cm_remote'', marker] w)
               | Windows \<Rightarrow>
                   (case current_name tm m wid w of (label, w) \<Rightarrow>
                      snd (out_err tm [''rename-window'', ''-t'', t, marked_name label marker] w)))
      in snd (out_err tm [''set-option'', ''-w'', ''-t'', t, ''automatic-rename'', ''off''] w))"

definition new_marked_window ::
  "os \<Rightarrow> 'w tmux \<Rightarrow> manager \<Rightarrow> bytes \<Rightarrow> bytes \<Rightarrow> bytes \<Rightarrow> 'w \<Rightarrow> bytes \<times> 'w" where
  "new_marked_window os tm m name command marker w =
     (case tm_out tm [''new-window'', ''-a'', ''-t'', mg_session m, ''-n'', initial_name os name marker,
        ''-P'', ''-F'', ''#{window_id}'', command] w of
        (wid, w) \<Rightarrow> (wid, if wid \<noteq> [] then mark_window os tm m wid marker w else w))"

definition new_window :: "os \<Rightarrow> 'w tmux \<Rightarrow> manager \<Rightarrow> bytes \<Rightarrow> bytes \<Rightarrow> 'w \<Rightarrow> bytes \<times> 'w" where
  "new_window os tm m name command w = new_marked_window os tm m name command [] w"

text \<open>One line of the listing: the id before the first \<open>=\<close> and the marker after it, if it has one.\<close>

definition marker_line :: "os \<Rightarrow> bytes \<Rightarrow> (bytes \<times> bytes) option" where
  "marker_line os ln =
     (case index_byte ln (CHR ''='') of
        None \<Rightarrow> None
      | Some i \<Rightarrow>
          (let wid = take i ln; rest = drop (Suc i) ln in
           case os of
             Unix \<Rightarrow> if wid \<noteq> [] \<and> rest \<noteq> [] then Some (wid, rest) else None
           | Windows \<Rightarrow> (case dec_marker rest of None \<Rightarrow> None
                         | Some mk \<Rightarrow> if wid \<noteq> [] then Some (wid, mk) else None)))"

definition marker_format :: "os \<Rightarrow> bytes" where
  "marker_format os =
     (case os of Unix \<Rightarrow> ''#{window_id}=#{@cm_remote}'' | Windows \<Rightarrow> ''#{window_id}=#{window_name}'')"

text \<open>The resulting map, as the list of its entries: a later line for the same id replaces an earlier one.\<close>

definition markers_of :: "os \<Rightarrow> bytes \<Rightarrow> (bytes \<times> bytes) list" where
  "markers_of os o' =
     (if o' = [] then []
      else foldl put_entry [] (List.map_filter (marker_line os) (split_on (CHR 0x0A) o')))"

definition list_window_markers ::
  "os \<Rightarrow> 'w tmux \<Rightarrow> manager \<Rightarrow> 'w \<Rightarrow> (bytes \<times> bytes) list option \<times> 'w" where
  "list_window_markers os tm m w =
     (case out_err tm [''list-windows'', ''-t'', mg_session m, ''-F'', marker_format os] w of
        (r, w) \<Rightarrow> (map_option (markers_of os) r, w))"

definition legacy_line :: "bytes \<Rightarrow> bytes option" where
  "legacy_line ln =
     (let p = split_n (CHR ''='') 3 ln in
      if length p < 3 then None
      else if p ! 1 = [] \<and> has_prefix (p ! 2) [CHR 0xE2, CHR 0x86, CHR 0x97] then Some (p ! 0) else None)"

definition legacy_markerless_ids ::
  "os \<Rightarrow> 'w tmux \<Rightarrow> manager \<Rightarrow> 'w \<Rightarrow> bytes list option \<times> 'w" where
  "legacy_markerless_ids os tm m w =
     (case os of
        Windows \<Rightarrow> (Some [], w)
      | Unix \<Rightarrow>
          (case out_err tm [''list-windows'', ''-t'', mg_session m, ''-F'',
             ''#{window_id}=#{@cm_remote}=#{window_name}''] w of
             (r, w) \<Rightarrow> (map_option (\<lambda>o'. List.map_filter legacy_line (split_on (CHR 0x0A) o')) r, w)))"

section \<open>The session\<close>

definition apply_window_display_format :: "os \<Rightarrow> 'w tmux \<Rightarrow> manager \<Rightarrow> 'w \<Rightarrow> 'w" where
  "apply_window_display_format os tm m w =
     (case os of
        Unix \<Rightarrow> w
      | Windows \<Rightarrow>
          (let f = ''#I:#{s/ cmr1_.*//:window_name}#F'' in
           snd (out_err tm [''set-option'', ''-t'', mg_session m, ''window-status-current-format'', f]
             (snd (out_err tm [''set-option'', ''-t'', mg_session m, ''window-status-format'', f] w)))))"

definition ensure_session :: "os \<Rightarrow> 'w tmux \<Rightarrow> manager \<Rightarrow> 'w \<Rightarrow> 'w" where
  "ensure_session os tm m w =
     (case tm_ok tm [''has-session'', ''-t'', mg_session m] w of (there, w) \<Rightarrow>
        apply_window_display_format os tm m
          (if there then w
           else snd (tm_out tm [''new-session'', ''-d'', ''-s'', mg_session m, ''-n'', ''dashboard''] w)))"

definition setup_dashboard :: "'w tmux \<Rightarrow> manager \<Rightarrow> bytes \<Rightarrow> 'w \<Rightarrow> 'w" where
  "setup_dashboard tm m command w =
     (let t = target m ''dashboard'' in
      case tm_ok tm [''select-window'', ''-t'', t] w of (there, w) \<Rightarrow>
        (let w = (if there then w
                  else snd (tm_out tm [''new-window'', ''-a'', ''-t'', mg_session m, ''-n'', ''dashboard''] w))
         in snd (tm_out tm [''send-keys'', ''-t'', t, command, ''Enter''] w)))"

end
