(* ===== verification/TmuxProps.thy ===== *)
theory TmuxProps
  imports Tmux
begin

text \<open>
  What the window manager relies on: names of new windows are fresh, the command line of a window is read
  by the shell as exactly the intended words, and a marker is recovered from the name it was encoded in.
\<close>

section \<open>Names are fresh\<close>

lemma itoa_show: "0 \<le> i \<Longrightarrow> i < 100 \<Longrightarrow> itoa i = Some (show_nat (nat i))"
proof -
  assume i: "0 \<le> i" "i < 100"
  consider "i = 0" | "0 < i \<and> i < 10" | "10 \<le> i" using i by linarith
  then show ?thesis
  proof cases
    case 1
    then show ?thesis by (simp add: itoa_def show_nat.simps [of 0] char_of_def bit_0)
  next
    case 2
    then have "nat i < 10" "i div 10 = 0" "i mod 10 = i" by auto
    then show ?thesis using 2 by (simp add: itoa_def itoa_loop.simps show_nat.simps [of "nat i"])
  next
    case 3
    have d: "nat i div 10 = nat (i div 10)" "nat i mod 10 = nat (i mod 10)"
      using i by (simp_all add: nat_div_distrib nat_mod_distrib)
    have "0 < i div 10" "i div 10 < 10" "nat (i div 10) < 10" "\<not> nat i < 10" using i 3 by linarith+
    then show ?thesis using i 3
      by (simp add: itoa_def itoa_loop.simps show_nat.simps [of "nat i"] show_nat.simps [of "nat (i div 10)"] d)
  qed
qed

definition candidates :: "bytes \<Rightarrow> bytes list" where
  "candidates pre = map (\<lambda>i. pre @ ''-'' @ show_nat i) [2..<50]"

lemma unique_from_cases:
  "i + k \<le> 50 \<Longrightarrow>
   (\<exists>j. i \<le> j \<and> j < i + k \<and> unique_from ex base pre i k = Some (pre @ ''-'' @ show_nat j)
        \<and> pre @ ''-'' @ show_nat j \<notin> set ex)
   \<or> unique_from ex base pre i k = Some base \<and> (\<forall>j \<in> {i..<i + k}. pre @ ''-'' @ show_nat j \<in> set ex)"
proof (induction k arbitrary: i)
  case (Suc k)
  then have s: "itoa (int i) = Some (show_nat i)" by (simp add: itoa_show)
  show ?case
  proof (cases "pre @ ''-'' @ show_nat i \<in> set ex")
    case True
    have r: "{i..<i + Suc k} = insert i {Suc i..<Suc i + k}" by auto
    have "unique_from ex base pre i (Suc k) = unique_from ex base pre (Suc i) k"
      using True s by simp
    with Suc.IH [of "Suc i"] Suc.prems True show ?thesis
      unfolding r by (metis Suc_leD add_Suc_shift insert_iff)
  next
    case False
    then show ?thesis using s by auto
  qed
qed auto

lemma show_nat_length: "n < 100 \<Longrightarrow> length (show_nat n) \<le> 2"
  using less_mult_imp_div_less [of n 10 10] by (simp add: show_nat.simps [of n] show_nat.simps [of "n div 10"])

lemma unique_name_cases:
  obtains c where "unique_name ex base = Some c" "length c \<le> 20"
    "c \<notin> set ex \<or> set (candidates (take 17 base)) \<subseteq> set ex"
proof -
  let ?b = "take 20 base" let ?p = "take 17 base"
  have p: "take 17 ?b = ?p" by simp
  have "\<exists>c. unique_name ex base = Some c \<and> length c \<le> 20 \<and> (c \<notin> set ex \<or> set (candidates ?p) \<subseteq> set ex)"
  proof (cases "?b \<in> set ex")
    case True
    then have u: "unique_name ex base = unique_from ex ?b ?p 2 48"
      by (simp add: unique_name_def Let_def)
    have "length (?p @ ''-'' @ show_nat j) \<le> 20" if "j < 50" for j
      using show_nat_length [of j] that by simp
    with unique_from_cases [of 2 48 ex ?b ?p] show ?thesis
      unfolding u by (auto simp: candidates_def)
  next
    case False
    then show ?thesis by (simp add: unique_name_def Let_def)
  qed
  then show ?thesis using that by blast
qed

lemma candidates_distinct: "distinct (candidates pre)"
  proof -
  have "inj (\<lambda>i. pre @ ''-'' @ show_nat i)" by (auto simp: inj_on_def show_nat_inj)
  then have "inj_on (\<lambda>i. pre @ ''-'' @ show_nat i) (set [2..<50])" by (rule inj_on_subset) (rule subset_UNIV)
  then show ?thesis unfolding candidates_def distinct_map by (intro conjI distinct_upt)
qed

lemma unique_name_is_fresh:
  assumes "length ex < 48"
  shows "\<exists>c. unique_name ex base = Some c \<and> length c \<le> 20 \<and> c \<notin> set ex"
proof -
  have "\<not> set (candidates pre) \<subseteq> set ex" for pre
  proof
    assume "set (candidates pre) \<subseteq> set ex"
    then have "card (set (candidates pre)) \<le> card (set ex)" by (simp add: card_mono)
    also have "\<dots> \<le> length ex" by (rule card_length)
    finally show False using assms by (simp add: distinct_card candidates_distinct) (simp add: candidates_def del: upt_rec_numeral)
  qed
  then show ?thesis by (metis unique_name_cases)
qed

section \<open>Quoting for the shell\<close>

text \<open>
  What a POSIX shell makes of a command line without expansions: words separated by blanks, single quotes
  that keep everything, double quotes that keep everything but the expansion characters. \<open>None\<close> stands for
  an unterminated quote and for any character that would be more than text (a separator, a redirection,
  an expansion, a pattern, a comment).
\<close>

datatype sh_mode = Plain | Single | Double

definition sh_text :: "byte \<Rightarrow> bool" where
  "sh_text c \<longleftrightarrow> is_digit c \<or> (97 \<le> ord c \<and> ord c \<le> (122::nat)) \<or> (65 \<le> ord c \<and> ord c \<le> (90::nat))
     \<or> ord c \<in> {95, 45, 46, 47, 58, 64, 43, 44, 37 :: nat}"

definition sh_push :: "bytes option \<Rightarrow> byte \<Rightarrow> bytes option" where
  "sh_push cur c = Some ((case cur of None \<Rightarrow> [] | Some w \<Rightarrow> w) @ [c])"

definition sh_emit :: "bytes option \<Rightarrow> bytes list option \<Rightarrow> bytes list option" where
  "sh_emit cur r = (case cur of None \<Rightarrow> r | Some w \<Rightarrow> map_option ((#) w) r)"

fun sh_read :: "sh_mode \<Rightarrow> bytes option \<Rightarrow> bytes \<Rightarrow> bytes list option" where
  "sh_read Plain cur [] = sh_emit cur (Some [])"
| "sh_read Plain cur (c # s) =
     (if c = CHR '' '' \<or> c = CHR 0x09 then sh_emit cur (sh_read Plain None s)
      else if c = CHR 0x27 then sh_read Single (Some (case cur of None \<Rightarrow> [] | Some w \<Rightarrow> w)) s
      else if c = CHR 0x22 then sh_read Double (Some (case cur of None \<Rightarrow> [] | Some w \<Rightarrow> w)) s
      else if sh_text c then sh_read Plain (sh_push cur c) s else None)"
| "sh_read Single cur [] = None"
| "sh_read Single cur (c # s) =
     (if c = CHR 0x27 then sh_read Plain cur s else sh_read Single (sh_push cur c) s)"
| "sh_read Double cur [] = None"
| "sh_read Double cur (c # s) =
     (if c = CHR 0x22 then sh_read Plain cur s
      else if c = CHR ''$'' \<or> c = CHR 0x60 \<or> c = CHR 0x5C then None
      else sh_read Double (sh_push cur c) s)"

definition sh_words :: "bytes \<Rightarrow> bytes list option" where
  "sh_words s = sh_read Plain None s"

lemma sh_text_not_special: "sh_text c \<Longrightarrow> c \<noteq> CHR '' '' \<and> c \<noteq> CHR 0x09 \<and> c \<noteq> CHR 0x27 \<and> c \<noteq> CHR 0x22"
  by (auto simp: sh_text_def is_digit_def)

lemma sh_read_text:
  "list_all sh_text s \<Longrightarrow> sh_read Plain (Some w) (s @ r) = sh_read Plain (Some (w @ s)) r"
  by (induction s arbitrary: w) (auto simp: sh_push_def dest: sh_text_not_special)

lemma sh_read_text_start:
  "s \<noteq> [] \<Longrightarrow> list_all sh_text s \<Longrightarrow> sh_read Plain None (s @ r) = sh_read Plain (Some s) r"
  using sh_read_text [of "tl s" "[hd s]" r]
  by (cases s) (auto simp: sh_push_def dest: sh_text_not_special)

lemma replace_all_single:
  "replace_all s [c] new = concat (map (\<lambda>x. if x = c then new else [x]) s)"
  by (induction s) (simp_all add: replace_all.simps [of _ "[c]"] has_prefix_def)

lemma sh_read_single:
  "sh_read Single (Some w)
     (replace_all s [CHR 0x27] [CHR 0x27, CHR 0x22, CHR 0x27, CHR 0x22, CHR 0x27] @ CHR 0x27 # r)
   = sh_read Plain (Some (w @ s)) r"
  by (induction s arbitrary: w) (auto simp: replace_all_single sh_push_def)

lemma decode_multi_ge:
  "194 \<le> a \<Longrightarrow> a < 224 \<Longrightarrow> 128 \<le> fst (decode2 a s)"
  "224 \<le> a \<Longrightarrow> a < 240 \<Longrightarrow> 128 \<le> fst (decode3 a s)"
  "240 \<le> a \<Longrightarrow> a < 245 \<Longrightarrow> 128 \<le> fst (decode4 a s)"
  by (auto simp: decode2_def decode3_def decode4_def rune_error_def is_cont_def split: list.splits)

lemma decode_rune_small:
  "s \<noteq> [] \<Longrightarrow> fst (decode_rune s) < 128 \<Longrightarrow> snd (decode_rune s) = 1 \<and> fst (decode_rune s) = ord (hd s)"
  using decode_multi_ge [of "ord (hd s)" "tl s"]
  by (cases s) (auto simp: decode_rune.simps rune_error_def Let_def split: if_splits)

lemma runes_ascii:
  "list_all (\<lambda>r. r < 128) (runes_of s) \<Longrightarrow> map ord s = runes_of s"
proof (induction s rule: runes_of.induct)
  case (1 s)
  show ?case
  proof (cases s)
    case Nil
    then show ?thesis by (simp add: runes_of.simps)
  next
    case (Cons c cs)
    then have r: "runes_of s = fst (decode_rune s) # runes_of (drop (snd (decode_rune s)) s)"
      by (subst runes_of.simps) (simp add: Let_def split: prod.split)
    then have "fst (decode_rune s) < 128" using 1(2) by simp
    then show ?thesis using 1 r Cons decode_rune_small [of s] by (auto simp: Let_def split: prod.splits)
  qed
qed

lemma safe_runes_text:
  assumes "list_all (quote_safe Unix) (runes_of s)"
  shows "list_all sh_text s"
proof -
  have "list_all (\<lambda>r. r < 128) (runes_of s)"
    using assms by (auto simp: list_all_iff quote_safe_def)
  then have "list_all (quote_safe Unix) (map ord s)" using assms by (simp add: runes_ascii)
  then show ?thesis
    by (auto simp: list_all_iff quote_safe_def sh_text_def is_digit_def)
qed

lemma shquote_word: "sh_read Plain None (shquote_unix s @ r) = sh_read Plain (Some s) r"
  using sh_read_single [of "[]" s r] sh_read_text_start [of s r] safe_runes_text [of s]
  by (auto simp: shquote_unix_def)


section \<open>Base32\<close>

lemma undigits_digits: "undigits k (digits_be k n x) = x mod 2 ^ (k * n)"
proof (induction n)
  case (Suc n)
  have l: "length (digits_be k n x) = n" for n by (induction n) auto
  have "x mod 2 ^ (k * Suc n) = x mod (2 ^ (k * n) * 2 ^ k)" by (simp add: power_add [symmetric] algebra_simps)
  also have "\<dots> = 2 ^ (k * n) * (x div 2 ^ (k * n) mod 2 ^ k) + x mod 2 ^ (k * n)" by (rule mod_mult2_eq)
  finally show ?case using Suc by (simp add: l)
qed simp

lemma digits_length [simp]: "length (digits_be k n x) = n"
  by (induction n) auto

lemma undigits_less: "list_all (\<lambda>d. d < 2 ^ k) ds \<Longrightarrow> undigits k ds < 2 ^ (k * length ds)"
proof (induction ds)
  case (Cons d ds)
  then have "undigits k ds < 2 ^ (k * length ds)" "Suc d \<le> 2 ^ k" by auto
  then have "d * 2 ^ (k * length ds) + undigits k ds < Suc d * 2 ^ (k * length ds)" by simp
  also have "\<dots> \<le> 2 ^ k * 2 ^ (k * length ds)" using \<open>Suc d \<le> 2 ^ k\<close> by (rule mult_le_mono1)
  finally show ?case by (simp add: power_add)
qed simp

lemma digits_high: "digits_be k n (a * 2 ^ (k * n) + x) = digits_be k n x"
proof -
  have "digits_be k m (a * 2 ^ (k * n) + x) = digits_be k m x" if "m \<le> n" for m
    using that
  proof (induction m)
    case (Suc m)
    obtain j where j: "n = Suc m + j" using Suc.prems le_Suc_ex by blast
    have e: "k * n = k * j + k + k * m" by (simp add: j algebra_simps)
    have "a * 2 ^ (k * n) = (a * 2 ^ (k * j) * 2 ^ k) * 2 ^ (k * m)"
      unfolding e by (simp add: power_add)
    then have "(a * 2 ^ (k * n) + x) div 2 ^ (k * m) = a * 2 ^ (k * j) * 2 ^ k + x div 2 ^ (k * m)"
      by (simp only:) (rule div_mult_self3, simp)
    then show ?case using Suc by simp
  qed simp
  then show ?thesis by simp
qed

lemma digits_undigits: "list_all (\<lambda>d. d < 2 ^ k) ds \<Longrightarrow> digits_be k (length ds) (undigits k ds) = ds"
proof (induction ds)
  case (Cons d ds)
  then have u: "undigits k ds < 2 ^ (k * length ds)" by (simp add: undigits_less)
  with Cons show ?case by (simp add: digits_high)
qed simp

lemma digits_bound: "list_all (\<lambda>d. d < 2 ^ k) (digits_be k n x)"
  by (induction n) auto

lemma b32_val_char [simp]: "d < 32 \<Longrightarrow> b32_val (b32_char d) = Some d"
  by (auto simp: b32_val_def b32_char_def)

lemma ord_less: "list_all (\<lambda>d. d < 2 ^ 8) (map ord (g :: bytes))"
  by (simp add: list_all_iff)

lemma group_back:
  assumes "g \<noteq> []" "length g \<le> 5"
  shows "b32_ungroup (digits_be 5 (b32_letters (length g))
           (undigits 8 (map ord g) * 2 ^ (5 * b32_letters (length g) - 8 * length g))) = g"
proof -
  let ?r = "length g" let ?n = "b32_letters ?r" let ?x = "undigits 8 (map ord g)"
  have "?r \<noteq> 0" using assms by simp
  then have r: "?r \<in> {1, 2, 3, 4, 5}" using assms(2) unfolding insert_iff empty_iff by presburger
  have n: "?n \<in> {2, 4, 5, 7, 8}" "5 * ?n div 8 = ?r" "8 * ?r \<le> 5 * ?n"
    using r by (auto simp: b32_letters_def)
  have x: "?x < 2 ^ (8 * ?r)" using undigits_less [OF ord_less, of g] by simp
  have "?x * 2 ^ (5 * ?n - 8 * ?r) < 2 ^ (8 * ?r) * 2 ^ (5 * ?n - 8 * ?r)"
    using x by simp
  also have "\<dots> = 2 ^ (5 * ?n)" using n(3) by (simp flip: power_add)
  finally have y: "?x * 2 ^ (5 * ?n - 8 * ?r) < 2 ^ (5 * ?n)" .
  have "b32_ungroup (digits_be 5 ?n (?x * 2 ^ (5 * ?n - 8 * ?r))) = map char_of (digits_be 8 ?r ?x)"
    using n y by (simp add: b32_ungroup_def undigits_digits Let_def)
  also have "\<dots> = g" using digits_undigits [OF ord_less, of g] by (simp add: comp_def)
  finally show ?thesis .
qed

definition b32_digits :: "bytes \<Rightarrow> nat list" where
  "b32_digits g = (let n = b32_letters (length g)
     in digits_be 5 n (undigits 8 (map ord g) * 2 ^ (5 * n - 8 * length g)))"

lemma b32_digits_length: "length (b32_digits g) = b32_letters (length g)"
  by (simp add: b32_digits_def Let_def)

lemma b32_group_digits: "b32_group g = map b32_char (b32_digits g)"
  by (simp add: b32_group_def b32_digits_def Let_def)

fun b32_all :: "nat \<Rightarrow> bytes \<Rightarrow> nat list" where
  "b32_all 0 s = []"
| "b32_all (Suc f) s = (if s = [] then [] else b32_digits (take 5 s) @ b32_all f (drop 5 s))"

lemma b32_encode_digits: "length s \<le> f \<Longrightarrow> b32_encode s = map b32_char (b32_all f s)"
proof (induction f arbitrary: s)
  case (Suc f)
  have "length (drop 5 s) \<le> f" using Suc.prems by simp
  from Suc.IH [OF this] show ?case by (simp add: b32_encode.simps [of s] b32_group_digits)
qed (simp add: b32_encode.simps [of "[]"])

lemma b32_all_small: "list_all (\<lambda>d. d < 32) (b32_all f s)"
  using digits_bound [of 5]
  by (induction f arbitrary: s) (auto simp: b32_digits_def Let_def)

lemma b32_join_digits: "length s \<le> f \<Longrightarrow> b32_join (b32_all f s) = s"
proof (induction f arbitrary: s)
  case (Suc f)
  show ?case
  proof (cases "s = []")
    case False
    let ?d = "b32_digits (take 5 s)"
    have g: "b32_ungroup ?d = take 5 s"
      using group_back [of "take 5 s"] False by (simp add: b32_digits_def Let_def)
    have len: "length ?d = b32_letters (min (length s) 5)" by (simp add: b32_digits_length)
    have ne: "?d \<noteq> []" using False len by (cases s) (auto simp: b32_letters_def)
    have rest: "b32_join (b32_all f (drop 5 s)) = drop 5 s" using Suc False by (cases s) auto
    have split: "take 8 (?d @ b32_all f (drop 5 s)) = ?d" "drop 8 (?d @ b32_all f (drop 5 s)) = b32_all f (drop 5 s)"
    proof -
      have "length ?d = 8 \<or> length ?d \<le> 8 \<and> b32_all f (drop 5 s) = []"
        using len by (cases "length s \<ge> 5"; cases f) (auto simp: b32_letters_def min_def)
      then show "take 8 (?d @ b32_all f (drop 5 s)) = ?d" "drop 8 (?d @ b32_all f (drop 5 s)) = b32_all f (drop 5 s)"
        by auto
    qed
    show ?thesis using False g rest split ne
      by (simp add: b32_join.simps [of "?d @ b32_all f (drop 5 s)"])
  qed (simp add: b32_join.simps [of "[]"])
qed (simp add: b32_join.simps [of "[]"])

lemma b32_char_range: "d < 32 \<Longrightarrow> b32_char d \<noteq> CHR 0x0D \<and> b32_char d \<noteq> CHR 0x0A \<and> b32_char d \<noteq> CHR ''c''"
  using b32_val_char [of d] by (auto simp: b32_val_def)

lemma b32_encode_chars: "x \<in> set (b32_encode s) \<Longrightarrow> \<exists>d < 32. x = b32_char d"
  using b32_all_small [of "length s" s] by (auto simp: b32_encode_digits [of s "length s"] list_all_iff)

lemma b32_roundtrip: "b32_decode (b32_encode s) = Some s"
proof -
  let ?ds = "b32_all (length s) s"
  have e: "b32_encode s = map b32_char ?ds" by (simp add: b32_encode_digits)
  have ds: "\<forall>d \<in> set ?ds. d < 32" using b32_all_small [of "length s" s] by (simp add: list_all_iff)
  have f: "filter (\<lambda>c. c \<noteq> CHR 0x0D \<and> c \<noteq> CHR 0x0A) (map b32_char ?ds) = map b32_char ?ds"
    using ds by (auto simp: filter_id_conv dest: b32_char_range)
  have v: "map b32_val (map b32_char ?ds) = map Some ?ds" using ds by simp
  show ?thesis unfolding b32_decode_def e f v Let_def by (simp add: b32_join_digits comp_def image_iff)
qed

lemma last_index_none: "hd sub \<notin> set s \<Longrightarrow> sub \<noteq> [] \<Longrightarrow> last_index s sub = None"
  by (induction s) (auto simp: has_prefix_def neq_Nil_conv)

lemma last_index_append: "last_index t sub = Some i \<Longrightarrow> last_index (a @ t) sub = Some (length a + i)"
  by (induction a) auto

lemma last_index_token:
  assumes "CHR ''c'' \<notin> set t"
  shows "last_index (a @ ''cmr1_'' @ t) ''cmr1_'' = Some (length a)"
proof -
  have n: "last_index (''mr1_'' @ t) ''cmr1_'' = None"
    using last_index_none [of "''cmr1_''" "''mr1_'' @ t"] assms by simp
  have "has_prefix (CHR ''c'' # ''mr1_'' @ t) ''cmr1_''" using has_prefix_append [of "''cmr1_''" t] by simp
  then have "last_index (CHR ''c'' # (''mr1_'' @ t)) ''cmr1_'' = Some 0"
    unfolding last_index.simps n by simp
  then show ?thesis using last_index_append [of "''cmr1_'' @ t" "''cmr1_''" 0 a] by simp
qed

lemma dec_token: "dec_marker (a @ enc_marker_token mk) = Some mk"
proof -
  have "CHR ''c'' \<notin> set (b32_encode mk)" by (metis b32_encode_chars b32_char_range)
  from last_index_token [OF this, of a] show ?thesis
    by (simp add: dec_marker_def enc_marker_token_def b32_roundtrip)
qed

section \<open>The properties\<close>

text \<open>A new window gets a name of at most 20 bytes that no window of the session has, as long as the
  session has fewer than 48 windows; the two-digit conversion never overruns its buffer.
\<close>

theorem unique_name_fresh:
  assumes "length ex < 48"
  shows "\<exists>c. unique_name ex base = Some c \<and> length c \<le> 20 \<and> c \<notin> set ex"
  using assms by (rule unique_name_is_fresh)

theorem unique_name_fresh_witness:
  "\<exists>c. unique_name [''app'', ''app-2''] ''app'' = Some c \<and> length c \<le> 20 \<and> c \<notin> set [''app'', ''app-2'']"
  by (rule unique_name_fresh) simp

text \<open>Whatever bytes the path of the program and of the socket contain, a POSIX shell reads the command of
  a window as the program, the two fixed arguments and the socket path, without expansion, splitting or
  a second command.
\<close>

theorem socket_cmd_words:
  "sh_words (socket_cmd Unix self path) =
     Some [case self of None \<Rightarrow> ''claude-master'' | Some s \<Rightarrow> if s = [] then ''claude-master'' else s,
       ''socket-client'', ''--retry'', path]"
proof -
  have mid: "sh_read Plain (Some w) ('' socket-client --retry '' @ r)
    = map_option (\<lambda>ws. w # ''socket-client'' # ''--retry'' # ws) (sh_read Plain None r)" for w r
    by (simp add: sh_emit_def sh_push_def sh_text_def is_digit_def option.map_comp comp_def)
  have fin: "sh_read Plain None (shquote_unix p) = Some [p]" for p
    using shquote_word [of p "[]"] by (simp add: sh_emit_def)
  show ?thesis
    by (simp add: sh_words_def socket_cmd_def shquote_def shquote_word mid fin Let_def
          split: option.split del: append_Cons)
qed

text \<open>On windows the marker of a remote window is recovered exactly from the name the window is created
  with and from the name it is renamed to, whatever the label is, even a label that contains a token itself.
\<close>

theorem marker_recovered:
  assumes "marker \<noteq> []"
  shows "dec_marker (initial_name Windows label marker) = Some marker
    \<and> dec_marker (marked_name label marker) = Some marker"
  using assms dec_token [of "[]" marker] dec_token [of "_ @ '' ''" marker]
  by (auto simp: initial_name_def marked_name_def Let_def)

theorem marker_recovered_witness:
  "dec_marker (initial_name Windows ''web'' ''cloud attach 7 --pc b'') = Some ''cloud attach 7 --pc b''
    \<and> dec_marker (marked_name ''web'' ''cloud attach 7 --pc b'') = Some ''cloud attach 7 --pc b''"
  by (rule marker_recovered) simp

end
