(* ===== verification/LimitResume.thy ===== *)
theory LimitResume
  imports Config Scanner
begin

text \<open>
  \<open>internal/monitor/limit.go\<close> and \<open>resume.go\<close>: the watcher that reports a session whose usage reaches a higher
  level, and the table of sessions to resume at their reset time. An instant is an \<open>int\<close>, nanoseconds since the
  epoch. Parameters: Unicode lower case (\<open>uni\<close>), the rounding of \<open>float64\<close> arithmetic (\<open>trunc\<close>, \<open>fl\<close>), the time-zone
  database (\<open>zone\<close>) and the RFC 3339 text of an instant (\<open>fmt\<close>, \<open>parse\<close>).
\<close>

section \<open>Decoded JSON objects\<close>

datatype any = AStr bytes | AInt int | AFloat "64 word" | ABool bool | ANil | AOther

type_synonym obj = "bytes \<Rightarrow> any option"

definition status_int :: "(64 word \<Rightarrow> int) \<Rightarrow> obj \<Rightarrow> bytes \<Rightarrow> int option" where
  "status_int trunc status key =
     (case status key of
        Some (AFloat f) \<Rightarrow> Some (trunc f)
      | Some (AInt n) \<Rightarrow> Some n
      | _ \<Rightarrow> None)"

definition status_str :: "obj \<Rightarrow> bytes \<Rightarrow> bytes" where
  "status_str status key = (case status key of Some (AStr s) \<Rightarrow> s | _ \<Rightarrow> [])"

section \<open>The limit watcher\<close>

datatype level = Approaching | Interrupt | Reached

instantiation level :: linorder
begin

definition level_rank :: "level \<Rightarrow> nat" where
  "level_rank l = (case l of Approaching \<Rightarrow> 0 | Interrupt \<Rightarrow> 1 | Reached \<Rightarrow> 2)"

definition less_eq_level :: "level \<Rightarrow> level \<Rightarrow> bool" where
  "less_eq_level a b \<longleftrightarrow> level_rank a \<le> level_rank b"

definition less_level :: "level \<Rightarrow> level \<Rightarrow> bool" where
  "less_level a b \<longleftrightarrow> level_rank a < level_rank b"

instance
  by standard (auto simp: less_eq_level_def less_level_def level_rank_def split: level.splits)

end

definition level_string :: "level \<Rightarrow> bytes" where
  "level_string l = (case l of Approaching \<Rightarrow> ''approaching'' | Interrupt \<Rightarrow> ''interrupt'' | Reached \<Rightarrow> ''reached'')"

record limit_event =
  ev_key :: bytes
  ev_level :: level
  ev_pct :: int
  ev_reset_time :: bytes
  ev_reset_tz :: bytes

type_synonym notified = "bytes \<Rightarrow> level option"

definition level_of :: "config \<Rightarrow> int \<Rightarrow> level option" where
  "level_of cfg pct =
     (if 100 \<le> pct then Some Reached
      else if cf_limit_interrupt cfg \<le> pct then Some Interrupt
      else if cf_limit_warn cfg \<le> pct then Some Approaching else None)"

definition check :: "config \<Rightarrow> (64 word \<Rightarrow> int) \<Rightarrow> bytes \<Rightarrow> obj \<Rightarrow> notified \<Rightarrow> limit_event option \<times> notified" where
  "check cfg trunc key status w =
     (case status_int trunc status ''usage_percent'' of
        None \<Rightarrow> (None, w)
      | Some pct \<Rightarrow>
          (case level_of cfg pct of
             None \<Rightarrow> (None, w(key := None))
           | Some l \<Rightarrow>
               if (case w key of Some prev \<Rightarrow> l \<le> prev | None \<Rightarrow> False) then (None, w)
               else (Some \<lparr>ev_key = key, ev_level = l, ev_pct = pct,
                      ev_reset_time = status_str status ''reset_time'',
                      ev_reset_tz = status_str status ''reset_tz''\<rparr>, w(key := Some l))))"

definition clear_key :: "bytes \<Rightarrow> notified \<Rightarrow> notified" where
  "clear_key key w = w(key := None)"

section \<open>The reset time\<close>

text \<open>The first match of \<open>([+-])(\d{1,2})(?::(\d{2}))?\<close>: the sign, the hours and the minutes.\<close>

definition digit :: "byte \<Rightarrow> nat" where
  "digit c = ord c - 48"

definition tz_at :: "bytes \<Rightarrow> (bool \<times> nat \<times> nat) option" where
  "tz_at s =
     (case s of
        sg # a # r \<Rightarrow>
          if (sg = CHR ''+'' \<or> sg = CHR ''-'') \<and> is_digit a then
            (let (h, r) = (case r of b # r' \<Rightarrow> if is_digit b then (digit a * 10 + digit b, r') else (digit a, r)
                           | [] \<Rightarrow> (digit a, []));
                 m = (case r of c # x # y # _ \<Rightarrow>
                        if c = CHR '':'' \<and> is_digit x \<and> is_digit y then digit x * 10 + digit y else 0
                      | _ \<Rightarrow> 0)
             in Some (sg = CHR ''-'', h, m))
          else None
      | _ \<Rightarrow> None)"

fun tz_search :: "bytes \<Rightarrow> (bool \<times> nat \<times> nat) option" where
  "tz_search [] = None"
| "tz_search (c # s) = (case tz_at (c # s) of None \<Rightarrow> tz_search s | r \<Rightarrow> r)"

text \<open>
  \<open>int(parseTZOffset(tz) * 3600)\<close>, the offset in seconds: \<open>fl neg h m\<close> is the result of the \<open>float64\<close> arithmetic for
  a written offset, \<open>zone\<close> the one for a name of the time-zone database.
\<close>

definition tz_seconds :: "(bool \<Rightarrow> nat \<Rightarrow> nat \<Rightarrow> int) \<Rightarrow> (bytes \<Rightarrow> int option) \<Rightarrow> bytes \<Rightarrow> int" where
  "tz_seconds fl zone tz =
     (if tz = [] then 0
      else case tz_search tz of
          Some (neg, h, m) \<Rightarrow> fl neg h m
        | None \<Rightarrow> (case zone tz of Some off \<Rightarrow> off | None \<Rightarrow> 0))"

text \<open>
  \<open>time.Parse\<close> with the five layouts of \<open>resetTimeLayouts\<close>: hour of one or two digits, minute of two, and the text has
  to end there. With \<open>pm\<close> in the layout the hour is at most 12.
\<close>

definition get_num :: "bool \<Rightarrow> bytes \<Rightarrow> (nat \<times> bytes) option" where
  "get_num fixed s =
     (case s of
        [] \<Rightarrow> None
      | a # r \<Rightarrow>
          if \<not> is_digit a then None
          else (case r of
              b # r' \<Rightarrow> if is_digit b then Some (digit a * 10 + digit b, r') else if fixed then None else Some (digit a, r)
            | [] \<Rightarrow> if fixed then None else Some (digit a, [])))"

definition parse_minute :: "bytes \<Rightarrow> (nat \<times> bytes) option" where
  "parse_minute s =
     (case s of
        c # r \<Rightarrow> if c \<noteq> CHR '':'' then None
          else (case get_num True r of Some (m, r) \<Rightarrow> if m < 60 then Some (m, r) else None | None \<Rightarrow> None)
      | [] \<Rightarrow> None)"

definition parse_ampm :: "nat \<Rightarrow> bytes \<Rightarrow> nat option" where
  "parse_ampm h s =
     (if s = ''pm'' then Some (if h < 12 then h + 12 else h)
      else if s = ''am'' then Some (if h = 12 then 0 else h) else None)"

definition cut_space :: "bytes \<Rightarrow> bytes option" where
  "cut_space s = (if s \<noteq> [] \<and> hd s \<noteq> CHR '' '' then None else Some (dropWhile (\<lambda>c. c = CHR '' '') s))"

text \<open>A layout: with minutes, and what stands before \<open>pm\<close> (\<open>None\<close> for the 24-hour layout, \<open>Some True\<close> for a space).\<close>

definition parse_layout :: "bool \<Rightarrow> bool option \<Rightarrow> bytes \<Rightarrow> (nat \<times> nat) option" where
  "parse_layout mins pm s = do {
     (h, s) \<leftarrow> get_num False s;
     (m, s) \<leftarrow> (if mins then parse_minute s else Some (0, s));
     (case pm of
        None \<Rightarrow> if h < 24 \<and> s = [] then Some (h, m) else None
      | Some space \<Rightarrow>
          if 12 < h then None
          else do { s \<leftarrow> (if space then cut_space s else Some s); h \<leftarrow> parse_ampm h s; Some (h, m) }) }"

fun first_layout :: "(bool \<times> bool option) list \<Rightarrow> bytes \<Rightarrow> (nat \<times> nat) option" where
  "first_layout [] s = None"
| "first_layout ((mins, pm) # ls) s = (case parse_layout mins pm s of None \<Rightarrow> first_layout ls s | r \<Rightarrow> r)"

definition reset_layouts :: "(bool \<times> bool option) list" where
  "reset_layouts = [(True, Some True), (True, Some False), (False, Some True), (False, Some False), (True, None)]"

definition parse_clock :: "(bytes \<Rightarrow> bytes) \<Rightarrow> bytes \<Rightarrow> (nat \<times> nat) option" where
  "parse_clock uni text =
     (let s = to_lower uni (trim_space text) in if s = [] then None else first_layout reset_layouts s)"

definition sec :: int where "sec = 1000000000"
definition day :: int where "day = 86400 * sec"

text \<open>\<open>time.Date\<close> of the day of \<open>now\<close> in a zone with a fixed offset, at the given hour and minute.\<close>

definition clock_on_day :: "int \<Rightarrow> int \<Rightarrow> nat \<Rightarrow> nat \<Rightarrow> int" where
  "clock_on_day now off h m =
     (now + off * sec) div day * day - off * sec + (int h * 3600 + int m * 60) * sec"

definition parse_reset_datetime ::
  "(bytes \<Rightarrow> bytes) \<Rightarrow> (bool \<Rightarrow> nat \<Rightarrow> nat \<Rightarrow> int) \<Rightarrow> (bytes \<Rightarrow> int option) \<Rightarrow> int \<Rightarrow> bytes \<Rightarrow> bytes \<Rightarrow> int option" where
  "parse_reset_datetime uni fl zone now time_str tz_str =
     (case parse_clock uni time_str of
        None \<Rightarrow> None
      | Some (h, m) \<Rightarrow>
          (let cand = clock_on_day now (tz_seconds fl zone tz_str) h m
           in Some (if cand \<le> now then cand + day else cand)))"

section \<open>The table of sessions to resume\<close>

record pending_entry =
  pe_reset_at :: int
  pe_sock :: bytes

type_synonym pending = "(bytes \<times> pending_entry) list"

text \<open>The second result tells whether the table was saved.\<close>

definition schedule ::
  "(limit_event \<Rightarrow> int option) \<Rightarrow> limit_event \<Rightarrow> bytes \<Rightarrow> pending \<Rightarrow> int option \<times> pending \<times> bool" where
  "schedule reset_time ev sock p =
     (case reset_time ev of
        None \<Rightarrow> (None, p, False)
      | Some at \<Rightarrow> (Some at, put_entry p (ev_key ev, \<lparr>pe_reset_at = at, pe_sock = sock\<rparr>), True))"

definition event_reset ::
  "(bytes \<Rightarrow> bytes) \<Rightarrow> (bool \<Rightarrow> nat \<Rightarrow> nat \<Rightarrow> int) \<Rightarrow> (bytes \<Rightarrow> int option) \<Rightarrow> int \<Rightarrow> limit_event \<Rightarrow> int option" where
  "event_reset uni fl zone now ev = parse_reset_datetime uni fl zone now (ev_reset_time ev) (ev_reset_tz ev)"

definition due :: "int \<Rightarrow> pending \<Rightarrow> (bytes \<times> bytes) list \<times> pending" where
  "due now p =
     (map (\<lambda>(k, e). (k, pe_sock e)) (filter (\<lambda>(k, e). pe_reset_at e \<le> now) p),
      filter (\<lambda>(k, e). \<not> pe_reset_at e \<le> now) p)"

definition is_pending :: "bytes \<Rightarrow> pending \<Rightarrow> bool" where
  "is_pending key p \<longleftrightarrow> key \<in> fst ` set p"

definition remove_pending :: "bytes \<Rightarrow> pending \<Rightarrow> pending" where
  "remove_pending key p = (if is_pending key p then del_entry key p else p)"

text \<open>The file: for every key the two texts \<open>reset_at\<close> and \<open>socket_path\<close>; an entry that does not parse is skipped.\<close>

definition save_pending :: "(int \<Rightarrow> bytes) \<Rightarrow> pending \<Rightarrow> (bytes \<times> bytes \<times> bytes) list" where
  "save_pending fmt p = map (\<lambda>(k, e). (k, fmt (pe_reset_at e), pe_sock e)) p"

definition load_pending :: "(bytes \<Rightarrow> int option) \<Rightarrow> (bytes \<times> bytes \<times> bytes) list option \<Rightarrow> pending" where
  "load_pending parse file =
     (case file of
        None \<Rightarrow> []
      | Some es \<Rightarrow> List.map_filter (\<lambda>(k, at, sock).
          map_option (\<lambda>t. (k, \<lparr>pe_reset_at = t, pe_sock = sock\<rparr>)) (parse at)) es)"

definition new_scheduler :: "(bytes \<Rightarrow> int option) \<Rightarrow> (bytes \<times> bytes \<times> bytes) list option \<Rightarrow> pending" where
  "new_scheduler parse file = load_pending parse file"

section \<open>Reports\<close>

text \<open>One key watched over a sequence of statuses: the events, in order.\<close>

fun watch :: "config \<Rightarrow> (64 word \<Rightarrow> int) \<Rightarrow> bytes \<Rightarrow> notified \<Rightarrow> obj list \<Rightarrow> limit_event list" where
  "watch cfg trunc key w [] = []"
| "watch cfg trunc key w (st # sts) =
     (case check cfg trunc key st w of
        (None, w) \<Rightarrow> watch cfg trunc key w sts
      | (Some ev, w) \<Rightarrow> ev # watch cfg trunc key w sts)"

text \<open>The usage never falls below the first level while it is watched.\<close>

definition stays_high :: "config \<Rightarrow> (64 word \<Rightarrow> int) \<Rightarrow> obj \<Rightarrow> bool" where
  "stays_high cfg trunc st =
     (case status_int trunc st ''usage_percent'' of None \<Rightarrow> True | Some p \<Rightarrow> level_of cfg p \<noteq> None)"

lemma check_high:
  assumes "stays_high cfg trunc st"
  shows "(\<exists>ev l. check cfg trunc key st w = (Some ev, w(key := Some l)) \<and> ev_level ev = l
            \<and> (\<forall>p. w key = Some p \<longrightarrow> p < l))
       \<or> check cfg trunc key st w = (None, w)"
  using assms
  by (auto simp: check_def stays_high_def not_le split: option.splits)

lemma watch_rises:
  "list_all (stays_high cfg trunc) sts \<Longrightarrow>
   sorted_wrt (<) (map ev_level (watch cfg trunc key w sts))
   \<and> (\<forall>p. w key = Some p \<longrightarrow> (\<forall>ev \<in> set (watch cfg trunc key w sts). p < ev_level ev))"
proof (induction sts arbitrary: w)
  case (Cons st sts)
  then have h: "stays_high cfg trunc st" "list_all (stays_high cfg trunc) sts" by auto
  from check_high [OF h(1), of key w] show ?case
  proof (elim disjE exE conjE)
    fix ev l
    assume c: "check cfg trunc key st w = (Some ev, w(key := Some l))" "ev_level ev = l"
      "\<forall>p. w key = Some p \<longrightarrow> p < l"
    note ih = Cons.IH [OF h(2), of "w(key := Some l)"]
    have s: "sorted_wrt (<) (map ev_level (watch cfg trunc key (w(key := Some l)) sts))"
      and b: "\<forall>ev \<in> set (watch cfg trunc key (w(key := Some l)) sts). l < ev_level ev"
      using ih [THEN conjunct1] ih [THEN conjunct2, rule_format, OF fun_upd_same] by blast+
    show ?thesis using s b c by (auto simp del: fun_upd_apply dest: less_trans)
  next
    assume "check cfg trunc key st w = (None, w)"
    then show ?thesis using Cons.IH [OF h(2), of w] by simp
  qed
qed simp

lemma level_list_short: "sorted_wrt (<) (ls :: level list) \<Longrightarrow> length ls \<le> 3"
proof -
  assume s: "sorted_wrt (<) ls"
  then have "distinct ls" by (simp add: strict_sorted_iff)
  moreover have "set ls \<subseteq> {Approaching, Interrupt, Reached}" by (auto intro: level.exhaust)
  ultimately show "length ls \<le> 3"
    using card_mono [of "{Approaching, Interrupt, Reached}" "set ls"] by (simp add: distinct_card)
qed

lemma watch_episode:
  assumes "list_all (stays_high cfg trunc) sts"
  shows "sorted_wrt (<) (map ev_level (watch cfg trunc key w sts)) \<and> length (watch cfg trunc key w sts) \<le> 3"
  using watch_rises [OF assms, of key w] level_list_short [of "map ev_level (watch cfg trunc key w sts)"] by simp

lemma check_level:
  "check cfg trunc key st w = (Some ev, w') \<Longrightarrow> level_of cfg (ev_pct ev) = Some (ev_level ev) \<and> w' key = Some (ev_level ev)"
  by (auto simp: check_def split: option.splits if_splits)

lemma check_other: "k \<noteq> key \<Longrightarrow> snd (check cfg trunc key st w) k = w k"
  by (auto simp: check_def split: option.splits)

section \<open>The next reset\<close>

lemma day_pos: "0 < day" by (simp add: day_def sec_def)

lemma clock_bounds:
  assumes "h < 24" and "m < 60"
  shows "now - day < clock_on_day now off h m" "clock_on_day now off h m < now + day"
proof -
  let ?x = "now + off * sec" let ?t = "(int h * 3600 + int m * 60) * sec"
  have t: "0 \<le> ?t" "?t < day" using assms by (auto simp: day_def sec_def)
  have q: "?x div day * day \<le> ?x" "?x < ?x div day * day + day"
    using pos_mod_sign [OF day_pos, of ?x] pos_mod_bound [OF day_pos, of ?x] minus_mod_eq_div_mult [of ?x day]
    by linarith+
  show "now - day < clock_on_day now off h m" "clock_on_day now off h m < now + day"
    using t q by (simp_all add: clock_on_day_def)
qed

lemma parse_minute_range: "parse_minute s = Some (m, r) \<Longrightarrow> m < 60"
  by (auto simp: parse_minute_def split: list.splits if_splits option.splits)

lemma parse_ampm_range: "parse_ampm h s = Some h' \<Longrightarrow> h \<le> 12 \<Longrightarrow> h' < 24"
  by (auto simp: parse_ampm_def split: if_splits)

lemma parse_layout_range:
  assumes "parse_layout mins pm s = Some (h, m)"
  shows "h < 24 \<and> m < 60"
proof -
  obtain x where x: "get_num False s = Some x"
    using assms by (cases "get_num False s") (simp_all add: parse_layout_def)
  obtain h0 s0 where x2: "x = (h0, s0)" by (cases x)
  obtain y where y: "(if mins then parse_minute s0 else Some (0, s0)) = Some y"
    using assms x x2 by (cases "if mins then parse_minute s0 else Some (0, s0)") (simp_all add: parse_layout_def)
  obtain m0 s1 where y2: "y = (m0, s1)" by (cases y)
  have k: "(case pm of None \<Rightarrow> if h0 < 24 \<and> s1 = [] then Some (h0, m0) else None
      | Some space \<Rightarrow> if 12 < h0 then None
          else do { s \<leftarrow> (if space then cut_space s1 else Some s1); h \<leftarrow> parse_ampm h0 s; Some (h, m0) }) = Some (h, m)"
    using assms x x2 y y2 by (simp add: parse_layout_def)
  then have "m0 = m" by (auto simp: bind_Some_conv split: option.splits if_splits)
  then have hm: "True" "(if mins then parse_minute s0 else Some (0, s0)) = Some (m, s1)" using y y2 by auto
  have "m < 60" using hm(2) parse_minute_range by (auto split: if_splits)
  moreover have "h < 24" using k parse_ampm_range [of h0 _ h]
    by (auto simp: bind_Some_conv split: option.splits if_splits)
  ultimately show ?thesis by simp
qed

lemma first_layout_range: "first_layout ls s = Some (h, m) \<Longrightarrow> h < 24 \<and> m < 60"
  by (induction ls s rule: first_layout.induct) (auto split: option.splits dest: parse_layout_range)

lemma parse_clock_range: "parse_clock uni s = Some (h, m) \<Longrightarrow> h < 24 \<and> m < 60"
  by (auto simp: parse_clock_def Let_def split: if_splits dest: first_layout_range)

lemma reset_is_next:
  assumes "parse_clock uni txt = Some (h, m)"
  shows "\<exists>at. parse_reset_datetime uni fl zone now txt tz = Some at \<and> now < at \<and> at \<le> now + day
    \<and> (at + tz_seconds fl zone tz * sec) mod day = (int h * 3600 + int m * 60) * sec"
proof -
  let ?off = "tz_seconds fl zone tz" let ?c = "clock_on_day now ?off h m"
  have r: "h < 24" "m < 60" using parse_clock_range [OF assms] by auto
  let ?t = "(int h * 3600 + int m * 60) * sec"
  have t: "0 \<le> ?t" "?t < day" using r by (auto simp: day_def sec_def)
  have "?c + ?off * sec = ?t + (now + ?off * sec) div day * day" by (simp add: clock_on_day_def)
  then have m: "(?c + ?off * sec) mod day = ?t" using t by simp
  have m': "(?c + day + ?off * sec) mod day = ?t" using m by (metis add.assoc add.commute mod_add_self2)
  show ?thesis using assms clock_bounds [OF r, of now ?off] m m' day_pos
    by (auto simp: parse_reset_datetime_def Let_def)
qed

section \<open>The table\<close>

lemma due_partition:
  "(k, e) \<in> set p \<Longrightarrow> (k, pe_sock e) \<in> set (fst (due now p)) \<and> pe_reset_at e \<le> now \<or> (k, e) \<in> set (snd (due now p)) \<and> now < pe_reset_at e"
  by (force simp: due_def)

lemma due_late: "now < at \<Longrightarrow> (k, e) \<in> set p \<Longrightarrow> pe_reset_at e = at \<Longrightarrow> (k, e) \<in> set (snd (due now p))"
  by (auto simp: due_def)

lemma load_save:
  assumes "\<And>k e. (k, e) \<in> set p \<Longrightarrow> parse (fmt (pe_reset_at e)) = Some (pe_reset_at e)"
  shows "load_pending parse (Some (save_pending fmt p)) = p"
  using assms
proof (induction p)
  case (Cons x p)
  obtain k e where x: "x = (k, e)" by (cases x)
  have "parse (fmt (pe_reset_at e)) = Some (pe_reset_at e)" using Cons.prems [of k e] x by simp
  moreover have "load_pending parse (Some (save_pending fmt p)) = p"
    by (rule Cons.IH) (use Cons.prems in auto)
  ultimately show ?case using x
    by (cases e) (simp add: load_pending_def save_pending_def List.map_filter_def comp_def)
qed (simp add: load_pending_def save_pending_def)

section \<open>The properties\<close>

text \<open>While the usage of a session stays at or above the warning level, it is reported at most three times, each
  time at a strictly higher level: a session is never notified, interrupted or paused twice for the same level.
\<close>

theorem limit_reports_rise:
  assumes "list_all (stays_high cfg trunc) sts"
  shows "sorted_wrt (<) (map ev_level (watch cfg trunc key w sts)) \<and> length (watch cfg trunc key w sts) \<le> 3"
  using assms by (rule watch_episode)

theorem limit_reports_rise_witness:
  "\<forall>cfg trunc. let sts = [[''usage_percent'' \<mapsto> AInt 100], Map.empty, [''usage_percent'' \<mapsto> AInt 101]];
       evs = watch cfg trunc ''k'' Map.empty sts in
     sorted_wrt (<) (map ev_level evs) \<and> length evs \<le> 3"
  unfolding Let_def
  by (intro allI limit_reports_rise) (simp add: stays_high_def status_int_def level_of_def)

text \<open>A reset text that parses as a clock time is turned into the next instant at which a clock in the given zone
  shows that time: it lies strictly in the future and at most 24 hours ahead.
\<close>

theorem reset_time_is_next:
  assumes "parse_clock uni txt = Some (h, m)"
  shows "\<exists>at. parse_reset_datetime uni fl zone now txt tz = Some at \<and> now < at \<and> at \<le> now + day
    \<and> (at + tz_seconds fl zone tz * sec) mod day = (int h * 3600 + int m * 60) * sec"
  using assms by (rule reset_is_next)

lemma parse_clock_example: "parse_clock (\<lambda>s. s) ''8:30 pm'' = Some (20, 30)"
  by code_simp

theorem reset_time_is_next_witness:
  "\<exists>at. parse_reset_datetime (\<lambda>s. s) (\<lambda>neg h m. int h * 3600) (\<lambda>_. None) 0 ''8:30 pm'' ''UTC+9'' = Some at
    \<and> 0 < at \<and> at \<le> 0 + day
    \<and> (at + tz_seconds (\<lambda>neg h m. int h * 3600) (\<lambda>_. None) ''UTC+9'' * sec) mod day
        = (int 20 * 3600 + int 30 * 60) * sec"
  by (rule reset_time_is_next [OF parse_clock_example])

end
