(* ===== verification/Monitor.thy ===== *)
theory Monitor
  imports Tmux LimitResume Diag
begin

text \<open>
  \<open>internal/monitor/monitor.go\<close>: the daemon that scans for sessions, keeps one tmux window per managed session,
  pauses sessions near their usage limit and resumes them, and writes the status file. Everything outside (tmux,
  the file system, the process scan, the clock, the visiting order of Go maps) is a field of the environment, which
  is fixed during one pass of the loop. Messages to sockets and files written are recorded in \<open>mo_out\<close>.
\<close>

datatype out = Send bytes bytes | SavePending pending | Gc "(int \<times> bytes \<times> int) list" | WriteStatus "obj list"

record 'w menv =
  me_cfg :: config
  me_os :: os
  me_self :: "bytes option"
  me_shell :: bytes
  me_tmux :: "'w tmux"
  me_join :: "bytes \<Rightarrow> bytes \<Rightarrow> bytes"
  me_trunc :: "64 word \<Rightarrow> int"
  me_reset :: "limit_event \<Rightarrow> int option"
  me_scan :: "claude_session list option"
  me_exists :: "bytes \<Rightarrow> bool"
  me_status_file :: "bytes \<Rightarrow> obj option"
  me_now :: int
  me_order :: "(bytes \<times> claude_session) list \<Rightarrow> (bytes \<times> claude_session) list"
  me_home :: bytes
  me_sweep :: "bytes \<Rightarrow> int \<Rightarrow> (int \<times> bytes \<times> int) list"

record 'w mon =
  mo_mgr :: manager
  mo_known :: "(bytes \<times> claude_session) list"
  mo_heal :: "bytes \<Rightarrow> int option"
  mo_notified :: notified
  mo_pending :: pending
  mo_tmux :: 'w
  mo_out :: "out list"

definition emit :: "out \<Rightarrow> 'w mon \<Rightarrow> 'w mon" where
  "emit x m = m\<lparr>mo_out := mo_out m @ [x]\<rparr>"

section \<open>Sessions and their files\<close>

definition sock_path_for :: "('w, 'z) menv_scheme \<Rightarrow> int \<Rightarrow> bytes" where
  "sock_path_for env pid = me_join env (cf_sessions_dir (me_cfg env)) (show_int pid @ ''.sock'')"

definition read_session_status :: "('w, 'z) menv_scheme \<Rightarrow> int \<Rightarrow> obj" where
  "read_session_status env pid =
     (case me_status_file env (me_join env (cf_sessions_dir (me_cfg env)) (show_int pid @ ''.status.json'')) of
        None \<Rightarrow> Map.empty
      | Some m \<Rightarrow> m)"

definition session_dict :: "claude_session \<Rightarrow> obj" where
  "session_dict s =
     [''pid'' \<mapsto> AInt (cs_pid s), ''cwd'' \<mapsto> AStr (cs_cwd s), ''short_dir'' \<mapsto> AStr (short_dir s),
      ''session_id'' \<mapsto> AStr (cs_sid s), ''start_time'' \<mapsto> AStr (cs_start s),
      ''cpu_percent'' \<mapsto> AFloat (cs_cpu s), ''mem_mb'' \<mapsto> AFloat (cs_mem s), ''key'' \<mapsto> AStr (session_key s)]"

text \<open>The \<open>sessions\<close> of the status file; writing it is an output, and \<open>put_status_file\<close> the calls that does.\<close>

definition write_status :: "('w, 'z) menv_scheme \<Rightarrow> manager \<Rightarrow> claude_session list \<Rightarrow> obj list" where
  "write_status env mgr ss =
     map (\<lambda>s. (session_dict s)(''window_name'' \<mapsto> AStr (window_for mgr (session_key s)))
       ++ read_session_status env (cs_pid s)) ss"

definition put_status_file :: "write_env \<Rightarrow> bytes \<Rightarrow> bytes \<Rightarrow> file_op list" where
  "put_status_file w path b = write_and_rename w path b"

interpretation status_file: atomic_writer put_status_file
  by unfold_locales (simp add: put_status_file_def)

definition managed_only :: "('w, 'z) menv_scheme \<Rightarrow> claude_session list \<Rightarrow> claude_session list" where
  "managed_only env ss = filter (\<lambda>s. me_exists env (sock_path_for env (cs_pid s))) ss"

definition current_of :: "claude_session list \<Rightarrow> (bytes \<times> claude_session) list" where
  "current_of ss = foldl (\<lambda>cur s. put_entry cur (session_key s, s)) [] ss"

section \<open>Windows\<close>

text \<open>\<open>windowSet\<close>: \<open>None\<close> when tmux failed.\<close>

definition window_set :: "'w tmux \<Rightarrow> manager \<Rightarrow> 'w \<Rightarrow> bytes set option \<times> 'w" where
  "window_set tm mgr w = (case list_windows_err tm mgr w of (r, w) \<Rightarrow> (map_option set r, w))"

definition heal_window_missing :: "manager \<Rightarrow> bytes set \<Rightarrow> bytes \<Rightarrow> bool" where
  "heal_window_missing mgr windows key =
     (let name = window_for mgr key in name = [] \<or> name \<notin> windows)"

definition add_for :: "('w, 'z) menv_scheme \<Rightarrow> claude_session \<Rightarrow> 'w mon \<Rightarrow> 'w mon option" where
  "add_for env s m =
     map_option (\<lambda>(_, mgr, w). m\<lparr>mo_mgr := mgr, mo_tmux := w\<rparr>)
       (add_window (me_os env) (me_self env) (me_shell env) (me_tmux env) s (sock_path_for env (cs_pid s))
          (mo_mgr m) (mo_tmux m))"

definition rename_for :: "('w, 'z) menv_scheme \<Rightarrow> bytes \<Rightarrow> bytes \<Rightarrow> 'w mon \<Rightarrow> 'w mon" where
  "rename_for env key name m =
     (case rename_window (me_tmux env) key name (mo_mgr m) (mo_tmux m) of
        (mgr, w) \<Rightarrow> m\<lparr>mo_mgr := mgr, mo_tmux := w\<rparr>)"

definition remove_for :: "('w, 'z) menv_scheme \<Rightarrow> bytes \<Rightarrow> 'w mon \<Rightarrow> 'w mon" where
  "remove_for env key m =
     (case remove_window (me_tmux env) key (mo_mgr m) (mo_tmux m) of
        (mgr, w) \<Rightarrow> m\<lparr>mo_mgr := mgr, mo_tmux := w\<rparr>)"

text \<open>\<open>SyncOnce\<close>: windows for new keys, and for known ones whose window is gone; no windows for lost keys.\<close>

definition sync_key ::
  "('w, 'z) menv_scheme \<Rightarrow> bytes set option \<Rightarrow> 'w mon \<Rightarrow> bytes \<times> claude_session \<Rightarrow> 'w mon option" where
  "sync_key env windows m ks =
     (case ks of (key, s) \<Rightarrow>
        if key \<in> fst ` set (mo_known m) then
          (case windows of
             Some ws \<Rightarrow> if heal_window_missing (mo_mgr m) ws key then add_for env s m else Some m
           | None \<Rightarrow> Some m)
        else add_for env s m)"

definition sync_once ::
  "('w, 'z) menv_scheme \<Rightarrow> claude_session list \<Rightarrow> 'w mon \<Rightarrow> ((bytes \<times> claude_session) list \<times> 'w mon) option" where
  "sync_once env ss m =
     (let cur = current_of (managed_only env ss);
          (windows, w) = window_set (me_tmux env) (mo_mgr m) (mo_tmux m);
          m = m\<lparr>mo_tmux := w\<rparr>
      in map_option (\<lambda>m. (cur, foldl (\<lambda>m (key, _). if key \<in> fst ` set cur then m else remove_for env key m)
             m (me_order env (mo_known m))))
           (run_steps (sync_key env windows) m (me_order env cur)))"

text \<open>\<open>restoreWindows\<close>: the keys and window names of the last status file, for the windows tmux still has.\<close>

definition restore_windows ::
  "'w tmux \<Rightarrow> (bytes \<times> bytes) list option \<Rightarrow> manager \<Rightarrow> 'w \<Rightarrow> manager \<times> 'w" where
  "restore_windows tm prev mgr w =
     (case prev of
        None \<Rightarrow> (mgr, w)
      | Some ps \<Rightarrow>
          (case list_windows tm mgr w of (existing, w) \<Rightarrow>
             (foldl (\<lambda>mgr (k, n). if k \<noteq> [] \<and> n \<noteq> [] \<and> n \<in> set existing then adopt_window k n mgr else mgr) mgr ps,
              w)))"

section \<open>Limits\<close>

definition warn_sign :: bytes where
  "warn_sign = [CHR 0xE2, CHR 0x9A, CHR 0xA0]"

definition interrupt_msg :: "int \<Rightarrow> bytes \<Rightarrow> bytes" where
  "interrupt_msg pct reset =
     ESC # CHR 0x0A # warn_sign @ '' Usage limit at '' @ show_int pct @ ''% (resets: '' @ reset
     @ string_of_runes [41, 46, 32, 29694, 22312, 12398, 20316, 26989, 29366, 24907, 12434, 35201, 32004, 12375,
         12390, 19968, 26178, 20572, 27490, 12375, 12390, 12367, 12384, 12373, 12356, 12290, 10]"

definition resume_msg :: bytes where
  "resume_msg = string_of_runes [12503, 12521, 12531, 21046, 38480, 12364, 12522, 12475, 12483, 12488, 12373, 12428,
     12414, 12375, 12383, 12290, 20013, 26029, 21069, 12398, 20316, 26989, 12434, 20877, 38283, 12375, 12390, 12367,
     12384, 12373, 12356, 12290, 10]"

definition warn_name :: "claude_session \<Rightarrow> int \<Rightarrow> bytes" where
  "warn_name s pct = short_dir s @ ''['' @ warn_sign @ show_int pct @ ''%]''"

text \<open>The interrupt is only sent to, and the resumption only scheduled for, a session whose socket exists.\<close>

definition send_interrupt :: "('w, 'z) menv_scheme \<Rightarrow> limit_event \<Rightarrow> bytes \<Rightarrow> bytes \<Rightarrow> 'w mon \<Rightarrow> 'w mon" where
  "send_interrupt env ev reset sock m =
     (if me_exists env sock then
        let m = emit (Send sock (interrupt_msg (ev_pct ev) reset)) m;
            (_, p, saved) = schedule (me_reset env) ev sock (mo_pending m);
            m = m\<lparr>mo_pending := p\<rparr>
        in if saved then emit (SavePending p) m else m
      else m)"

definition handle_limit_event ::
  "('w, 'z) menv_scheme \<Rightarrow> limit_event \<Rightarrow> claude_session \<Rightarrow> obj \<Rightarrow> 'w mon \<Rightarrow> 'w mon" where
  "handle_limit_event env ev s status m =
     (let reset = trim_space (status_str status ''reset_time'' @ '' '' @ status_str status ''reset_tz'');
          active = (case status ''is_active'' of Some (ABool b) \<Rightarrow> b | _ \<Rightarrow> True);
          key = session_key s
      in if ev_level ev = Approaching then rename_for env key (warn_name s (ev_pct ev)) m
         else if \<not> active then rename_for env key (warn_name s (ev_pct ev)) m
         else rename_for env key (short_dir s @ ''[PAUSED]'')
           (send_interrupt env ev reset (sock_path_for env (cs_pid s)) m))"

definition remove_sched :: "bytes \<Rightarrow> 'w mon \<Rightarrow> 'w mon" where
  "remove_sched key m =
     (if is_pending key (mo_pending m)
      then (let m = m\<lparr>mo_pending := remove_pending key (mo_pending m)\<rparr> in emit (SavePending (mo_pending m)) m) else m)"

definition resume_one ::
  "('w, 'z) menv_scheme \<Rightarrow> (bytes \<times> claude_session) list \<Rightarrow> 'w mon \<Rightarrow> bytes \<times> bytes \<Rightarrow> 'w mon" where
  "resume_one env cur m ks =
     (case ks of (key, sock) \<Rightarrow>
        let m = (if me_exists env sock then emit (Send sock resume_msg) m else m);
            m = m\<lparr>mo_notified := clear_key key (mo_notified m)\<rparr>
        in case map_of cur key of Some s \<Rightarrow> rename_for env key (short_dir s) m | None \<Rightarrow> m)"

definition resume_sessions :: "('w, 'z) menv_scheme \<Rightarrow> (bytes \<times> claude_session) list \<Rightarrow> 'w mon \<Rightarrow> 'w mon" where
  "resume_sessions env cur m =
     (let (ds, p) = due (me_now env) (mo_pending m);
          m = m\<lparr>mo_pending := p\<rparr>;
          m = (if ds \<noteq> [] then emit (SavePending p) m else m)
      in foldl (resume_one env cur) m ds)"

section \<open>The loop\<close>

definition heal_wait :: int where "heal_wait = 30 * sec"

text \<open>A known key: recreate a lost window at most every 30 seconds, then follow the status file.\<close>

definition heal_key ::
  "('w, 'z) menv_scheme \<Rightarrow> bytes set option \<Rightarrow> bytes \<Rightarrow> claude_session \<Rightarrow> 'w mon \<Rightarrow> 'w mon option" where
  "heal_key env windows key s m =
     (case windows of
        None \<Rightarrow> Some m
      | Some ws \<Rightarrow>
          if heal_window_missing (mo_mgr m) ws key
             \<and> (case mo_heal m key of None \<Rightarrow> True | Some t \<Rightarrow> heal_wait \<le> me_now env - t)
          then add_for env s (m\<lparr>mo_heal := (mo_heal m)(key \<mapsto> me_now env)\<rparr>)
          else Some m)"

definition follow_short_dir :: "('w, 'z) menv_scheme \<Rightarrow> bytes \<Rightarrow> obj \<Rightarrow> 'w mon \<Rightarrow> 'w mon" where
  "follow_short_dir env key status m =
     (let sd = status_str status ''short_dir'' in
      if sd \<noteq> [] \<and> sd \<noteq> ''unknown''
         \<and> (window_for (mo_mgr m) key = ''unknown'' \<or> has_prefix (window_for (mo_mgr m) key) ''unknown-'')
      then rename_for env key sd m else m)"

definition follow_limits ::
  "('w, 'z) menv_scheme \<Rightarrow> bytes \<Rightarrow> claude_session \<Rightarrow> obj \<Rightarrow> 'w mon \<Rightarrow> 'w mon" where
  "follow_limits env key s status m =
     (case check (me_cfg env) (me_trunc env) key status (mo_notified m) of
        (ev, w) \<Rightarrow>
          let m = m\<lparr>mo_notified := w\<rparr> in
          case ev of
            Some ev \<Rightarrow> handle_limit_event env ev s status m
          | None \<Rightarrow>
              if is_pending key (mo_pending m) \<and> status ''is_active'' = Some (ABool True)
              then let m = remove_sched key m;
                       m = m\<lparr>mo_notified := clear_key key (mo_notified m)\<rparr>
                   in rename_for env key (short_dir s) m
              else m)"

definition tick_key ::
  "('w, 'z) menv_scheme \<Rightarrow> bytes set option \<Rightarrow> 'w mon \<Rightarrow> bytes \<times> claude_session \<Rightarrow> 'w mon option" where
  "tick_key env windows m ks =
     (case ks of (key, s) \<Rightarrow>
        if key \<notin> fst ` set (mo_known m) then add_for env s m
        else
          let status = read_session_status env (cs_pid s) in
          map_option (\<lambda>m. follow_limits env key s status (follow_short_dir env key status m))
            (heal_key env windows key s m))"

definition forget_key :: "('w, 'z) menv_scheme \<Rightarrow> bytes \<Rightarrow> 'w mon \<Rightarrow> 'w mon" where
  "forget_key env key m =
     (let m = remove_for env key m
      in remove_sched key (m\<lparr>mo_notified := clear_key key (mo_notified m)\<rparr>))"

definition idle_gc :: "('w, 'z) menv_scheme \<Rightarrow> 'w mon \<Rightarrow> 'w mon" where
  "idle_gc env m =
     (if 0 < cf_idle_gc_hours (me_cfg env) \<and> me_home env \<noteq> []
      then emit (Gc (me_sweep env (me_join env (me_join env (me_home env) ''.claude-master'') ''diag'')
             (cf_idle_gc_hours (me_cfg env) * 3600 * sec))) m
      else m)"

text \<open>One pass of \<open>RunLoop\<close>, up to the wait for the next one. A failed scan leaves everything as it is.\<close>

definition tick :: "('w, 'z) menv_scheme \<Rightarrow> 'w mon \<Rightarrow> 'w mon option" where
  "tick env m =
     (case me_scan env of
        None \<Rightarrow> Some m
      | Some ss \<Rightarrow>
          (let cur = current_of (managed_only env ss);
               (windows, w) = window_set (me_tmux env) (mo_mgr m) (mo_tmux m);
               m = m\<lparr>mo_tmux := w\<rparr>
           in map_option (\<lambda>m.
                let m = foldl (\<lambda>m (key, _). if key \<in> fst ` set cur then m else forget_key env key m)
                          m (me_order env (mo_known m));
                    m = resume_sessions env cur m;
                    m = idle_gc env m;
                    m = m\<lparr>mo_known := cur\<rparr>
                in emit (WriteStatus (write_status env (mo_mgr m) (map snd (me_order env cur)))) m)
              (run_steps (tick_key env windows) m (me_order env cur))))"

definition poll_interval :: "config \<Rightarrow> int" where
  "poll_interval cfg = (let i = cf_poll_interval cfg * sec in if i \<le> 0 then sec else i)"

definition start_state :: "manager \<Rightarrow> pending \<Rightarrow> 'w \<Rightarrow> 'w mon" where
  "start_state mgr p w =
     \<lparr>mo_mgr = mgr, mo_known = [], mo_heal = Map.empty, mo_notified = Map.empty, mo_pending = p,
      mo_tmux = w, mo_out = []\<rparr>"

definition run_loop :: "('w, 'z) menv_scheme list \<Rightarrow> 'w mon \<Rightarrow> 'w mon option" where
  "run_loop envs m = run_steps (\<lambda>m env. tick env m) m envs"

end
