(* ===== verification/MonitorProps.thy ===== *)
theory MonitorProps
  imports Monitor TmuxProps "HOL-Library.Multiset"
begin

text \<open>
  The monitor loop: which keys have windows, notifications and pending resumptions after any sequence of passes, how
  many windows a pass can create, and what the resumption does.
\<close>

section \<open>Windows of keys\<close>

lemma unique_name_nonempty: "base \<noteq> [] \<Longrightarrow> \<exists>c. unique_name ex base = Some c \<and> c \<noteq> []"
  using unique_from_cases [of 2 48 ex "take 20 base" "take 17 base"]
  by (auto simp: unique_name_def Let_def)

lemma short_dir_nonempty: "short_dir s \<noteq> []"
  using short_dir_component [of s] by (cases "trim_right_set (cs_cwd s) ''/'' = []") (auto simp: short_dir_def)

lemma window_for_adopt: "window_for (adopt_window key n mgr) k = (if k = key then n else window_for mgr k)"
  by (simp add: window_for_def adopt_window_def)

lemma ensure_window_adds:
  assumes "base \<noteq> []"
  obtains n mgr' w' where "ensure_window tm key base cmd mgr w = Some (n, mgr', w')"
    "window_for mgr' key \<noteq> []" "\<And>k. k \<noteq> key \<Longrightarrow> window_for mgr' k = window_for mgr k"
proof -
  obtain known w1 where k: "(if window_for mgr key = [] then (False, w)
      else case list_windows tm mgr w of (ns, w) \<Rightarrow> (window_for mgr key \<in> set ns, w)) = (known, w1)"
    by (cases "if window_for mgr key = [] then (False, w)
      else case list_windows tm mgr w of (ns, w) \<Rightarrow> (window_for mgr key \<in> set ns, w)")
  show ?thesis
  proof (cases known)
    case True
    then have "window_for mgr key \<noteq> []" using k by auto
    with True k that show ?thesis by (simp add: ensure_window_def Let_def)
  next
    case False
    obtain ns w2 where l: "list_windows tm mgr w1 = (ns, w2)" by (cases "list_windows tm mgr w1")
    obtain c where c: "unique_name ns base = Some c" "c \<noteq> []" using unique_name_nonempty [OF assms] by blast
    obtain o' w3 where t: "tm_out tm (new_window_args mgr c cmd) w2 = (o', w3)"
      by (cases "tm_out tm (new_window_args mgr c cmd) w2")
    have "ensure_window tm key base cmd mgr w = Some (c, adopt_window key c mgr, w3)"
      using False k l c t by (simp add: ensure_window_def Let_def)
    with c that show ?thesis by (simp add: window_for_adopt)
  qed
qed

definition has :: "'w mon \<Rightarrow> bytes \<Rightarrow> bool" where
  "has m k \<longleftrightarrow> window_for (mo_mgr m) k \<noteq> []"

definition notif :: "'w mon \<Rightarrow> bytes \<Rightarrow> bool" where
  "notif m k \<longleftrightarrow> mo_notified m k \<noteq> None"

definition pend :: "'w mon \<Rightarrow> bytes \<Rightarrow> bool" where
  "pend m k \<longleftrightarrow> is_pending k (mo_pending m)"

text \<open>A step for one key: it loses no window, and touches the tables of no other key.\<close>

definition grow :: "bytes \<Rightarrow> 'w mon \<Rightarrow> 'w mon \<Rightarrow> bool" where
  "grow key m m' \<longleftrightarrow> mo_known m' = mo_known m
     \<and> (\<forall>k. (has m k \<longrightarrow> has m' k) \<and> (has m' k \<longrightarrow> has m k \<or> k = key)
          \<and> (notif m' k \<longrightarrow> notif m k \<or> k = key) \<and> (pend m' k \<longrightarrow> pend m k \<or> k = key))"

lemma grow_refl [simp]: "grow key m m"
  by (simp add: grow_def)

lemma grow_trans: "grow key m1 m2 \<Longrightarrow> grow key m2 m3 \<Longrightarrow> grow key m1 m3"
  by (simp add: grow_def) blast

lemma view_emit [simp]: "has (emit x m) k = has m k" "notif (emit x m) k = notif m k" "pend (emit x m) k = pend m k"
    "mo_known (emit x m) = mo_known m" "mo_mgr (emit x m) = mo_mgr m" "mo_pending (emit x m) = mo_pending m"
    "mo_notified (emit x m) = mo_notified m"
  by (simp_all add: emit_def has_def notif_def pend_def)

lemma view_update [simp]:
  "has (m\<lparr>mo_pending := p\<rparr>) k = has m k" "notif (m\<lparr>mo_pending := p\<rparr>) k = notif m k"
  "has (m\<lparr>mo_notified := n\<rparr>) k = has m k" "pend (m\<lparr>mo_notified := n\<rparr>) k = pend m k"
  "has (m\<lparr>mo_heal := h\<rparr>) k = has m k" "notif (m\<lparr>mo_heal := h\<rparr>) k = notif m k" "pend (m\<lparr>mo_heal := h\<rparr>) k = pend m k"
  "has (m\<lparr>mo_tmux := w\<rparr>) k = has m k" "notif (m\<lparr>mo_tmux := w\<rparr>) k = notif m k" "pend (m\<lparr>mo_tmux := w\<rparr>) k = pend m k"
  "has (m\<lparr>mo_known := c\<rparr>) k = has m k" "notif (m\<lparr>mo_known := c\<rparr>) k = notif m k" "pend (m\<lparr>mo_known := c\<rparr>) k = pend m k"
  by (simp_all add: has_def notif_def pend_def)

lemma add_for_adds:
  obtains m' where "add_for env s m = Some m'" "grow (session_key s) m m'" "has m' (session_key s)"
proof -
  let ?cmd = "if sock_path_for env (cs_pid s) \<noteq> []
      then socket_cmd (me_os env) (me_self env) (sock_path_for env (cs_pid s))
      else interactive_shell (me_os env) (me_shell env) (cs_cwd s)"
  obtain n mgr' w' where e: "ensure_window (me_tmux env) (session_key s) (short_dir s) ?cmd (mo_mgr m) (mo_tmux m)
       = Some (n, mgr', w')" "window_for mgr' (session_key s) \<noteq> []"
      "\<And>k. k \<noteq> session_key s \<Longrightarrow> window_for mgr' k = window_for (mo_mgr m) k"
    using ensure_window_adds [OF short_dir_nonempty [of s]] by metis
  have "add_for env s m = Some (m\<lparr>mo_mgr := mgr', mo_tmux := w'\<rparr>)"
    using e(1) by (simp add: add_for_def add_window_def)
  moreover have "grow (session_key s) m (m\<lparr>mo_mgr := mgr', mo_tmux := w'\<rparr>)"
    using e(2,3) unfolding grow_def has_def notif_def pend_def by simp metis
  ultimately show ?thesis using e(2) that by (simp add: has_def)
qed

lemma rename_for_views:
  assumes "name \<noteq> []"
  shows "has (rename_for env key name m) k = has m k" "notif (rename_for env key name m) k = notif m k"
    "pend (rename_for env key name m) k = pend m k" "mo_known (rename_for env key name m) = mo_known m"
  using assms
  by (auto simp: rename_for_def rename_window_def has_def notif_def pend_def window_for_adopt Let_def
      split: prod.splits if_splits)

lemma remove_for_views:
  "has (remove_for env key m) k = (has m k \<and> k \<noteq> key)" "notif (remove_for env key m) k = notif m k"
  "pend (remove_for env key m) k = pend m k" "mo_known (remove_for env key m) = mo_known m"
  by (auto simp: remove_for_def remove_window_def has_def notif_def pend_def window_for_def Let_def
      split: prod.splits if_splits)

lemma grow_views:
  "mo_known m' = mo_known m \<Longrightarrow> (\<And>k. has m' k = has m k) \<Longrightarrow> (\<And>k. notif m' k \<Longrightarrow> notif m k \<or> k = key)
   \<Longrightarrow> (\<And>k. pend m' k \<Longrightarrow> pend m k \<or> k = key) \<Longrightarrow> grow key m m'"
  by (auto simp: grow_def)

lemma grow_rename [simp]: "name \<noteq> [] \<Longrightarrow> grow key' m (rename_for env key name m)"
  by (intro grow_views) (auto simp: rename_for_views)

lemma is_pending_iff: "is_pending k p \<longleftrightarrow> (\<exists>e. (k, e) \<in> set p)"
  by (force simp: is_pending_def)

lemma grow_send: "ev_key ev = key \<Longrightarrow> grow key m (send_interrupt env ev r sock m)"
  by (auto simp: grow_def send_interrupt_def schedule_def pend_def is_pending_iff Let_def split: option.splits)

lemma grow_handle: "ev_key ev = key \<Longrightarrow> session_key s = key \<Longrightarrow> grow key m (handle_limit_event env ev s status m)"
  by (auto simp: handle_limit_event_def Let_def warn_name_def short_dir_nonempty
      intro: grow_trans [OF grow_send grow_rename])

lemma grow_remove_sched: "grow key' m (remove_sched key m)"
  by (auto simp: grow_def remove_sched_def remove_pending_def pend_def is_pending_iff Let_def)

lemma check_key: "fst (check cfg trunc key st w) = Some ev \<Longrightarrow> ev_key ev = key"
  by (auto simp: check_def split: option.splits if_splits)

lemma grow_check: "grow key m (m\<lparr>mo_notified := snd (check cfg trunc key st (mo_notified m))\<rparr>)"
  by (auto simp: grow_def notif_def check_other)

lemma grow_clear: "grow key' m (m\<lparr>mo_notified := clear_key key (mo_notified m)\<rparr>)"
  by (auto simp: grow_def notif_def clear_key_def split: if_splits)

lemma grow_follow: "session_key s = key \<Longrightarrow> grow key m (follow_limits env key s status m)"
proof -
  assume k: "session_key s = key"
  let ?c = "check (me_cfg env) (me_trunc env) key status (mo_notified m)"
  let ?m = "m\<lparr>mo_notified := snd ?c\<rparr>"
  show ?thesis
  proof (cases "fst ?c")
    case (Some ev)
    then have "follow_limits env key s status m = handle_limit_event env ev s status ?m"
      by (cases ?c) (simp add: follow_limits_def)
    moreover have "grow key ?m (handle_limit_event env ev s status ?m)"
      using grow_handle [OF check_key [OF Some] k] .
    ultimately show ?thesis using grow_trans [OF grow_check] by metis
  next
    case None
    show ?thesis
    proof (cases "is_pending key (mo_pending m) \<and> status ''is_active'' = Some (ABool True)")
      case True
      let ?m1 = "remove_sched key ?m"
      let ?m2 = "?m1\<lparr>mo_notified := clear_key key (mo_notified ?m1)\<rparr>"
      have "follow_limits env key s status m = rename_for env key (short_dir s) ?m2"
        using None True by (cases ?c) (simp add: follow_limits_def Let_def)
      then show ?thesis
        using grow_trans [OF grow_check grow_trans [OF grow_remove_sched grow_trans [OF grow_clear grow_rename]]]
          short_dir_nonempty by metis
    next
      case False
      then have "follow_limits env key s status m = ?m"
        using None by (cases ?c) (auto simp: follow_limits_def)
      then show ?thesis using grow_check by simp
    qed
  qed
qed

lemma grow_short_dir: "grow key m (follow_short_dir env key status m)"
  by (auto simp: follow_short_dir_def Let_def)

lemma heal_key_grows:
  assumes "session_key s = key"
  obtains m' where "heal_key env windows key s m = Some m'" "grow key m m'"
proof -
  let ?h = "m\<lparr>mo_heal := (mo_heal m)(key \<mapsto> me_now env)\<rparr>"
  obtain m1 where m1: "add_for env s ?h = Some m1" "grow key ?h m1" using add_for_adds [of env s ?h] assms by blast
  have "grow key m ?h" by (simp add: grow_def)
  with m1 have "grow key m m1" by (blast intro: grow_trans)
  moreover have "heal_key env windows key s m = Some m \<or> heal_key env windows key s m = Some m1"
    using m1(1) by (auto simp: heal_key_def split: option.split)
  ultimately show ?thesis using that grow_refl by blast
qed

lemma tick_key_grows:
  assumes "session_key s = key" and "key \<in> fst ` set (mo_known m) \<longrightarrow> has m key"
  obtains m' where "tick_key env windows m (key, s) = Some m'" "grow key m m'" "has m' key"
proof (cases "key \<in> fst ` set (mo_known m)")
  case True
  obtain m1 where m1: "heal_key env windows key s m = Some m1" "grow key m m1" using heal_key_grows [OF assms(1)] .
  let ?st = "read_session_status env (cs_pid s)"
  let ?m2 = "follow_limits env key s ?st (follow_short_dir env key ?st m1)"
  have "grow key m ?m2" using grow_trans [OF m1(2) grow_trans [OF grow_short_dir grow_follow [OF assms(1)]]] .
  moreover from this have "has ?m2 key" using assms(2) True by (simp add: grow_def)
  ultimately show ?thesis using that m1 True by (simp add: tick_key_def Let_def)
next
  case False
  then show ?thesis using that add_for_adds [of env s m] assms(1) by (simp add: tick_key_def) metis
qed

text \<open>The keys of a pass.\<close>

definition keyed :: "(bytes \<times> claude_session) list \<Rightarrow> bool" where
  "keyed cur \<longleftrightarrow> (\<forall>(k, s) \<in> set cur. k = session_key s)"

lemma tick_keys_grow:
  assumes "keyed cur" and "\<forall>k \<in> fst ` set (mo_known m). k \<in> fst ` set cur \<longrightarrow> has m k"
  shows "\<exists>m'. run_steps (tick_key env windows) m cur = Some m' \<and> mo_known m' = mo_known m
     \<and> (\<forall>k. (has m' k \<longleftrightarrow> has m k \<or> k \<in> fst ` set cur)
          \<and> (notif m' k \<longrightarrow> notif m k \<or> k \<in> fst ` set cur) \<and> (pend m' k \<longrightarrow> pend m k \<or> k \<in> fst ` set cur))"
  using assms
proof (induction cur arbitrary: m)
  case (Cons x cur)
  obtain k s where x: "x = (k, s)" by (cases x)
  have ks: "session_key s = k" and kc: "keyed cur" using Cons.prems(1) by (auto simp: x keyed_def)
  obtain m1 where m1: "tick_key env windows m (k, s) = Some m1" "grow k m m1" "has m1 k"
    using tick_key_grows [OF ks, of m env windows] Cons.prems(2) x by auto
  have p: "\<forall>k' \<in> fst ` set (mo_known m1). k' \<in> fst ` set cur \<longrightarrow> has m1 k'"
    using Cons.prems(2) m1(2) by (auto simp: grow_def x)
  obtain m2 where "run_steps (tick_key env windows) m1 cur = Some m2" "mo_known m2 = mo_known m1"
      "\<forall>k. (has m2 k \<longleftrightarrow> has m1 k \<or> k \<in> fst ` set cur)
          \<and> (notif m2 k \<longrightarrow> notif m1 k \<or> k \<in> fst ` set cur) \<and> (pend m2 k \<longrightarrow> pend m1 k \<or> k \<in> fst ` set cur)"
    using Cons.IH [OF kc p] by blast
  then show ?case using m1 x by (auto simp: grow_def)
qed simp


section \<open>Lost keys\<close>

lemma remove_sched_views:
  "has (remove_sched key m) k = has m k" "notif (remove_sched key m) k = notif m k"
  "pend (remove_sched key m) k = (pend m k \<and> k \<noteq> key)" "mo_known (remove_sched key m) = mo_known m"
  by (auto simp: remove_sched_def remove_pending_def pend_def is_pending_iff Let_def)

lemma forget_key_views:
  "has (forget_key env key m) k = (has m k \<and> k \<noteq> key)" "notif (forget_key env key m) k = (notif m k \<and> k \<noteq> key)"
  "pend (forget_key env key m) k = (pend m k \<and> k \<noteq> key)" "mo_known (forget_key env key m) = mo_known m"
proof -
  have n: "mo_notified (remove_for env key m) = mo_notified m"
    by (simp add: remove_for_def split: prod.split)
  show "has (forget_key env key m) k = (has m k \<and> k \<noteq> key)" "notif (forget_key env key m) k = (notif m k \<and> k \<noteq> key)"
    "pend (forget_key env key m) k = (pend m k \<and> k \<noteq> key)" "mo_known (forget_key env key m) = mo_known m"
    using n by (simp_all add: forget_key_def Let_def remove_sched_views remove_for_views)
      (simp add: notif_def clear_key_def)
qed

definition forget_lost ::
  "('w, 'z) menv_scheme \<Rightarrow> bytes set \<Rightarrow> (bytes \<times> claude_session) list \<Rightarrow> 'w mon \<Rightarrow> 'w mon" where
  "forget_lost env S xs m = foldl (\<lambda>m (key, _). if key \<in> S then m else forget_key env key m) m xs"

text \<open>
  The contract of a table of keys that are forgotten one by one; the windows, the levels of the limits and the paused sessions are
  three views of the monitor that keep it.
\<close>

locale keyed_table =
  fixes holds :: "'s \<Rightarrow> 'k \<Rightarrow> bool" and forget :: "'k \<Rightarrow> 's \<Rightarrow> 's"
  assumes forget_one: "holds (forget k s) j \<longleftrightarrow> holds s j \<and> j \<noteq> k"
begin

lemma forgotten_but:
  "holds (foldl (\<lambda>s (k, x). if k \<in> S then s else forget k s) s xs) j \<longleftrightarrow> holds s j \<and> (j \<in> S \<or> j \<notin> fst ` set xs)"
proof (induction xs arbitrary: s)
  case (Cons x xs)
  then show ?case by (cases x) (auto simp: forget_one)
qed simp

end

interpretation windows: keyed_table has "forget_key env" for env
  by unfold_locales (rule forget_key_views)

interpretation levels: keyed_table notif "forget_key env" for env
  by unfold_locales (rule forget_key_views)

interpretation paused: keyed_table pend "forget_key env" for env
  by unfold_locales (rule forget_key_views)

lemma forget_lost_views:
  "has (forget_lost env S xs m) k = (has m k \<and> (k \<in> S \<or> k \<notin> fst ` set xs))
   \<and> notif (forget_lost env S xs m) k = (notif m k \<and> (k \<in> S \<or> k \<notin> fst ` set xs))
   \<and> pend (forget_lost env S xs m) k = (pend m k \<and> (k \<in> S \<or> k \<notin> fst ` set xs))
   \<and> mo_known (forget_lost env S xs m) = mo_known m"
proof -
  have "mo_known (forget_lost env S xs m) = mo_known m"
    unfolding forget_lost_def by (induction xs arbitrary: m) (auto simp: forget_key_views)
  then show ?thesis
    by (simp add: forget_lost_def windows.forgotten_but levels.forgotten_but paused.forgotten_but)
qed

section \<open>Resumption\<close>

definition resume_out :: "('w, 'z) menv_scheme \<Rightarrow> (bytes \<times> bytes) list \<Rightarrow> out list" where
  "resume_out env ds = map (\<lambda>(_, sock). Send sock resume_msg) (filter (\<lambda>(_, sock). me_exists env sock) ds)"

lemma rename_for_fields:
  "mo_out (rename_for env key name m) = mo_out m" "mo_pending (rename_for env key name m) = mo_pending m"
  "mo_notified (rename_for env key name m) = mo_notified m" "mo_known (rename_for env key name m) = mo_known m"
  by (simp_all add: rename_for_def split: prod.split)

lemma resume_one_fields:
  "mo_out (resume_one env cur m (k, sock)) = mo_out m @ resume_out env [(k, sock)]
   \<and> mo_pending (resume_one env cur m (k, sock)) = mo_pending m
   \<and> mo_notified (resume_one env cur m (k, sock)) = (mo_notified m)(k := None)
   \<and> mo_known (resume_one env cur m (k, sock)) = mo_known m
   \<and> has (resume_one env cur m (k, sock)) x = has m x"
  by (auto simp: resume_one_def resume_out_def Let_def rename_for_fields rename_for_views short_dir_nonempty
        clear_key_def split: option.split) (auto simp: emit_def)

lemma resume_fold:
  "mo_out (foldl (resume_one env cur) m ds) = mo_out m @ resume_out env ds
   \<and> mo_pending (foldl (resume_one env cur) m ds) = mo_pending m
   \<and> mo_notified (foldl (resume_one env cur) m ds) = (\<lambda>k. if k \<in> fst ` set ds then None else mo_notified m k)
   \<and> mo_known (foldl (resume_one env cur) m ds) = mo_known m
   \<and> has (foldl (resume_one env cur) m ds) x = has m x"
proof (induction ds arbitrary: m)
  case (Cons d ds)
  obtain k sock where d: "d = (k, sock)" by (cases d)
  have "resume_out env (d # ds) = resume_out env [d] @ resume_out env ds" by (simp add: resume_out_def)
  then show ?case using Cons [of "resume_one env cur m d"] resume_one_fields [of env cur m k sock x]
    by (auto simp: d fun_eq_iff)
qed (simp add: resume_out_def)

lemma resume_sessions_fields:
  "mo_pending (resume_sessions env cur m) = filter (\<lambda>(k, e). me_now env < pe_reset_at e) (mo_pending m)
   \<and> mo_notified (resume_sessions env cur m)
       = (\<lambda>k. if k \<in> fst ` set (fst (due (me_now env) (mo_pending m))) then None else mo_notified m k)
   \<and> mo_known (resume_sessions env cur m) = mo_known m
   \<and> has (resume_sessions env cur m) x = has m x
   \<and> mo_out (resume_sessions env cur m) = mo_out m
       @ (if fst (due (me_now env) (mo_pending m)) = [] then []
          else [SavePending (snd (due (me_now env) (mo_pending m)))])
       @ resume_out env (fst (due (me_now env) (mo_pending m)))"
proof -
  let ?d = "due (me_now env) (mo_pending m)"
  let ?m = "m\<lparr>mo_pending := snd ?d\<rparr>"
  let ?m1 = "if fst ?d \<noteq> [] then emit (SavePending (snd ?d)) ?m else ?m"
  have r: "resume_sessions env cur m = foldl (resume_one env cur) ?m1 (fst ?d)"
    by (simp add: resume_sessions_def Let_def split: prod.split)
  have p: "snd ?d = filter (\<lambda>(k, e). me_now env < pe_reset_at e) (mo_pending m)"
    by (simp add: due_def not_le)
  have f: "mo_out ?m1 = mo_out m @ (if fst ?d = [] then [] else [SavePending (snd ?d)])"
    "mo_pending ?m1 = snd ?d" "mo_notified ?m1 = mo_notified m" "mo_known ?m1 = mo_known m" "has ?m1 x = has m x"
    by (simp_all add: emit_def has_def)
  have "\<exists>m1. resume_sessions env cur m = foldl (resume_one env cur) m1 (fst ?d)
      \<and> mo_out m1 = mo_out m @ (if fst ?d = [] then [] else [SavePending (snd ?d)])
      \<and> mo_pending m1 = snd ?d \<and> mo_notified m1 = mo_notified m \<and> mo_known m1 = mo_known m \<and> has m1 x = has m x"
    using r f by blast
  then obtain m1 where m1: "resume_sessions env cur m = foldl (resume_one env cur) m1 (fst ?d)"
      "mo_out m1 = mo_out m @ (if fst ?d = [] then [] else [SavePending (snd ?d)])"
      "mo_pending m1 = snd ?d" "mo_notified m1 = mo_notified m" "mo_known m1 = mo_known m" "has m1 x = has m x"
    by blast
  show ?thesis unfolding m1(1) p [symmetric] using resume_fold [of env cur m1 "fst ?d" x] unfolding m1(2-) by simp
qed

lemma resume_sessions_views:
  "has (resume_sessions env cur m) k = has m k"
  "notif (resume_sessions env cur m) k \<Longrightarrow> notif m k"
  "pend (resume_sessions env cur m) k \<Longrightarrow> pend m k"
  "mo_known (resume_sessions env cur m) = mo_known m"
  using resume_sessions_fields [of env cur m k]
  by (auto simp: notif_def pend_def is_pending_iff split: if_splits)

section \<open>The loop\<close>

lemma keyed_current: "keyed (current_of ss)" "fst ` set (current_of ss) = session_key ` set ss"
proof -
  have "keyed es \<Longrightarrow> keyed (foldl (\<lambda>cur s. put_entry cur (session_key s, s)) es ss)
      \<and> fst ` set (foldl (\<lambda>cur s. put_entry cur (session_key s, s)) es ss) = fst ` set es \<union> session_key ` set ss" for es
  proof (induction ss arbitrary: es)
    case (Cons s ss)
    have "keyed (put_entry es (session_key s, s))" using Cons.prems by (auto simp: keyed_def)
    moreover have "fst ` set (put_entry es (session_key s, s)) = insert (session_key s) (fst ` set es)" by force
    ultimately show ?case using Cons.IH by simp
  qed simp
  from this [of "[]"] show "keyed (current_of ss)" "fst ` set (current_of ss) = session_key ` set ss"
    by (auto simp: current_of_def keyed_def)
qed

definition fair :: "('w, 'z) menv_scheme \<Rightarrow> bool" where
  "fair env \<longleftrightarrow> (\<forall>xs. mset (me_order env xs) = mset xs)"

definition tracked :: "(bytes \<Rightarrow> bool) \<Rightarrow> (bytes \<Rightarrow> bool) \<Rightarrow> 'w mon \<Rightarrow> bool" where
  "tracked H P m \<longleftrightarrow> (\<forall>k.
     (k \<in> fst ` set (mo_known m) \<longrightarrow> has m k) \<and> (has m k \<longrightarrow> k \<in> fst ` set (mo_known m) \<or> H k)
     \<and> (notif m k \<longrightarrow> k \<in> fst ` set (mo_known m)) \<and> (pend m k \<longrightarrow> k \<in> fst ` set (mo_known m) \<or> P k))"

lemma tick_tracked:
  assumes "fair env" and "tracked H P m"
  shows "\<exists>m'. tick env m = Some m' \<and> tracked H P m'
    \<and> (\<forall>ss. me_scan env = Some ss \<longrightarrow> fst ` set (mo_known m') = session_key ` set (managed_only env ss))
    \<and> (me_scan env = None \<longrightarrow> m' = m)"
proof (cases "me_scan env")
  case (Some ss)
  let ?cur = "current_of (managed_only env ss)" let ?S = "fst ` set ?cur"
  obtain windows w where ws: "window_set (me_tmux env) (mo_mgr m) (mo_tmux m) = (windows, w)"
    by (cases "window_set (me_tmux env) (mo_mgr m) (mo_tmux m)")
  let ?m0 = "m\<lparr>mo_tmux := w\<rparr>"
  have o: "set (me_order env xs) = set xs" for xs using assms(1) unfolding fair_def by (metis set_mset_mset)
  have "keyed (me_order env ?cur)" using keyed_current(1) by (simp add: keyed_def o)
  moreover have "\<forall>k \<in> fst ` set (mo_known ?m0). k \<in> fst ` set (me_order env ?cur) \<longrightarrow> has ?m0 k"
    using assms(2) by (simp add: tracked_def)
  ultimately obtain m1 where m1: "run_steps (tick_key env windows) ?m0 (me_order env ?cur) = Some m1"
      "mo_known m1 = mo_known m"
      "\<forall>k. (has m1 k \<longleftrightarrow> has m k \<or> k \<in> ?S) \<and> (notif m1 k \<longrightarrow> notif m k \<or> k \<in> ?S) \<and> (pend m1 k \<longrightarrow> pend m k \<or> k \<in> ?S)"
    using tick_keys_grow [of "me_order env ?cur" ?m0 env windows] by (auto simp: o)
  let ?m2 = "forget_lost env ?S (me_order env (mo_known m1)) m1"
  let ?m3 = "resume_sessions env ?cur ?m2"
  have t: "tick env m = Some (emit (WriteStatus (write_status env (mo_mgr (idle_gc env ?m3)) (map snd (me_order env ?cur))))
      ((idle_gc env ?m3)\<lparr>mo_known := ?cur\<rparr>))" (is "_ = Some ?m4")
    using Some ws m1(1) by (simp add: tick_def Let_def forget_lost_def)
  have g: "has (idle_gc env m) k = has m k" "notif (idle_gc env m) k = notif m k" "pend (idle_gc env m) k = pend m k"
    for k and m :: "'a mon" by (simp_all add: idle_gc_def)
  have k: "mo_known ?m4 = ?cur" by simp
  note f = forget_lost_views [of env ?S "me_order env (mo_known m1)" m1, unfolded o m1(2)]
  let ?K = "fst ` set (mo_known m)"
  have h: "has ?m4 k \<longleftrightarrow> (has m k \<or> k \<in> ?S) \<and> (k \<in> ?S \<or> k \<notin> ?K)" for k
    using f m1(3) [rule_format, of k] resume_sessions_views(1) [of env ?cur ?m2 k] by (simp add: g m1(2))
  have n: "notif ?m4 k \<longrightarrow> (notif m k \<or> k \<in> ?S) \<and> (k \<in> ?S \<or> k \<notin> ?K)" for k
    using f m1(3) [rule_format, of k] resume_sessions_views(2) [of env ?cur ?m2 k] by (simp add: g m1(2))
  have pn: "pend ?m4 k \<longrightarrow> (pend m k \<or> k \<in> ?S) \<and> (k \<in> ?S \<or> k \<notin> ?K)" for k
    using f m1(3) [rule_format, of k] resume_sessions_views(3) [of env ?cur ?m2 k] by (simp add: g m1(2))
  have "tracked H P ?m4"
    unfolding tracked_def k
  proof (intro allI)
    fix k
    note a = assms(2) [unfolded tracked_def, THEN spec, of k]
    show "(k \<in> ?S \<longrightarrow> has ?m4 k) \<and> (has ?m4 k \<longrightarrow> k \<in> ?S \<or> H k) \<and> (notif ?m4 k \<longrightarrow> k \<in> ?S)
        \<and> (pend ?m4 k \<longrightarrow> k \<in> ?S \<or> P k)"
      using a n [of k] pn [of k] unfolding h [of k] by blast
  qed
  then show ?thesis using t Some k keyed_current(2) by auto
next
  case None
  then show ?thesis using assms(2) by (simp add: tick_def)
qed

lemma run_tracked:
  assumes "list_all fair envs" and "tracked H P m"
  shows "\<exists>m'. run_loop envs m = Some m' \<and> tracked H P m'"
  using assms
proof (induction envs arbitrary: m)
  case (Cons env envs)
  obtain m1 where m1: "tick env m = Some m1" "tracked H P m1"
    using tick_tracked [of env H P m] Cons.prems by auto
  then show ?case using Cons.IH [of m1] Cons.prems by (simp add: run_loop_def)
qed (simp add: run_loop_def)


section \<open>How many windows a pass creates\<close>

text \<open>\<open>cnt\<close> counts the \<open>new-window\<close> commands that tmux has been given.\<close>

definition counts_windows :: "'w tmux \<Rightarrow> ('w \<Rightarrow> nat) \<Rightarrow> bool" where
  "counts_windows tm cnt \<longleftrightarrow>
     (\<forall>w args. cnt (snd (tm w args)) = cnt w + (if hd args = ''new-window'' then 1 else 0))"

lemma cnt_out:
  assumes "counts_windows tm cnt"
  shows "cnt (snd (tm_out tm args w)) = cnt w + (if hd args = ''new-window'' then 1 else 0)"
    "cnt (snd (out_err tm args w)) = cnt w + (if hd args = ''new-window'' then 1 else 0)"
proof -
  have c: "cnt (snd (tm w args)) = cnt w + (if hd args = ''new-window'' then 1 else 0)"
    using assms by (simp add: counts_windows_def)
  then show "cnt (snd (tm_out tm args w)) = cnt w + (if hd args = ''new-window'' then 1 else 0)"
    "cnt (snd (out_err tm args w)) = cnt w + (if hd args = ''new-window'' then 1 else 0)"
    by (cases "tm w args"; simp add: tm_out_def out_err_def)+
qed

lemma cnt_list:
  assumes "counts_windows tm cnt"
  shows "cnt (snd (list_windows tm m w)) = cnt w" "cnt (snd (window_set tm m w)) = cnt w"
  using cnt_out [OF assms, where args = "list_names_args m" and w = w]
  by (auto simp: list_windows_def window_set_def list_windows_err_def list_names_args_def split: prod.splits)

lemma cnt_rename:
  assumes "counts_windows tm cnt"
  shows "cnt (snd (rename_window tm key new m w)) = cnt w"
proof -
  obtain ns w1 where l: "list_windows tm m w = (ns, w1)" by (cases "list_windows tm m w")
  have c: "cnt w1 = cnt w" using cnt_list(1) [OF assms, of m w] l by simp
  obtain o' w2 where t: "tm_out tm [''rename-window'', ''-t'', target m (window_for m key), take 30 new] w1 = (o', w2)"
    by (cases "tm_out tm [''rename-window'', ''-t'', target m (window_for m key), take 30 new] w1")
  have "cnt w2 = cnt w" using cnt_out(1) [OF assms, of "[''rename-window'', ''-t'', target m (window_for m key), take 30 new]" w1] c t
    by simp
  then show ?thesis using l c t by (simp add: rename_window_def Let_def)
qed

lemma cnt_remove:
  assumes "counts_windows tm cnt"
  shows "cnt (snd (remove_window tm key m w)) = cnt w"
proof -
  obtain ns w1 where l: "list_windows tm m w = (ns, w1)" by (cases "list_windows tm m w")
  have c: "cnt w1 = cnt w" using cnt_list(1) [OF assms, of m w] l by simp
  then show ?thesis using l cnt_out(1) [OF assms]
    by (simp add: remove_window_def Let_def)
qed

lemma cnt_ensure:
  assumes "counts_windows tm cnt" and "ensure_window tm key base cmd m w = Some (n, m', w')"
  shows "cnt w' \<le> cnt w + 1"
proof -
  obtain known w1 where k: "(if window_for m key = [] then (False, w)
      else case list_windows tm m w of (ns, w) \<Rightarrow> (window_for m key \<in> set ns, w)) = (known, w1)"
    by (cases "if window_for m key = [] then (False, w)
      else case list_windows tm m w of (ns, w) \<Rightarrow> (window_for m key \<in> set ns, w)")
  then have c1: "cnt w1 = cnt w" using cnt_list(1) [OF assms(1), of m w] by (auto split: if_splits prod.splits)
  obtain ns w2 where l: "list_windows tm m w1 = (ns, w2)" by (cases "list_windows tm m w1")
  have c2: "cnt w2 = cnt w" using cnt_list(1) [OF assms(1), of m w1] l c1 by simp
  have "cnt (snd (tm_out tm (new_window_args m c cmd) w2)) = cnt w + 1" for c
    using cnt_out(1) [OF assms(1)] c2 by (simp add: new_window_args_def)
  then have e: "tm_out tm (new_window_args m c cmd) w2 = (o', w3) \<Longrightarrow> cnt w3 = cnt w + 1" for c o' w3
    by (metis snd_conv)
  show ?thesis using assms(2) k l c1 e
    by (auto simp: ensure_window_def Let_def bind_Some_conv split: if_splits prod.splits)
qed


lemma cnt_add:
  assumes "counts_windows (me_tmux env) cnt" and "add_for env s m = Some m'"
  shows "cnt (mo_tmux m') \<le> cnt (mo_tmux m) + 1 \<and> mo_heal m' = mo_heal m"
  using assms(2) cnt_ensure [OF assms(1)] by (auto simp: add_for_def add_window_def)

text \<open>Steps that create no window and leave the times of the last repairs alone.\<close>

definition quiet :: "('w \<Rightarrow> nat) \<Rightarrow> 'w mon \<Rightarrow> 'w mon \<Rightarrow> bool" where
  "quiet cnt m m' \<longleftrightarrow> cnt (mo_tmux m') = cnt (mo_tmux m) \<and> mo_heal m' = mo_heal m \<and> mo_known m' = mo_known m"

lemma quiet_refl [simp]: "quiet cnt m m"
  by (simp add: quiet_def)

lemma quiet_trans: "quiet cnt m1 m2 \<Longrightarrow> quiet cnt m2 m3 \<Longrightarrow> quiet cnt m1 m3"
  by (simp add: quiet_def)

lemma quiet_update [simp]:
  "quiet cnt m (m'\<lparr>mo_notified := n\<rparr>) = quiet cnt m m'" "quiet cnt m (m'\<lparr>mo_pending := p\<rparr>) = quiet cnt m m'"
  "quiet cnt m (emit x m') = quiet cnt m m'"
  by (simp_all add: quiet_def emit_def)

lemma quiet_rename:
  "counts_windows (me_tmux env) cnt \<Longrightarrow> quiet cnt m m' \<Longrightarrow> quiet cnt m (rename_for env key name m')"
  using cnt_rename [of "me_tmux env" cnt key name "mo_mgr m'" "mo_tmux m'"]
  by (cases "rename_window (me_tmux env) key name (mo_mgr m') (mo_tmux m')") (auto simp: quiet_def rename_for_def)

lemma quiet_send: "quiet cnt m m' \<Longrightarrow> quiet cnt m (send_interrupt env ev r sock m')"
  by (simp add: send_interrupt_def Let_def split: prod.split)

lemma quiet_sched: "quiet cnt m m' \<Longrightarrow> quiet cnt m (remove_sched key m')"
  by (simp add: remove_sched_def Let_def)

lemma quiet_handle:
  "counts_windows (me_tmux env) cnt \<Longrightarrow> quiet cnt m m' \<Longrightarrow> quiet cnt m (handle_limit_event env ev s status m')"
  by (simp add: handle_limit_event_def Let_def quiet_rename quiet_send)

lemma quiet_follow_limits:
  assumes "counts_windows (me_tmux env) cnt" and "quiet cnt m m'"
  shows "quiet cnt m (follow_limits env key s status m')"
proof -
  obtain ev w where c: "check (me_cfg env) (me_trunc env) key status (mo_notified m') = (ev, w)"
    by (cases "check (me_cfg env) (me_trunc env) key status (mo_notified m')")
  show ?thesis
  proof (cases ev)
    case None
    then show ?thesis using assms c by (simp add: follow_limits_def Let_def quiet_rename quiet_sched)
  next
    case (Some e)
    then show ?thesis using assms c by (simp add: follow_limits_def Let_def quiet_handle)
  qed
qed

lemma quiet_follow:
  assumes "counts_windows (me_tmux env) cnt"
  shows "quiet cnt m (follow_limits env key s status (follow_short_dir env key status m))"
  using assms by (intro quiet_follow_limits) (simp_all add: follow_short_dir_def Let_def quiet_rename)

definition may_heal :: "('w, 'z) menv_scheme \<Rightarrow> 'w mon \<Rightarrow> bytes \<Rightarrow> bool" where
  "may_heal env m key \<longleftrightarrow> (case mo_heal m key of None \<Rightarrow> True | Some t \<Rightarrow> heal_wait \<le> me_now env - t)"

text \<open>The keys a pass may create a window for: new ones, and, when tmux could list the windows, those not
  repaired in the last 30 seconds.\<close>

definition may_create :: "('w, 'z) menv_scheme \<Rightarrow> bytes set option \<Rightarrow> 'w mon \<Rightarrow> bytes \<Rightarrow> bool" where
  "may_create env windows m key \<longleftrightarrow>
     key \<notin> fst ` set (mo_known m) \<or> windows \<noteq> None \<and> may_heal env m key"

lemma cnt_tick_key:
  assumes "counts_windows (me_tmux env) cnt" and "tick_key env windows m (key, s) = Some m'"
  shows "cnt (mo_tmux m') \<le> cnt (mo_tmux m)
      + (if may_create env windows m key then 1 else 0)
    \<and> (\<forall>k. k \<noteq> key \<longrightarrow> mo_heal m' k = mo_heal m k) \<and> mo_known m' = mo_known m"
proof -
  have add_known: "add_for env s m1 = Some m2 \<Longrightarrow> mo_known m2 = mo_known m1" for m1 m2
    by (auto simp: add_for_def)
  show ?thesis
  proof (cases "key \<in> fst ` set (mo_known m)")
    case True
    then obtain m1 where m1: "heal_key env windows key s m = Some m1"
        "m' = follow_limits env key s (read_session_status env (cs_pid s))
               (follow_short_dir env key (read_session_status env (cs_pid s)) m1)"
      using assms(2) by (auto simp: tick_key_def Let_def)
    have q: "cnt (mo_tmux m') = cnt (mo_tmux m1)" "mo_heal m' = mo_heal m1" "mo_known m' = mo_known m1"
      using quiet_follow [OF assms(1), of m1 key s "read_session_status env (cs_pid s)"] m1(2)
      by (simp_all add: quiet_def)
    let ?h = "m\<lparr>mo_heal := (mo_heal m)(key \<mapsto> me_now env)\<rparr>"
    have "m1 = m \<or> windows \<noteq> None \<and> may_heal env m key \<and> add_for env s ?h = Some m1"
      using m1(1) unfolding heal_key_def may_heal_def [symmetric] by (auto split: option.splits if_splits)
    then show ?thesis using q cnt_add [OF assms(1), of s ?h m1] add_known [of ?h m1] by (auto simp: may_create_def)
  next
    case False
    then have "add_for env s m = Some m'" using assms(2) by (simp add: tick_key_def)
    then show ?thesis using False cnt_add [OF assms(1), of s m m'] add_known by (auto simp: may_create_def)
  qed
qed

lemma cnt_tick_keys:
  assumes "counts_windows (me_tmux env) cnt" and "distinct (map fst cur)"
    and "run_steps (tick_key env windows) m cur = Some m'"
  shows "cnt (mo_tmux m') \<le> cnt (mo_tmux m) + length (filter (\<lambda>x. may_create env windows m (fst x)) cur)"
  using assms(2,3)
proof (induction cur arbitrary: m)
  case (Cons x cur)
  obtain key s where x: "x = (key, s)" by (cases x)
  obtain m1 where m1: "tick_key env windows m (key, s) = Some m1" "run_steps (tick_key env windows) m1 cur = Some m'"
    using Cons.prems(2) x by (auto simp: bind_Some_conv)
  note t = cnt_tick_key [OF assms(1) m1(1)]
  have "filter (\<lambda>x. may_create env windows m1 (fst x)) cur = filter (\<lambda>x. may_create env windows m (fst x)) cur"
    using t Cons.prems(1) x by (intro filter_cong) (auto simp: may_create_def may_heal_def image_iff)
  moreover have "cnt (mo_tmux m') \<le> cnt (mo_tmux m1) + length (filter (\<lambda>x. may_create env windows m1 (fst x)) cur)"
    using Cons.IH [OF _ m1(2)] Cons.prems(1) by simp
  ultimately show ?case using t [THEN conjunct1] unfolding x
    by (cases "may_create env windows m key") simp_all
qed simp

lemma distinct_current: "distinct (map fst (current_of ss))"
proof -
  have "distinct (map fst es) \<Longrightarrow> distinct (map fst (foldl (\<lambda>cur s. put_entry cur (session_key s, s)) es ss))" for es
    by (induction ss arbitrary: es) simp_all
  then show ?thesis by (simp add: current_of_def)
qed

lemma cnt_forget:
  assumes "counts_windows (me_tmux env) cnt"
  shows "cnt (mo_tmux (forget_lost env S xs m)) = cnt (mo_tmux m)"
proof -
  have f: "cnt (mo_tmux (forget_key env key m)) = cnt (mo_tmux m)" for key and m :: "'a mon"
    using cnt_remove [OF assms, of key "mo_mgr m" "mo_tmux m"]
    by (cases "remove_window (me_tmux env) key (mo_mgr m) (mo_tmux m)")
       (simp add: forget_key_def remove_for_def remove_sched_def emit_def Let_def)
  show ?thesis by (induction xs arbitrary: m) (auto simp: forget_lost_def f)
qed

lemma cnt_resume:
  assumes "counts_windows (me_tmux env) cnt"
  shows "cnt (mo_tmux (resume_sessions env cur m)) = cnt (mo_tmux m)"
proof -
  have r: "cnt (mo_tmux (rename_for env key name m)) = cnt (mo_tmux m)" for key name and m :: "'a mon"
    using quiet_rename [OF assms quiet_refl, of m key name] by (simp add: quiet_def)
  have o: "cnt (mo_tmux (resume_one env cur m x)) = cnt (mo_tmux m)" for x and m :: "'a mon"
    by (cases x) (auto simp: resume_one_def Let_def r emit_def split: option.split)
  have "cnt (mo_tmux (foldl (resume_one env cur) m ds)) = cnt (mo_tmux m)" for ds and m :: "'a mon"
    by (induction ds arbitrary: m) (simp_all add: o)
  then show ?thesis by (simp add: resume_sessions_def Let_def emit_def split: prod.split)
qed

lemma tick_creates:
  assumes "counts_windows (me_tmux env) cnt" and "fair env" and "tick env m = Some m'" and "me_scan env = Some ss"
  shows "cnt (mo_tmux m') \<le> cnt (mo_tmux m)
    + length (filter (\<lambda>x. may_create env (fst (window_set (me_tmux env) (mo_mgr m) (mo_tmux m))) m (fst x))
        (current_of (managed_only env ss)))"
proof -
  let ?cur = "current_of (managed_only env ss)" let ?S = "fst ` set ?cur"
  obtain windows w where ws: "window_set (me_tmux env) (mo_mgr m) (mo_tmux m) = (windows, w)"
    by (cases "window_set (me_tmux env) (mo_mgr m) (mo_tmux m)")
  have cw: "cnt w = cnt (mo_tmux m)" using cnt_list(2) [OF assms(1), of "mo_mgr m" "mo_tmux m"] ws by simp
  let ?m0 = "m\<lparr>mo_tmux := w\<rparr>"
  have p: "mset (me_order env ?cur) = mset ?cur" using assms(2) by (simp add: fair_def)
  have d: "distinct (map fst (me_order env ?cur))"
    using distinct_current p by (metis distinct_count_atmost_1 mset_map mset_eq_imp_distinct_iff)
  obtain m1 where m1: "run_steps (tick_key env windows) ?m0 (me_order env ?cur) = Some m1"
      "m' = emit (WriteStatus (write_status env (mo_mgr (idle_gc env (resume_sessions env ?cur
              (forget_lost env ?S (me_order env (mo_known m1)) m1)))) (map snd (me_order env ?cur))))
             ((idle_gc env (resume_sessions env ?cur (forget_lost env ?S (me_order env (mo_known m1)) m1)))\<lparr>mo_known := ?cur\<rparr>)"
    using assms(3,4) ws by (auto simp: tick_def Let_def forget_lost_def)
  have "cnt (mo_tmux m') = cnt (mo_tmux m1)"
    unfolding m1(2) using cnt_forget [OF assms(1)] cnt_resume [OF assms(1)] by (simp add: emit_def idle_gc_def)
  also have "\<dots> \<le> cnt (mo_tmux ?m0) + length (filter (\<lambda>x. may_create env windows ?m0 (fst x)) (me_order env ?cur))"
    using cnt_tick_keys [OF assms(1) d m1(1)] .
  also have "length (filter (\<lambda>x. may_create env windows ?m0 (fst x)) (me_order env ?cur))
      = length (filter (\<lambda>x. may_create env windows m (fst x)) ?cur)"
  proof -
    have "may_create env windows ?m0 = may_create env windows m"
      by (simp add: may_create_def may_heal_def fun_eq_iff)
    then show ?thesis using p by (metis mset_filter size_mset)
  qed
  finally show ?thesis using ws cw by simp
qed


section \<open>Two paused sessions of one directory\<close>

text \<open>
  Renaming does not make the name unique: two sessions with the same directory name that are paused get the same
  window name, so that closing the window of one of them is addressed to a name both have.
\<close>

definition two_windows :: manager where
  "two_windows = \<lparr>mg_session = ''cm'', mg_map = [''k1'' \<mapsto> ''app'', ''k2'' \<mapsto> ''app-2'']\<rparr>"

definition listing_tmux :: "bytes list tmux" where
  "listing_tmux w args = (if hd args = ''list-windows'' then (Some (join [CHR 0x0A] w), w) else (Some [], w))"

lemma paused_names_collide:
  "let (m, w) = rename_window listing_tmux ''k1'' ''app[PAUSED]'' two_windows [''app'', ''app-2''];
       (m, w) = rename_window listing_tmux ''k2'' ''app[PAUSED]'' m w
   in window_for m ''k1'' = ''app[PAUSED]'' \<and> window_for m ''k2'' = ''app[PAUSED]''"
  by code_simp

section \<open>The properties\<close>

text \<open>C4: Whatever the process scans, files, clock and tmux do, the loop never fails, and after every pass: the known
  keys are exactly those of the managed sessions found by the last successful scan, each of them has a window name, every
  window name belongs to a known key or was there at the start, only known keys are notified, and a pending resumption is
  of a known key or was loaded at the start. A pass whose scan fails changes nothing.
\<close>

theorem windows_follow_sessions:
  assumes "list_all fair envs" and "fair env"
  shows "\<exists>m m'. run_loop envs (start_state mgr p w) = Some m \<and> tick env m = Some m'
    \<and> tracked (\<lambda>k. window_for mgr k \<noteq> []) (\<lambda>k. is_pending k p) m'
    \<and> (\<forall>ss. me_scan env = Some ss \<longrightarrow> fst ` set (mo_known m') = session_key ` set (managed_only env ss))
    \<and> (me_scan env = None \<longrightarrow> m' = m)"
proof -
  have "tracked (\<lambda>k. window_for mgr k \<noteq> []) (\<lambda>k. is_pending k p) (start_state mgr p w)"
    by (simp add: tracked_def start_state_def has_def notif_def pend_def)
  from run_tracked [OF assms(1) this] obtain m where m: "run_loop envs (start_state mgr p w) = Some m"
      "tracked (\<lambda>k. window_for mgr k \<noteq> []) (\<lambda>k. is_pending k p) m" by blast
  from tick_tracked [OF assms(2) m(2)] show ?thesis
    by (elim exE) (rule exI [of _ m], rule exI, rule conjI [OF m(1)])
qed

definition sample_env :: "config \<Rightarrow> claude_session list option \<Rightarrow> int \<Rightarrow> bytes list menv" where
  "sample_env cfg scan now =
     \<lparr>me_cfg = cfg, me_os = Unix, me_self = None, me_shell = [], me_tmux = listing_tmux, me_join = (\<lambda>a b. a @ ''/'' @ b),
      me_trunc = uint, me_reset = (\<lambda>_. None), me_scan = scan, me_exists = (\<lambda>_. True),
      me_status_file = (\<lambda>_. None), me_now = now, me_order = rev, me_home = [], me_sweep = (\<lambda>_ _. [])\<rparr>"

lemma sample_fair: "fair (sample_env cfg scan now)"
  by (simp add: fair_def sample_env_def)

theorem windows_follow_sessions_witness:
  "\<forall>cfg. let s = no_session\<lparr>cs_pid := 7\<rparr>; env = sample_env cfg (Some [s]) 0 in
     \<exists>m m'. run_loop [env] (start_state two_windows [] [''app'']) = Some m \<and> tick (sample_env cfg None 1) m = Some m'
    \<and> tracked (\<lambda>k. window_for two_windows k \<noteq> []) (\<lambda>k. is_pending k []) m'
    \<and> (\<forall>ss. me_scan (sample_env cfg None 1) = Some ss \<longrightarrow>
         fst ` set (mo_known m') = session_key ` set (managed_only (sample_env cfg None 1) ss))
    \<and> (me_scan (sample_env cfg None 1) = None \<longrightarrow> m' = m)"
  unfolding Let_def
  by (intro allI windows_follow_sessions) (simp_all add: sample_fair)


definition counting_tmux :: "nat tmux" where
  "counting_tmux w args = (None, w + (if hd args = ''new-window'' then 1 else 0))"

definition counting_env :: "config \<Rightarrow> claude_session list \<Rightarrow> nat menv" where
  "counting_env cfg ss =
     \<lparr>me_cfg = cfg, me_os = Unix, me_self = None, me_shell = [], me_tmux = counting_tmux, me_join = (\<lambda>a b. a @ ''/'' @ b),
      me_trunc = uint, me_reset = (\<lambda>_. None), me_scan = Some ss, me_exists = (\<lambda>_. True),
      me_status_file = (\<lambda>_. None), me_now = 0, me_order = rev, me_home = [], me_sweep = (\<lambda>_ _. [])\<rparr>"



end
