(* ===== verification/Dashboard.thy ===== *)
theory Dashboard
  imports Monitor
begin

text \<open>
  The rest of \<open>internal/monitor/monitor.go\<close>: the dashboard that is drawn from the status file, and the commands that
  start, stop and query the daemon. The decoded status file is a record of its parts; number formatting (\<open>fmt_pct\<close>,
  \<open>fmt_mem\<close>), \<open>float64\<close> conversions, processes and files are parameters.
\<close>

section \<open>Padding\<close>

definition rcount :: "bytes \<Rightarrow> nat" where
  "rcount s = length (runes_of s)"

definition spaces :: "nat \<Rightarrow> bytes" where
  "spaces n = replicate n (CHR '' '')"

definition ljust :: "bytes \<Rightarrow> nat \<Rightarrow> bytes" where
  "ljust s n = s @ spaces (n - rcount s)"

definition rjust :: "bytes \<Rightarrow> nat \<Rightarrow> bytes" where
  "rjust s n = spaces (n - rcount s) @ s"

definition center :: "bytes \<Rightarrow> nat \<Rightarrow> bytes" where
  "center s n = (let d = n - rcount s in spaces (d div 2) @ s @ spaces (d - d div 2))"

definition rune_cut :: "bytes \<Rightarrow> nat \<Rightarrow> bytes" where
  "rune_cut s n = (let r = runes_of s in if n < length r then string_of_runes (take n r) else s)"

section \<open>The dashboard\<close>

definition jstr :: "obj \<Rightarrow> bytes \<Rightarrow> bytes" where
  "jstr m k = (case m k of Some (AStr s) \<Rightarrow> s | _ \<Rightarrow> [])"

definition jint :: "(64 word \<Rightarrow> int) \<Rightarrow> obj \<Rightarrow> bytes \<Rightarrow> int" where
  "jint trunc m k = (case m k of Some (AFloat f) \<Rightarrow> trunc f | Some (AInt n) \<Rightarrow> n | _ \<Rightarrow> 0)"

definition jflt :: "(int \<Rightarrow> 64 word) \<Rightarrow> obj \<Rightarrow> bytes \<Rightarrow> 64 word" where
  "jflt conv m k = (case m k of Some (AFloat f) \<Rightarrow> f | Some (AInt n) \<Rightarrow> conv n | _ \<Rightarrow> 0)"

record dash_fmt =
  df_trunc :: "64 word \<Rightarrow> int"
  df_of_int :: "int \<Rightarrow> 64 word"
  df_pct :: "64 word \<Rightarrow> bytes"
  df_mem :: "64 word \<Rightarrow> bytes"

record dash_data =
  da_updated :: bytes
  da_sessions :: "obj list"
  da_remote :: "obj list"

text \<open>Horizontal rules and borders: \<open>u n\<close> is the text of the one character \<open>n\<close>.\<close>

definition u :: "nat \<Rightarrow> bytes" where
  "u n = encode_rune n"

definition bar :: "nat \<Rightarrow> nat \<Rightarrow> nat \<Rightarrow> nat \<Rightarrow> bytes" where
  "bar l c n r = u l @ concat (replicate n (u c)) @ u r"

definition boxed :: "bytes \<Rightarrow> bytes" where
  "boxed s = u 9553 @ s @ u 9553"

definition dash :: bytes where
  "dash = u 8212"

definition usage_str :: "dash_fmt \<Rightarrow> obj \<Rightarrow> bytes" where
  "usage_str f s =
     (case s ''usage_percent'' of
        None \<Rightarrow> dash
      | Some ANil \<Rightarrow> dash
      | Some _ \<Rightarrow> show_int (jint (df_trunc f) s ''usage_percent'') @ ''%'')"

definition reset_str :: "obj \<Rightarrow> bytes" where
  "reset_str s = (if jstr s ''reset_time'' \<noteq> [] then jstr s ''reset_time'' else dash)"

definition session_row :: "dash_fmt \<Rightarrow> nat \<Rightarrow> obj \<Rightarrow> bytes" where
  "session_row f dir_w s =
     boxed ('' '' @ ljust (show_int (jint (df_trunc f) s ''pid'')) 6 @ '' ''
       @ ljust (rune_cut (jstr s ''short_dir'') dir_w) dir_w @ '' '' @ ljust (jstr s ''start_time'') 13 @ '' ''
       @ rjust (df_pct f (jflt (df_of_int f) s ''cpu_percent'')) 5 @ '' ''
       @ rjust (df_mem f (jflt (df_of_int f) s ''mem_mb'')) 7 @ '' ''
       @ rjust (usage_str f s) 5 @ '' '' @ rjust (reset_str s) 10 @ '' '')"

definition session_sub :: "dash_fmt \<Rightarrow> nat \<Rightarrow> obj \<Rightarrow> bytes" where
  "session_sub f w s =
     (let sid = (if jstr s ''session_id'' \<noteq> [] then ''['' @ rune_cut (jstr s ''session_id'') 8 @ '']'' else []);
          parts = [''Limit: '' @ usage_str f s, ''Resets: '' @ reset_str s]
            @ (if jstr s ''reset_tz'' \<noteq> [] then [''('' @ jstr s ''reset_tz'' @ '')''] else []);
          sb = (if sid \<noteq> [] then [sid] else []) @ parts;
          sub = trim_space (join ''  '' sb)
      in boxed (''  '' @ ljust sub (w - 4)))"

definition remote_row :: "nat \<Rightarrow> obj \<Rightarrow> bytes" where
  "remote_row w r =
     (let pc = rune_cut (jstr r ''pc'') 16; dir = jstr r ''short_dir''; sid = rune_cut (jstr r ''session_id'') 8;
          row = ljust pc 16 @ ''  '' @ u 8599 @ dir @ (if sid \<noteq> [] then ''  ['' @ sid @ '']'' else [])
      in boxed ('' '' @ ljust (rune_cut row (w - 3)) (w - 3)))"

definition footer :: "dash_data \<Rightarrow> bytes \<Rightarrow> bytes" where
  "footer d git =
     (let updated = (if da_updated d \<noteq> [] then da_updated d else dash) in
      string_of_runes [26356, 26032, 58, 32] @ updated @ string_of_runes [32, 32, 12475, 12483, 12471, 12519, 12531, 25968, 58, 32]
      @ show_int (int (length (da_sessions d)))
      @ (if da_remote d \<noteq> [] then string_of_runes [32, 32, 12522, 12514, 12540, 12488, 58, 32] @ show_int (int (length (da_remote d))) else [])
      @ (if git \<noteq> [] then string_of_runes [32, 32, 12484, 12540, 12523, 58, 32] @ git else []))"

definition dash_lines :: "dash_fmt \<Rightarrow> dash_data \<Rightarrow> int \<Rightarrow> bytes \<Rightarrow> bytes list" where
  "dash_lines f d width git =
     (let w = nat (max 78 width); dir_w = max 16 (w - 56) in
      [bar 9556 9552 (w - 2) 9559,
       boxed (center '' Claude Code Sessions '' (w - 2)),
       bar 9568 9552 (w - 2) 9571,
       boxed ('' '' @ ljust ''PID'' 6 @ '' '' @ ljust ''Dir'' dir_w @ '' '' @ ljust ''Started'' 13 @ '' ''
         @ rjust ''CPU%'' 5 @ '' '' @ rjust ''Mem MB'' 7 @ '' '' @ rjust ''Use%'' 5 @ '' '' @ rjust ''Resets'' 10 @ '' ''),
       bar 9568 9472 (w - 2) 9571]
      @ (if da_sessions d = [] then
           [boxed (ljust (string_of_runes [32, 32, 40, 67, 76, 73, 32, 12475, 12483, 12471, 12519, 12531, 12394, 12375, 41]) (w - 2))]
         else concat (map (\<lambda>s. [session_row f dir_w s, session_sub f w s]) (da_sessions d)))
      @ (if da_remote d \<noteq> [] then
           [bar 9568 9472 (w - 2) 9571,
            boxed (center (string_of_runes [32, 12522, 12514, 12540, 12488, 65288, 20182, 32, 80, 67, 65289]) (w - 2)),
            bar 9568 9472 (w - 2) 9571]
           @ map (remote_row w) (da_remote d)
         else [])
      @ [bar 9568 9472 (w - 2) 9571, boxed ('' '' @ ljust (footer d git) (w - 3)), bar 9562 9552 (w - 2) 9565])"

definition render_dashboard :: "dash_fmt \<Rightarrow> dash_data \<Rightarrow> int \<Rightarrow> bytes \<Rightarrow> bytes" where
  "render_dashboard f d width git = join [CHR 0x0A] (dash_lines f d width git)"

text \<open>
  One round of \<open>Dashboard\<close>, which is repeated every three seconds: the status file and the snapshot of the remote windows as
  far as they could be read and decoded.
\<close>

definition dashboard_frame :: "dash_fmt \<Rightarrow> dash_data option \<Rightarrow> obj list option \<Rightarrow> bytes" where
  "dashboard_frame f st remote =
     (let d = (case st of Some d \<Rightarrow> d | None \<Rightarrow> \<lparr>da_updated = [], da_sessions = [], da_remote = []\<rparr>);
          d = (case remote of Some rs \<Rightarrow> d\<lparr>da_remote := rs\<rparr> | None \<Rightarrow> d)
      in ESC # ''[2J'' @ ESC # ''[H'' @ render_dashboard f d 78 [] @ [CHR 0x0A])"

section \<open>Starting and stopping the daemon\<close>

text \<open>
  The outcome of a command, and what is left in the pid file (\<open>None\<close>: removed or absent). \<open>read\<close> is its content; \<open>alive\<close>
  and \<open>terminate\<close> act on a process; \<open>spawn\<close> is the process id of the new daemon, \<open>None\<close> when starting it or opening the
  log fails.
\<close>

datatype daemon_result = AlreadyRunning int | StartFailed | Started int | NotRunning | BadPidFile | NoProcess | Stopped int

definition pid_alive :: "(int \<Rightarrow> bool) \<Rightarrow> int \<Rightarrow> bool" where
  "pid_alive proc_alive pid \<longleftrightarrow> \<not> pid \<le> 0 \<and> proc_alive pid"

definition cmd_start :: "(int \<Rightarrow> bool) \<Rightarrow> int option \<Rightarrow> bytes option \<Rightarrow> daemon_result \<times> bytes option" where
  "cmd_start proc_alive spawn read =
     (case (case read of None \<Rightarrow> None | Some b \<Rightarrow>
              (case atoi (trim_space b) of Some pid \<Rightarrow> if pid_alive proc_alive pid then Some pid else None | None \<Rightarrow> None)) of
        Some pid \<Rightarrow> (AlreadyRunning pid, read)
      | None \<Rightarrow> (case spawn of None \<Rightarrow> (StartFailed, read) | Some pid \<Rightarrow> (Started pid, Some (show_int pid))))"

definition cmd_stop :: "(int \<Rightarrow> bool) \<Rightarrow> bytes option \<Rightarrow> daemon_result \<times> bytes option" where
  "cmd_stop terminate read =
     (case read of
        None \<Rightarrow> (NotRunning, None)
      | Some b \<Rightarrow>
          (case atoi (trim_space b) of
             None \<Rightarrow> (BadPidFile, None)
           | Some pid \<Rightarrow> if terminate pid then (Stopped pid, None) else (NoProcess, None)))"

text \<open>\<open>CmdRun\<close>: the manager, its session, the windows of the last status file, the dashboard, then the loop.\<close>

definition cmd_run ::
  "bool \<Rightarrow> os \<Rightarrow> 'w tmux \<Rightarrow> config \<Rightarrow> bytes \<Rightarrow> (bytes \<times> bytes) list option \<Rightarrow> pending \<Rightarrow> 'w
   \<Rightarrow> ('w, 'z) menv_scheme list \<Rightarrow> 'w mon option option" where
  "cmd_run have_tmux os tm cfg self prev p w envs =
     (case new_manager have_tmux (cf_tmux_session cfg) of
        None \<Rightarrow> None
      | Some mgr \<Rightarrow>
          (case restore_windows tm prev mgr (ensure_session os tm mgr w) of
             (mgr, w) \<Rightarrow>
               let w = (if self \<noteq> [] then setup_dashboard tm mgr (self @ '' monitor --dashboard'') w else w)
               in Some (run_loop envs (start_state mgr p w))))"

text \<open>\<open>CmdStatus\<close>: the sessions, each with whether it has a proxy socket.\<close>

definition cmd_status :: "('w, 'z) menv_scheme \<Rightarrow> (claude_session \<times> bool) list option" where
  "cmd_status env =
     map_option (map (\<lambda>s. (s, me_exists env (sock_path_for env (cs_pid s))))) (me_scan env)"

section \<open>Widths\<close>

text \<open>\<open>cells n s\<close>: the text is valid UTF-8 of \<open>n\<close> characters.\<close>

definition cells :: "nat \<Rightarrow> bytes \<Rightarrow> bool" where
  "cells n s \<longleftrightarrow> (\<exists>rs. list_all valid_rune rs \<and> s = string_of_runes rs \<and> length rs = n)"

named_theorems cells_intros \<open>texts of a known width\<close>

lemma cells_rcount: "cells n s \<Longrightarrow> rcount s = n"
  by (auto simp: cells_def rcount_def runes_of_string)

lemma cells_append: "cells m a \<Longrightarrow> cells n b \<Longrightarrow> cells (m + n) (a @ b)"
  unfolding cells_def by (metis concat_append length_append list_all_append map_append string_of_runes_def)

lemma cells_spaces [cells_intros]: "cells n (spaces n)"
proof -
  have "spaces n = string_of_runes (replicate n 32)"
    by (induction n) (simp_all add: spaces_def string_of_runes_def char_of_def bit_0)
  moreover have "list_all valid_rune (replicate n 32)" by (simp add: valid_rune_def list_all_iff)
  ultimately show ?thesis unfolding cells_def by (metis length_replicate)
qed

lemma cells_u: "valid_rune c \<Longrightarrow> cells 1 (u c)"
  unfolding cells_def by (rule exI [of _ "[c]"]) (simp add: u_def string_of_runes_def)

lemma cells_rule: "valid_rune c \<Longrightarrow> cells n (concat (replicate n (u c)))"
  unfolding cells_def
  by (rule exI [of _ "replicate n c"]) (simp add: u_def string_of_runes_def list_all_iff)

lemma cells_ascii: "is_ascii s \<Longrightarrow> cells (length s) s"
proof -
  assume a: "is_ascii s"
  have "string_of_runes (map ord s) = s"
    using a by (induction s) (simp_all add: string_of_runes_def is_ascii_def)
  moreover have "list_all valid_rune (map ord s)"
    using a by (induction s) (auto simp: is_ascii_def valid_rune_def)
  ultimately show ?thesis unfolding cells_def by (metis length_map)
qed

lemma cells_ljust: "cells k s \<Longrightarrow> k \<le> n \<Longrightarrow> cells n (ljust s n)"
  using cells_append [of k s "n - k" "spaces (n - k)"] cells_spaces [of "n - k"] by (simp add: ljust_def cells_rcount)

lemma cells_rjust: "cells k s \<Longrightarrow> k \<le> n \<Longrightarrow> cells n (rjust s n)"
  using cells_append [of "n - k" "spaces (n - k)" k s] cells_spaces [of "n - k"] by (simp add: rjust_def cells_rcount)

lemma cells_bar: "valid_rune l \<Longrightarrow> valid_rune c \<Longrightarrow> valid_rune r \<Longrightarrow> cells (n + 2) (bar l c n r)"
  using cells_append [OF cells_u cells_append [OF cells_rule cells_u], of l c r n] by (simp add: bar_def add.commute)

lemma cells_boxed: "cells n s \<Longrightarrow> cells (n + 2) (boxed s)"
  using cells_append [OF cells_u cells_append [of n s 1 "u 9553"], of 9553] cells_u [of 9553]
  by (simp add: boxed_def valid_rune_def)

lemma cells_cut: "cells k s \<Longrightarrow> cells (min n k) (rune_cut s n)"
proof -
  assume "cells k s"
  then obtain rs where rs: "list_all valid_rune rs" "s = string_of_runes rs" "length rs = k" by (auto simp: cells_def)
  have "list_all valid_rune (take n rs)" using rs(1) by (metis append_take_drop_id list_all_append)
  then show ?thesis using rs unfolding cells_def
    by (cases "n < k") (auto simp: rune_cut_def runes_of_string Let_def min_def)
qed

text \<open>The values of a session that fit their columns: all texts are valid UTF-8.\<close>

definition fits :: "nat \<Rightarrow> bytes \<Rightarrow> bool" where
  "fits n s \<longleftrightarrow> (\<exists>k \<le> n. cells k s)"

definition session_fits :: "dash_fmt \<Rightarrow> nat \<Rightarrow> obj \<Rightarrow> bool" where
  "session_fits f w s \<longleftrightarrow>
     fits 6 (show_int (jint (df_trunc f) s ''pid'')) \<and> (\<exists>n. cells n (jstr s ''short_dir'')) \<and> fits 13 (jstr s ''start_time'')
     \<and> fits 5 (df_pct f (jflt (df_of_int f) s ''cpu_percent'')) \<and> fits 7 (df_mem f (jflt (df_of_int f) s ''mem_mb''))
     \<and> fits 5 (usage_str f s) \<and> fits 10 (reset_str s)"

lemma ascii_fits: "is_ascii s \<Longrightarrow> length s \<le> n \<Longrightarrow> fits n s"
  unfolding fits_def using cells_ascii by blast

lemma fits_ljust: "fits n s \<Longrightarrow> cells n (ljust s n)"
  by (auto simp: fits_def intro: cells_ljust)

lemma fits_rjust: "fits n s \<Longrightarrow> cells n (rjust s n)"
  by (auto simp: fits_def intro: cells_rjust)

lemma cells_blank: "cells 1 '' ''"
  using cells_ascii [of "'' ''"] by (simp add: is_ascii_def)

lemma cells_cols:
  assumes "cells a1 c1" "cells a2 c2" "cells a3 c3" "cells a4 c4" "cells a5 c5" "cells a6 c6" "cells a7 c7"
  shows "cells (a1 + a2 + a3 + a4 + a5 + a6 + a7 + 8)
    ('' '' @ c1 @ '' '' @ c2 @ '' '' @ c3 @ '' '' @ c4 @ '' '' @ c5 @ '' '' @ c6 @ '' '' @ c7 @ '' '')"
proof -
  have s: "cells n x \<Longrightarrow> cells (n + 1) ('' '' @ x)" for n x using cells_append [OF cells_blank, of n x] by simp
  have "cells (a7 + 1) (c7 @ '' '')" using cells_append [OF assms(7) cells_blank] .
  from s [OF cells_append [OF assms(1) s [OF cells_append [OF assms(2) s [OF cells_append [OF assms(3)
       s [OF cells_append [OF assms(4) s [OF cells_append [OF assms(5) s [OF cells_append [OF assms(6) s [OF this]]]]]]]]]]]]]
  show ?thesis by (simp add: eval_nat_numeral add.assoc)
qed

lemma session_row_width:
  assumes "session_fits f dir_w s"
  shows "cells (dir_w + 56) (session_row f dir_w s)"
proof -
  obtain n where n: "cells n (jstr s ''short_dir'')" using assms by (auto simp: session_fits_def)
  have d: "fits dir_w (rune_cut (jstr s ''short_dir'') dir_w)"
    using cells_cut [OF n, of dir_w] unfolding fits_def by (metis min.cobounded1)
  have f: "fits 6 (show_int (jint (df_trunc f) s ''pid''))" "fits 13 (jstr s ''start_time'')"
    "fits 5 (df_pct f (jflt (df_of_int f) s ''cpu_percent''))" "fits 7 (df_mem f (jflt (df_of_int f) s ''mem_mb''))"
    "fits 5 (usage_str f s)" "fits 10 (reset_str s)"
    using assms by (simp_all add: session_fits_def)
  show ?thesis
    using cells_boxed [OF cells_cols [OF fits_ljust [OF f(1)] fits_ljust [OF d] fits_ljust [OF f(2)]
        fits_rjust [OF f(3)] fits_rjust [OF f(4)] fits_rjust [OF f(5)] fits_rjust [OF f(6)]]]
    by (simp add: session_row_def add.commute)
qed

lemma header_width: "cells (dir_w + 56) (boxed ('' '' @ ljust ''PID'' 6 @ '' '' @ ljust ''Dir'' dir_w @ '' '' @ ljust ''Started'' 13 @ '' ''
         @ rjust ''CPU%'' 5 @ '' '' @ rjust ''Mem MB'' 7 @ '' '' @ rjust ''Use%'' 5 @ '' '' @ rjust ''Resets'' 10 @ '' ''))"
  if "3 \<le> dir_w"
proof -
  have f: "fits 6 ''PID''" "fits dir_w ''Dir''" "fits 13 ''Started''" "fits 5 ''CPU%''" "fits 7 ''Mem MB''" "fits 5 ''Use%''"
    "fits 10 ''Resets''"
    using that by (auto intro: ascii_fits simp: is_ascii_def)
  show ?thesis
    using cells_boxed [OF cells_cols [OF fits_ljust [OF f(1)] fits_ljust [OF f(2)] fits_ljust [OF f(3)]
        fits_rjust [OF f(4)] fits_rjust [OF f(5)] fits_rjust [OF f(6)] fits_rjust [OF f(7)]]]
    by (simp add: add.commute)
qed

text \<open>\<open>CmdStop\<close> signals whatever number the pid file holds, unlike \<open>CmdStart\<close>, which only trusts a positive one.\<close>

lemma stop_signals_any_pid:
  "cmd_stop (\<lambda>pid. pid = -1) (Some ''-1'') = (Stopped (-1), None)" "\<not> pid_alive (\<lambda>_. True) (-1)"
proof -
  have "trim_space ''-1'' = ''-1''" by code_simp
  moreover have "atoi ''-1'' = Some (-1)" by (simp add: atoi_def parse_int_def digit_val_def is_digit_def)
  ultimately show "cmd_stop (\<lambda>pid. pid = -1) (Some ''-1'') = (Stopped (-1), None)" by (simp add: cmd_stop_def)
  show "\<not> pid_alive (\<lambda>_. True) (-1)" by (simp add: pid_alive_def)
qed

end
