(* ===== verification/RemoteSync.thy ===== *)
theory RemoteSync
  imports Tmux LimitResume AtomicFile
begin

text \<open>
  \<open>internal/cloud/agent/remotesync.go\<close>: the windows of this machine's tmux are brought in line with the sessions that
  the other machines have announced in the cloud. The lists of machines and sessions that the cloud service gives are
  arguments (\<open>None\<close> is an error), and so are the orders in which Go visits the two maps.
\<close>

section \<open>Colours and names\<close>

definition remote_palette :: "bytes list" where
  "remote_palette = [''colour39'', ''colour213'', ''colour154'', ''colour208'',
     ''colour45'', ''colour220'', ''colour171'', ''colour120'']"

text \<open>\<open>fnv.New32a\<close>.\<close>

definition fnv32a :: "bytes \<Rightarrow> 32 word" where
  "fnv32a s = foldl (\<lambda>h c. (xor h (of_nat (ord c))) * 16777619) 2166136261 s"

definition color_for :: "bytes \<Rightarrow> bytes" where
  "color_for pc = remote_palette ! (unat (fnv32a pc) mod 8)"

definition short_name :: "bytes \<Rightarrow> bytes" where
  "short_name dir =
     (let r = runes_of dir; r = (if 12 < length r then take 12 r else r)
      in [CHR 0xE2, CHR 0x86, CHR 0x97] @ string_of_runes r)"

definition attach_marker :: "bytes \<Rightarrow> bytes \<Rightarrow> bytes" where
  "attach_marker pc sid = ''cloud attach '' @ sid @ '' --pc '' @ pc"

definition sess_sid :: "obj \<Rightarrow> bytes" where
  "sess_sid s = (if status_str s ''key'' \<noteq> [] then status_str s ''key'' else status_str s ''session_id'')"

section \<open>The snapshot for the dashboard\<close>

text \<open>\<open>writeSnapshot\<close> of the encoded rows; no path means that nobody wants it.\<close>

definition write_snapshot :: "write_env \<Rightarrow> bytes \<Rightarrow> bytes \<Rightarrow> file_op list" where
  "write_snapshot w path b = (if path = [] then [] else write_and_rename w path b)"

interpretation remote_snap: atomic_writer write_snapshot
  by unfold_locales (simp add: write_snapshot_def)

section \<open>The windows there should be\<close>

record wmeta =
  wm_pc :: bytes
  wm_sid :: bytes
  wm_dir :: bytes

type_synonym desired = "(bytes \<times> wmeta) list"

definition add_desired :: "bytes \<Rightarrow> desired \<times> wmeta list \<Rightarrow> obj \<Rightarrow> desired \<times> wmeta list" where
  "add_desired pc acc s =
     (case acc of (des, snap) \<Rightarrow>
        let sid = sess_sid s in
        if sid = [] then (des, snap)
        else let d = status_str s ''short_dir'';
                 m = \<lparr>wm_pc = pc, wm_sid = sid, wm_dir = (if d = [] then sid else d)\<rparr>
             in (put_entry des (attach_marker pc sid, m), snap @ [m]))"

text \<open>\<open>None\<close>: the sessions of one machine could not be read.\<close>

fun collect :: "bytes \<Rightarrow> (bytes \<Rightarrow> obj list option) \<Rightarrow> bytes list \<Rightarrow> desired \<times> wmeta list \<Rightarrow> (desired \<times> wmeta list) option" where
  "collect self sessions [] acc = Some acc"
| "collect self sessions (pc # pcs) acc =
     (if pc = self \<or> pc = [] then collect self sessions pcs acc
      else (case sessions pc of
              None \<Rightarrow> None
            | Some ss \<Rightarrow> collect self sessions pcs (foldl (add_desired pc) acc ss)))"

section \<open>Reconciling\<close>

type_synonym marked = "(bytes \<times> bytes) list"

record 'w renv =
  rs_os :: os
  rs_tmux :: "'w tmux"
  rs_mgr :: manager
  rs_self :: bytes
  rs_cmd :: "bytes \<Rightarrow> bytes \<Rightarrow> bytes \<Rightarrow> bytes"
  rs_pcs :: "bytes list option"
  rs_sessions :: "bytes \<Rightarrow> obj list option"
  rs_order :: "desired \<Rightarrow> desired"
  rs_visit :: "marked \<Rightarrow> marked"

definition style_of :: "wmeta \<Rightarrow> bytes" where
  "style_of d = ''bg='' @ color_for (wm_pc d) @ '',fg=colour16''"

definition kill_ids :: "('w, 'z) renv_scheme \<Rightarrow> bytes list \<Rightarrow> 'w \<Rightarrow> 'w" where
  "kill_ids env ids w = foldl (\<lambda>w i. kill_window_id (rs_tmux env) (rs_mgr env) i w) w ids"

text \<open>One wanted window: none is there yet, or the first one found is kept and the others are closed.\<close>

definition reconcile_one ::
  "('w, 'z) renv_scheme \<Rightarrow> bool \<Rightarrow> marked \<times> 'w \<Rightarrow> bytes \<times> wmeta \<Rightarrow> marked \<times> 'w" where
  "reconcile_one env no_create cw md =
     (case (cw, md) of ((cur, w), (marker, d)) \<Rightarrow>
        let ids = map fst (filter (\<lambda>x. snd x = marker) (rs_visit env cur));
            cur = filter (\<lambda>x. snd x \<noteq> marker) cur
        in case ids of
             [] \<Rightarrow>
               if no_create then (cur, w)
               else (case new_marked_window (rs_os env) (rs_tmux env) (rs_mgr env) (short_name (wm_dir d))
                       (rs_cmd env (wm_pc d) (wm_sid d) (wm_dir d)) marker w of
                       (wid, w) \<Rightarrow> (cur, style_window_id (rs_tmux env) (rs_mgr env) wid (style_of d) w))
           | i # extra \<Rightarrow>
               (cur, kill_ids env extra (style_window_id (rs_tmux env) (rs_mgr env) i (style_of d) w)))"

text \<open>The sessions written for the dashboard (\<open>None\<close> when the pass is given up) and the new state of tmux.\<close>

definition reconcile_remote :: "('w, 'z) renv_scheme \<Rightarrow> 'w \<Rightarrow> wmeta list option \<times> 'w" where
  "reconcile_remote env w =
     (case list_window_markers (rs_os env) (rs_tmux env) (rs_mgr env) w of
        (None, w) \<Rightarrow> (None, w)
      | (Some cur, w) \<Rightarrow>
          (case rs_pcs env of
             None \<Rightarrow> (None, w)
           | Some pcs \<Rightarrow>
               (case collect (rs_self env) (rs_sessions env) pcs ([], []) of
                  None \<Rightarrow> (None, w)
                | Some (des, snap) \<Rightarrow>
                    (let no_create = (length des * 3 + 8 < length cur);
                         (cur, w) = foldl (reconcile_one env no_create) (cur, w) (rs_order env des);
                         w = kill_ids env (map fst (rs_visit env cur)) w;
                         (legacy, w) = legacy_markerless_ids (rs_os env) (rs_tmux env) (rs_mgr env) w
                     in (Some snap, case legacy of None \<Rightarrow> w | Some ids \<Rightarrow> kill_ids env ids w)))))"

section \<open>The coalescing trigger\<close>

text \<open>
  \<open>RunRemoteTmuxSync\<close>: a channel of capacity one; a change while a pass is already requested asks for nothing more. The
  worker takes the request, reconciles and then pauses for a second before it looks again.
\<close>

datatype sync_event = Change | Take | Pause_over

record sync_state =
  sy_pending :: bool
  sy_pausing :: bool

definition sync_start :: sync_state where
  "sync_start = \<lparr>sy_pending = True, sy_pausing = False\<rparr>"

inductive sync_step :: "sync_state \<Rightarrow> sync_event \<Rightarrow> sync_state \<Rightarrow> bool" where
  kick: "sync_step s Change (s\<lparr>sy_pending := True\<rparr>)"
| run: "sy_pending s \<Longrightarrow> \<not> sy_pausing s \<Longrightarrow> sync_step s Take \<lparr>sy_pending = False, sy_pausing = True\<rparr>"
| over: "sy_pausing s \<Longrightarrow> sync_step s Pause_over (s\<lparr>sy_pausing := False\<rparr>)"

end
