(* ===== verification/RemoteProps.thy ===== *)
theory RemoteProps
  imports RemoteSync TmuxProps "HOL-Library.Multiset"
begin

text \<open>
  The reconciliation of remote sessions with windows, on a tmux that behaves as documented: after a pass there is exactly one
  window for every remote session and none for anything else, and a pass that cannot read its inputs touches nothing.
\<close>

section \<open>What tmux does\<close>

text \<open>
  A window of the session is its id, its marker (empty when unset) and its name. \<open>wins\<close> is the list of windows of a state
  of tmux. The laws are the documented behaviour of the commands the reconciliation uses (unix build).
\<close>

type_synonym win = "bytes \<times> bytes \<times> bytes"

definition good_id :: "bytes \<Rightarrow> bool" where
  "good_id i \<longleftrightarrow> i \<noteq> [] \<and> list_all (\<lambda>c. is_digit c \<or> c = CHR ''@'') i"

definition clean :: "bytes \<Rightarrow> bool" where
  "clean s \<longleftrightarrow> CHR 0x0A \<notin> set s \<and> space_len_rev (rev s) = 0"

definition clean_mark :: "bytes \<Rightarrow> bool" where
  "clean_mark m \<longleftrightarrow> clean m \<and> (m \<noteq> [] \<longrightarrow> hd m \<noteq> CHR ''='')"

definition good_wins :: "win list \<Rightarrow> bool" where
  "good_wins ws \<longleftrightarrow> distinct (map fst ws)
     \<and> (\<forall>(i, mk, nm) \<in> set ws. good_id i \<and> clean_mark mk \<and> clean nm)"

definition lines_of :: "(win \<Rightarrow> bytes) \<Rightarrow> win list \<Rightarrow> bytes" where
  "lines_of f ws = concat (map (\<lambda>x. f x @ [CHR 0x0A]) ws)"

definition marker_text :: "win \<Rightarrow> bytes" where
  "marker_text x = (case x of (i, mk, nm) \<Rightarrow> i @ ''='' @ mk)"

definition legacy_text :: "win \<Rightarrow> bytes" where
  "legacy_text x = (case x of (i, mk, nm) \<Rightarrow> i @ ''='' @ mk @ ''='' @ nm)"

definition put_mark :: "bytes \<Rightarrow> bytes \<Rightarrow> win list \<Rightarrow> win list" where
  "put_mark i mk ws = map (\<lambda>(j, m, n). if j = i then (j, mk, n) else (j, m, n)) ws"

definition tmux_laws :: "'w tmux \<Rightarrow> bytes \<Rightarrow> ('w \<Rightarrow> win list) \<Rightarrow> bool" where
  "tmux_laws tm s wins \<longleftrightarrow> (\<forall>w. good_wins (wins w)
     \<and> fst (tm w [''list-windows'', ''-t'', s, ''-F'', ''#{window_id}=#{@cm_remote}'']) = Some (lines_of marker_text (wins w))
     \<and> wins (snd (tm w [''list-windows'', ''-t'', s, ''-F'', ''#{window_id}=#{@cm_remote}''])) = wins w
     \<and> fst (tm w [''list-windows'', ''-t'', s, ''-F'', ''#{window_id}=#{@cm_remote}=#{window_name}''])
         = Some (lines_of legacy_text (wins w))
     \<and> wins (snd (tm w [''list-windows'', ''-t'', s, ''-F'', ''#{window_id}=#{@cm_remote}=#{window_name}''])) = wins w
     \<and> (\<forall>i. good_id i \<longrightarrow> wins (snd (tm w [''kill-window'', ''-t'', s @ '':'' @ i])) = filter (\<lambda>x. fst x \<noteq> i) (wins w))
     \<and> (\<forall>i o' v. good_id i \<longrightarrow> o' \<noteq> ''@cm_remote'' \<longrightarrow> wins (snd (tm w [''set-option'', ''-w'', ''-t'', s @ '':'' @ i, o', v])) = wins w)
     \<and> (\<forall>i mk. good_id i \<longrightarrow> clean_mark mk \<longrightarrow> wins (snd (tm w [''set-option'', ''-w'', ''-t'', s @ '':'' @ i, ''@cm_remote'', mk]))
          = put_mark i mk (wins w))
     \<and> (\<forall>name cmd. clean name \<longrightarrow> (\<exists>i. good_id i \<and> i \<notin> fst ` set (wins w)
          \<and> fst (tm w [''new-window'', ''-a'', ''-t'', s, ''-n'', name, ''-P'', ''-F'', ''#{window_id}'', cmd]) = Some (i @ [CHR 0x0A])
          \<and> wins (snd (tm w [''new-window'', ''-a'', ''-t'', s, ''-n'', name, ''-P'', ''-F'', ''#{window_id}'', cmd]))
              = wins w @ [(i, [], name)])))"

section \<open>Reading the listings\<close>

lemma good_id_chars: "good_id i \<Longrightarrow> CHR ''='' \<notin> set i \<and> CHR 0x0A \<notin> set i \<and> i \<noteq> []"
  by (auto simp: good_id_def list_all_iff is_digit_def)

lemma good_id_head: "good_id i \<Longrightarrow> space_len (i @ s) = 0"
proof -
  assume g: "good_id i"
  then obtain c cs where i: "i = c # cs" "is_digit c \<or> c = CHR ''@''" by (cases i) (auto simp: good_id_def)
  then have c: "ord c < (128::nat)" "\<not> ascii_space c" "c \<noteq> CHR 0xC2"
    by (auto simp: is_digit_def ascii_space_def)
  then show ?thesis using i ascii_not_wide [of c "take 3 (c # cs @ s)"] by simp
qed

lemma space_len_rev_append:
  assumes "space_len_rev t = 0" and "ord b < (128::nat)" and "\<not> ascii_space b"
  shows "space_len_rev (t @ b # u) = 0"
proof (cases t)
  case Nil
  have "\<not> wide_space (rev (take 3 (b # u)))" using ascii_not_wide [of b] assms(2) by simp
  moreover have "b \<noteq> CHR 0x85" "b \<noteq> CHR 0xA0" using assms(2) by auto
  ultimately show ?thesis using assms(3) Nil by simp
next
  case (Cons a t1)
  have a: "\<not> ascii_space a" "\<not> (t1 \<noteq> [] \<and> hd t1 = CHR 0xC2 \<and> (a = CHR 0x85 \<or> a = CHR 0xA0))"
    "\<not> wide_space (rev (take 3 (a # t1)))"
    using assms(1) by (auto simp: Cons split: if_splits)
  have "\<not> (t1 @ b # u \<noteq> [] \<and> hd (t1 @ b # u) = CHR 0xC2 \<and> (a = CHR 0x85 \<or> a = CHR 0xA0))"
    using a(2) assms(2) by (cases t1) auto
  moreover have "\<not> wide_space (rev (take 3 (a # t1 @ b # u)))"
  proof (cases "2 \<le> length t1")
    case True
    then show ?thesis using a(3) by simp
  next
    case False
    then have "b \<in> set (take 3 (a # t1 @ b # u))" by (cases t1; cases "tl t1") auto
    then have "b \<in> set (rev (take 3 (a # t1 @ b # u)))" by (simp only: set_rev)
    then show ?thesis using ascii_not_wide assms(2) by blast
  qed
  ultimately show ?thesis using a(1) by (simp add: Cons)
qed

lemma clean_append: "clean m \<Longrightarrow> space_len_rev (rev (p @ CHR ''='' # m)) = 0"
  using space_len_rev_append [of "rev m" "CHR ''=''" "rev p"] by (simp add: clean_def ascii_space_def)

lemma trim_listing: "space_len_rev (rev s) = 0 \<Longrightarrow> space_len s = 0 \<Longrightarrow> trim_space (s @ [CHR 0x0A]) = s"
  by (simp add: trim_space_def trim_right_rev.simps [of "CHR 0x0A # rev s"] trim_right_rev.simps [of "rev s"]
      ascii_space_def trim_left_id)

lemma lines_join: "ws \<noteq> [] \<Longrightarrow> lines_of f ws = join [CHR 0x0A] (map f ws) @ [CHR 0x0A]"
proof (induction ws)
  case (Cons x ws)
  then show ?case by (cases "ws = []") (auto simp: lines_of_def join_Cons simp del: split_paired_All)
qed simp

lemma space_len_rev_join:
  assumes "ws \<noteq> []" and "\<And>x. x \<in> set ws \<Longrightarrow> \<exists>a b. f x = a @ CHR ''='' # b \<and> clean b"
  shows "space_len_rev (rev (join [CHR 0x0A] (map f ws))) = 0"
proof -
  obtain a b where l: "f (last ws) = a @ CHR ''='' # b" "clean b" using assms last_in_set by meson
  have "\<exists>p. join [CHR 0x0A] (map f ws) = p @ f (last ws)"
    using assms(1)
  proof (induction ws)
    case (Cons x ws)
    then show ?case by (cases "ws = []") (auto simp: join_Cons)
  qed simp
  then obtain p where "join [CHR 0x0A] (map f ws) = (p @ a) @ CHR ''='' # b" using l by auto
  then show ?thesis using clean_append [OF l(2)] by metis
qed

lemma space_len_join:
  assumes "ws \<noteq> []" and "\<And>x. x \<in> set ws \<Longrightarrow> \<exists>a b. f x = a @ CHR ''='' # b \<and> good_id a"
  shows "space_len (join [CHR 0x0A] (map f ws)) = 0"
proof -
  obtain x xs where w: "ws = x # xs" using assms(1) by (cases ws) auto
  obtain a b where f: "f x = a @ CHR ''='' # b" "good_id a" using assms(2) [of x] w by auto
  have "\<exists>r. join [CHR 0x0A] (map f ws) = a @ r" using f by (cases xs) (auto simp: w)
  then show ?thesis using good_id_head [OF f(2)] by auto
qed

lemma listing_lines:
  assumes "ws \<noteq> []"
    and f: "\<And>x. x \<in> set ws \<Longrightarrow> \<exists>a b. f x = a @ CHR ''='' # b \<and> good_id a \<and> clean b"
  shows "split_on (CHR 0x0A) (trim_space (lines_of f ws)) = map f ws" "trim_space (lines_of f ws) \<noteq> []"
proof -
  have nl: "CHR 0x0A \<notin> set (f x)" if "x \<in> set ws" for x
    using f [OF that] good_id_chars by (auto simp: clean_def)
  have r: "space_len_rev (rev (join [CHR 0x0A] (map f ws))) = 0"
    by (rule space_len_rev_join [OF assms(1)]) (use f in blast)
  have l: "space_len (join [CHR 0x0A] (map f ws)) = 0"
    by (rule space_len_join [OF assms(1)]) (use f in blast)
  have t: "trim_space (lines_of f ws) = join [CHR 0x0A] (map f ws)"
    unfolding lines_join [OF assms(1)] by (rule trim_listing [OF r l])
  show "split_on (CHR 0x0A) (trim_space (lines_of f ws)) = map f ws"
    unfolding t by (rule split_on_join) (use assms(1) nl in auto)
  obtain x xs where w: "ws = x # xs" using assms(1) by (cases ws) auto
  obtain a b where "f x = a @ CHR ''='' # b" using f [of x] w by auto
  then show "trim_space (lines_of f ws) \<noteq> []" unfolding t by (cases xs) (auto simp: w)
qed

definition marked_of :: "win list \<Rightarrow> marked" where
  "marked_of ws = map (\<lambda>x. (fst x, fst (snd x))) (filter (\<lambda>x. fst (snd x) \<noteq> []) ws)"

lemma marker_line_text:
  assumes "good_id i"
  shows "marker_line Unix (marker_text (i, m, n)) = (if m \<noteq> [] then Some (i, m) else None)"
proof -
  have "CHR ''='' \<notin> set i" "i \<noteq> []" using good_id_chars [OF assms] by auto
  then show ?thesis by (simp add: marker_line_def marker_text_def Let_def)
qed

lemma foldl_put_distinct:
  "distinct (map fst (es @ xs)) \<Longrightarrow> foldl put_entry es xs = es @ xs"
proof (induction xs arbitrary: es)
  case (Cons x xs)
  have "fst x \<notin> fst ` set es" using Cons.prems by simp
  then have "filter (\<lambda>y. fst y \<noteq> fst x) es = es" by (intro filter_True) (metis image_eqI)
  then have "put_entry es x = es @ [x]" by (simp add: put_entry_def)
  then show ?case using Cons.IH [of "es @ [x]"] Cons.prems by simp
qed simp

lemma distinct_marked: "distinct (map fst ws) \<Longrightarrow> distinct (map fst (marked_of ws))"
  by (simp add: marked_of_def comp_def distinct_map_filter)

lemma good_winsD: "good_wins ws \<Longrightarrow> x \<in> set ws \<Longrightarrow> good_id (fst x) \<and> clean (fst (snd x)) \<and> clean (snd (snd x))
    \<and> (fst (snd x) \<noteq> [] \<longrightarrow> hd (fst (snd x)) \<noteq> CHR ''='')"
  by (auto simp: good_wins_def clean_mark_def)

lemma marker_text_form: "marker_text x = fst x @ CHR ''='' # fst (snd x)"
  by (cases x) (simp add: marker_text_def)

lemma markers_of_listing:
  assumes "good_wins ws"
  shows "markers_of Unix (trim_space (lines_of marker_text ws)) = marked_of ws"
proof (cases "ws = []")
  case True
  have "trim_space [] = []" by code_simp
  then show ?thesis using True by (simp add: lines_of_def markers_of_def marked_of_def)
next
  case False
  note g = good_winsD [OF assms]
  have s: "split_on (CHR 0x0A) (trim_space (lines_of marker_text ws)) = map marker_text ws"
    "trim_space (lines_of marker_text ws) \<noteq> []"
    using listing_lines [OF False, of marker_text] g marker_text_form by blast+
  have "marker_line Unix (marker_text x) = (if fst (snd x) \<noteq> [] then Some (fst x, fst (snd x)) else None)"
    if "x \<in> set ws" for x using marker_line_text [of "fst x" "fst (snd x)" "snd (snd x)"] g [OF that] by simp
  then have "List.map_filter (marker_line Unix) (map marker_text ws) = marked_of ws"
    by (induction ws) (auto simp: List.map_filter_def marked_of_def)
  moreover have "distinct (map fst (marked_of ws))" using assms distinct_marked by (simp add: good_wins_def)
  ultimately show ?thesis using s foldl_put_distinct [of "[]" "marked_of ws"] by (simp add: markers_of_def)
qed

lemma legacy_ids:
  assumes "good_wins ws" and "i \<in> set (List.map_filter legacy_line (split_on (CHR 0x0A) (trim_space (lines_of legacy_text ws))))"
  shows "good_id i \<and> (\<exists>n. (i, [], n) \<in> set ws \<and> has_prefix n [CHR 0xE2, CHR 0x86, CHR 0x97])"
proof (cases "ws = []")
  case True
  have "List.map_filter legacy_line (split_on (CHR 0x0A) (trim_space [])) = []" by code_simp
  then show ?thesis using assms(2) True by (simp add: lines_of_def)
next
  case False
  note g = good_winsD [OF assms(1)]
  have "\<exists>a b. legacy_text x = a @ CHR ''='' # b \<and> good_id a \<and> clean b" if "x \<in> set ws" for x
  proof (intro exI conjI)
    show "legacy_text x = fst x @ CHR ''='' # (fst (snd x) @ CHR ''='' # snd (snd x))" by (cases x) (simp add: legacy_text_def)
    show "good_id (fst x)" using g [OF that] by blast
    show "clean (fst (snd x) @ CHR ''='' # snd (snd x))"
      using g [OF that] clean_append [of "snd (snd x)" "fst (snd x)"] by (simp add: clean_def)
  qed
  then have s: "split_on (CHR 0x0A) (trim_space (lines_of legacy_text ws)) = map legacy_text ws"
    using listing_lines [OF False, of legacy_text] by blast
  then obtain x where x: "x \<in> set ws" "legacy_line (legacy_text x) = Some i"
    using assms(2) by (auto simp: List.map_filter_def)
  obtain a m n where e: "x = (a, m, n)" by (cases x)
  have a: "CHR ''='' \<notin> set a" "good_id a" and m: "m \<noteq> [] \<longrightarrow> hd m \<noteq> CHR ''=''"
    using g [OF x(1)] good_id_chars by (auto simp: e)
  have sp: "split_n (CHR ''='') 3 (a @ CHR ''='' # m @ CHR ''='' # n)
      = a # split_n (CHR ''='') 2 (m @ CHR ''='' # n)"
    using a by (simp add: eval_nat_numeral)
  have "m = []"
  proof (rule ccontr)
    assume "m \<noteq> []"
    then obtain c m1 where c: "m = c # m1" "c \<noteq> CHR ''=''" using m by (cases m) auto
    obtain k where k: "index_byte (m @ CHR ''='' # n) (CHR ''='') = Some k"
      by (cases "index_byte (m @ CHR ''='' # n) (CHR ''='')") auto
    then have "k \<noteq> 0" using c by (auto split: if_splits)
    then have "split_n (CHR ''='') 2 (m @ CHR ''='' # n) \<noteq> [] \<and> hd (split_n (CHR ''='') 2 (m @ CHR ''='' # n)) \<noteq> []"
      using k c by (cases k) (auto simp: eval_nat_numeral)
    then show False using x(2) sp by (auto simp: e legacy_line_def legacy_text_def Let_def hd_conv_nth split: if_splits)
  qed
  moreover have "i = a" using x(2) sp by (auto simp: e legacy_line_def legacy_text_def Let_def split: if_splits)
  moreover have "split_n (CHR ''='') 3 (a @ CHR ''='' # CHR ''='' # n) = [a, [], n]"
    using a by (simp add: eval_nat_numeral)
  ultimately show ?thesis using a x
    by (auto simp: e legacy_line_def legacy_text_def Let_def split: if_splits)
qed

section \<open>The commands of a pass\<close>

definition lawful :: "('w, 'z) renv_scheme \<Rightarrow> ('w \<Rightarrow> win list) \<Rightarrow> bool" where
  "lawful env wins \<longleftrightarrow> rs_os env = Unix \<and> tmux_laws (rs_tmux env) (mg_session (rs_mgr env)) wins"

definition marks :: "('w \<Rightarrow> win list) \<Rightarrow> 'w \<Rightarrow> (bytes \<times> bytes) set" where
  "marks wins w = set (marked_of (wins w))"

definition unmarked :: "('w \<Rightarrow> win list) \<Rightarrow> 'w \<Rightarrow> win set" where
  "unmarked wins w = {x \<in> set (wins w). fst (snd x) = []}"

lemma marks_iff: "(i, mk) \<in> marks wins w \<longleftrightarrow> mk \<noteq> [] \<and> (\<exists>n. (i, mk, n) \<in> set (wins w))"
  by (force simp: marks_def marked_of_def)

lemma snd_out: "snd (tm_out tm args w) = snd (tm w args)" "snd (out_err tm args w) = snd (tm w args)"
  by (simp_all add: tm_out_def out_err_def split: prod.split)

lemma good_id_tail: "good_id i \<Longrightarrow> space_len_rev (rev i) = 0"
proof -
  assume "good_id i"
  then obtain p c where "i = p @ [c]" "is_digit c \<or> c = CHR ''@''"
    by (cases i rule: rev_cases) (auto simp: good_id_def)
  then show ?thesis using space_len_rev_append [of "[]" c "rev p"] by (auto simp: is_digit_def ascii_space_def)
qed

lemma wins_kill:
  "lawful env wins \<Longrightarrow> good_id i \<Longrightarrow> wins (kill_window_id (rs_tmux env) (rs_mgr env) i w) = filter (\<lambda>x. fst x \<noteq> i) (wins w)"
  using good_id_chars [of i] by (simp add: lawful_def tmux_laws_def kill_window_id_def target_def snd_out)

lemma wins_kills:
  "lawful env wins \<Longrightarrow> list_all good_id ids \<Longrightarrow> wins (kill_ids env ids w) = filter (\<lambda>x. fst x \<notin> set ids) (wins w)"
proof (induction ids arbitrary: w)
  case (Cons i ids)
  have "kill_ids env (i # ids) w = kill_ids env ids (kill_window_id (rs_tmux env) (rs_mgr env) i w)"
    by (simp add: kill_ids_def)
  then show ?case using Cons by (simp add: wins_kill conj_commute)
qed (simp add: kill_ids_def)

lemma wins_style:
  "lawful env wins \<Longrightarrow> good_id i \<Longrightarrow> wins (style_window_id (rs_tmux env) (rs_mgr env) i st w) = wins w"
  by (simp add: lawful_def tmux_laws_def style_window_id_def style_target_def target_def snd_out)

lemma wins_new:
  assumes "lawful env wins" and "clean name" and "clean_mark mk"
  shows "\<exists>i. good_id i \<and> i \<notin> fst ` set (wins w)
    \<and> fst (new_marked_window (rs_os env) (rs_tmux env) (rs_mgr env) name cmd mk w) = i
    \<and> wins (snd (new_marked_window (rs_os env) (rs_tmux env) (rs_mgr env) name cmd mk w)) = wins w @ [(i, mk, name)]"
proof -
  let ?tm = "rs_tmux env" let ?s = "mg_session (rs_mgr env)"
  let ?args = "[''new-window'', ''-a'', ''-t'', ?s, ''-n'', name, ''-P'', ''-F'', ''#{window_id}'', cmd]"
  have os: "rs_os env = Unix" and l: "tmux_laws ?tm ?s wins" using assms(1) by (simp_all add: lawful_def)
  obtain i where i: "good_id i" "i \<notin> fst ` set (wins w)" "fst (?tm w ?args) = Some (i @ [CHR 0x0A])"
      "wins (snd (?tm w ?args)) = wins w @ [(i, [], name)]"
    using l assms(2) unfolding tmux_laws_def by blast
  have out: "tm_out ?tm ?args w = (i, snd (?tm w ?args))"
    using i(1,3) trim_listing [OF good_id_tail good_id_head [of i "[]"]]
    by (cases "?tm w ?args") (simp add: tm_out_def out_err_def)
  have p: "put_mark i mk (wins w @ [(i, [], name)]) = wins w @ [(i, mk, name)]"
  proof -
    have "map (\<lambda>(j, m, n). if j = i then (j, mk, n) else (j, m, n)) (wins w) = wins w"
      using i(2) by (intro map_idI) (force split: prod.split)
    then show ?thesis by (simp add: put_mark_def)
  qed
  have set_mark: "wins (snd (?tm w1 [''set-option'', ''-w'', ''-t'', ?s @ CHR '':'' # i, ''@cm_remote'', mk])) = put_mark i mk (wins w1)"
    and set_opt: "wins (snd (?tm w1 [''set-option'', ''-w'', ''-t'', ?s @ CHR '':'' # i, ''automatic-rename'', ''off''])) = wins w1" for w1
    using l i(1) assms(3) unfolding tmux_laws_def by simp_all
  show ?thesis
    using i(1,2,4) out p os good_id_chars [OF i(1)]
    by (intro exI [of _ i]) (simp add: new_marked_window_def initial_name_def mark_window_def target_def snd_out set_mark set_opt Let_def)
qed

lemma marks_filter: "wins w' = filter (\<lambda>x. fst x \<notin> S) (wins w) \<Longrightarrow> marks wins w' = {x \<in> marks wins w. fst x \<notin> S}"
  by (auto simp: marks_iff)

lemma marks_append: "mk \<noteq> [] \<Longrightarrow> wins w' = wins w @ [(i, mk, n)] \<Longrightarrow> marks wins w' = insert (i, mk) (marks wins w)"
  by (auto simp: marks_iff)

section \<open>A pass\<close>

definition ids_of :: "('w \<Rightarrow> win list) \<Rightarrow> bytes \<Rightarrow> 'w \<Rightarrow> bytes set" where
  "ids_of wins mk w = {i. (i, mk) \<in> marks wins w}"

text \<open>Between two wanted windows: \<open>done\<close> are the markers already dealt with, \<open>cur\<close> the windows not yet claimed.\<close>

definition pass_inv :: "('w \<Rightarrow> win list) \<Rightarrow> bytes set \<Rightarrow> marked \<times> 'w \<Rightarrow> bool" where
  "pass_inv wins done_marks cw \<longleftrightarrow> (case cw of (cur, w) \<Rightarrow> distinct (map fst cur) \<and>
     (\<forall>i mk. (i, mk) \<in> set cur \<longleftrightarrow> mk \<notin> done_marks \<and> (i, mk) \<in> marks wins w))"

definition visits :: "('w, 'z) renv_scheme \<Rightarrow> bool" where
  "visits env \<longleftrightarrow> (\<forall>xs. mset (rs_visit env xs) = mset xs) \<and> (\<forall>xs. mset (rs_order env xs) = mset xs)"

lemma visits_set: "visits env \<Longrightarrow> set (rs_visit env xs) = set xs" "visits env \<Longrightarrow> set (rs_order env ys) = set ys"
  unfolding visits_def by (metis set_mset_mset)+

lemma lawful_good: "lawful env wins \<Longrightarrow> good_wins (wins w)"
  by (simp add: lawful_def tmux_laws_def)

lemma marks_unique:
  assumes "lawful env wins" and "(i, mk) \<in> marks wins w" and "(i, mk') \<in> marks wins w"
  shows "mk = mk'"
proof -
  have "distinct (map fst (wins w))" using lawful_good [OF assms(1)] by (simp add: good_wins_def)
  then show ?thesis using assms(2,3) by (auto simp: marks_iff dest: eq_key_imp_eq_value)
qed

lemma marks_good: "lawful env wins \<Longrightarrow> (i, mk) \<in> marks wins w \<Longrightarrow> good_id i"
  using good_winsD [OF lawful_good] by (fastforce simp: marks_iff)

lemma unmarked_filter:
  assumes "lawful env wins" and "S \<subseteq> fst ` marks wins w" and "wins w' = filter (\<lambda>x. fst x \<notin> S) (wins w)"
  shows "unmarked wins w' = unmarked wins w"
proof -
  have d: "distinct (map fst (wins w))" using lawful_good [OF assms(1)] by (simp add: good_wins_def)
  have "i \<notin> S" if "(i, [], n) \<in> set (wins w)" for i n
  proof
    assume "i \<in> S"
    then obtain mk where "(i, mk) \<in> marks wins w" using assms(2) by auto
    then show False using that d by (auto simp: marks_iff dest: eq_key_imp_eq_value)
  qed
  then show ?thesis unfolding unmarked_def assms(3) by auto
qed

text \<open>What one desired window does to the marks: \<open>one_done nc mk w w'\<close>.\<close>

definition one_done :: "('w \<Rightarrow> win list) \<Rightarrow> bool \<Rightarrow> bytes \<Rightarrow> 'w \<Rightarrow> 'w \<Rightarrow> bool" where
  "one_done wins nc mk w w' \<longleftrightarrow>
     (\<forall>i mk'. mk' \<noteq> mk \<longrightarrow> ((i, mk') \<in> marks wins w' \<longleftrightarrow> (i, mk') \<in> marks wins w))
     \<and> card (ids_of wins mk w') = (if nc \<and> ids_of wins mk w = {} then 0 else 1) \<and> unmarked wins w' = unmarked wins w"

lemma one_created:
  assumes l: "lawful env wins" and mk: "mk \<noteq> []" "clean_mark mk" and nm: "clean (short_name (wm_dir d))" and e: "ids_of wins mk w = {}"
    and n: "new_marked_window (rs_os env) (rs_tmux env) (rs_mgr env) (short_name (wm_dir d)) cmd mk w = (i, w1)"
  shows "one_done wins False mk w (style_window_id (rs_tmux env) (rs_mgr env) i (style_of d) w1)"
proof -
  let ?w = "style_window_id (rs_tmux env) (rs_mgr env) i (style_of d) w1"
  have i: "good_id i" "i \<notin> fst ` set (wins w)" "wins w1 = wins w @ [(i, mk, short_name (wm_dir d))]"
    using wins_new [OF l nm mk(2), of w cmd] n by auto
  have w': "wins ?w = wins w @ [(i, mk, short_name (wm_dir d))]" using wins_style [OF l i(1)] i(3) by simp
  have m: "marks wins ?w = insert (i, mk) (marks wins w)" by (rule marks_append [OF mk(1)]) (rule w')
  have "ids_of wins mk ?w = {i}" using e by (auto simp: ids_of_def m)
  moreover have "unmarked wins ?w = unmarked wins w" using mk(1) by (auto simp: unmarked_def w')
  ultimately show ?thesis using m by (auto simp: one_done_def)
qed

lemma one_kept:
  assumes l: "lawful env wins" and ids: "set (i # extra) = ids_of wins mk w" "distinct (i # extra)"
  shows "one_done wins nc mk w (kill_ids env extra (style_window_id (rs_tmux env) (rs_mgr env) i st w))"
proof -
  let ?w = "kill_ids env extra (style_window_id (rs_tmux env) (rs_mgr env) i st w)"
  have g: "good_id j" if "j \<in> set (i # extra)" for j
    using that marks_good [OF l] unfolding ids(1) by (auto simp: ids_of_def)
  have f: "wins ?w = filter (\<lambda>x. fst x \<notin> set extra) (wins w)"
    using wins_kills [OF l, of extra] wins_style [OF l, of i] g by (simp add: list_all_iff)
  have m: "marks wins ?w = {x \<in> marks wins w. fst x \<notin> set extra}" using marks_filter [where wins = wins, OF f] .
  have ex: "set extra \<subseteq> ids_of wins mk w" using ids(1) by auto
  have "ids_of wins mk ?w = {i}" using ids by (auto simp: ids_of_def m)
  moreover have "(i, mk') \<in> marks wins ?w \<longleftrightarrow> (i, mk') \<in> marks wins w" if "mk' \<noteq> mk" for i mk'
    using that ex marks_unique [OF l] by (auto simp: m ids_of_def)
  moreover have "unmarked wins ?w = unmarked wins w"
    using unmarked_filter [OF l _ f] ex by (force simp: ids_of_def)
  moreover have "ids_of wins mk w \<noteq> {}" using ids by auto
  ultimately show ?thesis by (auto simp: one_done_def)
qed

lemma reconcile_one_done:
  assumes l: "lawful env wins" and v: "visits env" and inv: "pass_inv wins D (cur, w)" and mk: "mk \<notin> D" "mk \<noteq> []" "clean_mark mk"
    and nm: "clean (short_name (wm_dir d))"
    and r: "reconcile_one env nc (cur, w) (mk, d) = (cur', w')"
  shows "one_done wins nc mk w w'"
proof -
  let ?ids = "map fst (filter (\<lambda>x. snd x = mk) (rs_visit env cur))"
  have ids: "set ?ids = ids_of wins mk w"
    using inv mk(1) by (force simp: visits_set(1) [OF v] pass_inv_def ids_of_def image_iff)
  have "mset (map fst (rs_visit env cur)) = mset (map fst cur)" using v by (simp add: visits_def)
  moreover have "distinct (map fst cur)" using inv by (simp add: pass_inv_def)
  ultimately have dis: "distinct ?ids" using mset_eq_imp_distinct_iff distinct_map_filter by blast
  show ?thesis
  proof (cases ?ids)
    case Nil
    then have e: "ids_of wins mk w = {}" using ids by simp
    show ?thesis
    proof (cases nc)
      case True
      then have "w' = w" using r Nil by (auto simp: reconcile_one_def Let_def)
      then show ?thesis using e True by (simp add: one_done_def)
    next
      case False
      obtain i w1 where n: "new_marked_window (rs_os env) (rs_tmux env) (rs_mgr env) (short_name (wm_dir d))
          (rs_cmd env (wm_pc d) (wm_sid d) (wm_dir d)) mk w = (i, w1)" by fastforce
      show ?thesis using one_created [OF l mk(2,3) nm e n] r Nil False n by (auto simp: reconcile_one_def Let_def)
    qed
  next
    case (Cons i extra)
    show ?thesis using one_kept [OF l, of i extra mk w nc "style_of d"] ids dis r Cons
      by (auto simp: reconcile_one_def Let_def)
  qed
qed

lemma reconcile_one_step:
  assumes "lawful env wins" "visits env" and inv: "pass_inv wins D (cur, w)" and "mk \<notin> D" "mk \<noteq> []" "clean_mark mk"
    and "clean (short_name (wm_dir d))"
    and r: "reconcile_one env nc (cur, w) (mk, d) = (cur', w')"
  shows "pass_inv wins (insert mk D) (cur', w')"
    and "card (ids_of wins mk w') = (if nc \<and> ids_of wins mk w = {} then 0 else 1)"
    and "\<And>mk'. mk' \<noteq> mk \<Longrightarrow> ids_of wins mk' w' = ids_of wins mk' w"
    and "unmarked wins w' = unmarked wins w"
proof -
  have c': "cur' = filter (\<lambda>x. snd x \<noteq> mk) cur"
    using r by (auto simp: reconcile_one_def Let_def split: list.splits if_splits prod.splits)
  show "pass_inv wins (insert mk D) (cur', w')"
      "card (ids_of wins mk w') = (if nc \<and> ids_of wins mk w = {} then 0 else 1)"
      "\<And>mk'. mk' \<noteq> mk \<Longrightarrow> ids_of wins mk' w' = ids_of wins mk' w"
      "unmarked wins w' = unmarked wins w"
    using reconcile_one_done [OF assms] inv by (auto simp: one_done_def pass_inv_def c' ids_of_def distinct_map_filter)
qed

lemma reconcile_fold:
  assumes l: "lawful env wins" and v: "visits env" and inv: "pass_inv wins D (cur, w)"
    and d: "distinct (map fst ds)" "fst ` set ds \<inter> D = {}"
    and c: "\<forall>(mk, m) \<in> set ds. mk \<noteq> [] \<and> clean_mark mk \<and> clean (short_name (wm_dir m))"
    and r: "foldl (reconcile_one env nc) (cur, w) ds = (cur', w')"
  shows "pass_inv wins (D \<union> fst ` set ds) (cur', w')
    \<and> (\<forall>mk \<in> fst ` set ds. card (ids_of wins mk w') = (if nc \<and> ids_of wins mk w = {} then 0 else 1))
    \<and> (\<forall>mk. mk \<notin> fst ` set ds \<longrightarrow> ids_of wins mk w' = ids_of wins mk w)
    \<and> unmarked wins w' = unmarked wins w"
  using inv d c r
proof (induction ds arbitrary: D cur w)
  case (Cons x ds)
  obtain mk m where x: "x = (mk, m)" by (cases x)
  obtain cur1 w1 where s: "reconcile_one env nc (cur, w) (mk, m) = (cur1, w1)" by fastforce
  have a: "mk \<notin> D" "mk \<noteq> []" "clean_mark mk" "clean (short_name (wm_dir m))" using Cons.prems x by auto
  note one = reconcile_one_step [OF l v Cons.prems(1) a s]
  have "foldl (reconcile_one env nc) (cur1, w1) ds = (cur', w')" using Cons.prems(5) s x by simp
  then have ih: "pass_inv wins (insert mk D \<union> fst ` set ds) (cur', w')
    \<and> (\<forall>k \<in> fst ` set ds. card (ids_of wins k w') = (if nc \<and> ids_of wins k w1 = {} then 0 else 1))
    \<and> (\<forall>k. k \<notin> fst ` set ds \<longrightarrow> ids_of wins k w' = ids_of wins k w1)
    \<and> unmarked wins w' = unmarked wins w1"
    using Cons.prems(2-4) x by (intro Cons.IH [OF one(1)]) auto
  have mk: "mk \<notin> fst ` set ds" using Cons.prems(2) x by simp
  have "card (ids_of wins k w') = (if nc \<and> ids_of wins k w = {} then 0 else 1)" if "k \<in> fst ` set (x # ds)" for k
  proof (cases "k = mk")
    case True
    then show ?thesis using ih mk one(2) by simp
  next
    case False
    then have "k \<in> fst ` set ds" using that x by auto
    with ih have "card (ids_of wins k w') = (if nc \<and> ids_of wins k w1 = {} then 0 else 1)" by blast
    then show ?thesis using one(3) [OF False] by simp
  qed
  moreover have "ids_of wins k w' = ids_of wins k w" if "k \<notin> fst ` set (x # ds)" for k
    using that ih one(3) x by auto
  ultimately show ?case using ih one(4) x by simp
qed simp

lemma collect_inv:
  assumes step: "\<And>pc acc s. Q (fst acc) \<Longrightarrow> Q (fst (add_desired pc acc s))"
    and "Q (fst acc)" and "collect self ss pcs acc = Some (des, snap)"
  shows "Q des"
  using assms(2,3)
proof (induction pcs arbitrary: acc)
  case (Cons pc pcs)
  have f: "Q (fst acc) \<Longrightarrow> Q (fst (foldl (add_desired pc) acc xs))" for xs acc
  proof (induction xs arbitrary: acc)
    case (Cons x xs)
    then show ?case using step [OF Cons.prems, of pc x] by (simp del: split_paired_All)
  qed simp
  show ?case
  proof (cases "pc = self \<or> pc = []")
    case True
    then show ?thesis using Cons.prems Cons.IH by simp
  next
    case False
    then obtain xs where "collect self ss pcs (foldl (add_desired pc) acc xs) = Some (des, snap)"
      using Cons.prems(2) by (auto split: option.splits)
    then show ?thesis using Cons.IH f [OF Cons.prems(1)] by blast
  qed
qed auto

lemma collect_distinct: "collect self ss pcs ([], []) = Some (des, snap) \<Longrightarrow> distinct (map fst des)"
  by (rule collect_inv [where Q = "\<lambda>d. distinct (map fst d)" and acc = "([], [])"])
     (auto simp: add_desired_def Let_def split: prod.splits)

lemma collect_markers: "collect self ss pcs ([], []) = Some (des, snap) \<Longrightarrow> \<forall>mk \<in> fst ` set des. mk \<noteq> [] \<and> hd mk = CHR ''c''"
  by (rule collect_inv [where Q = "\<lambda>d. \<forall>mk \<in> fst ` set d. mk \<noteq> [] \<and> hd mk = CHR ''c''" and acc = "([], [])"])
     (auto simp: add_desired_def attach_marker_def Let_def split: prod.splits)

lemma markers_listed:
  assumes "lawful env wins"
  shows "\<exists>w1. list_window_markers (rs_os env) (rs_tmux env) (rs_mgr env) w = (Some (marked_of (wins w)), w1)
    \<and> wins w1 = wins w"
proof -
  let ?args = "[''list-windows'', ''-t'', mg_session (rs_mgr env), ''-F'', ''#{window_id}=#{@cm_remote}'']"
  have os: "rs_os env = Unix" and l: "tmux_laws (rs_tmux env) (mg_session (rs_mgr env)) wins"
    using assms by (simp_all add: lawful_def)
  have t: "fst (rs_tmux env w ?args) = Some (lines_of marker_text (wins w))" "wins (snd (rs_tmux env w ?args)) = wins w"
    using l unfolding tmux_laws_def by blast+
  show ?thesis using t os markers_of_listing [OF lawful_good [OF assms, of w]]
    by (cases "rs_tmux env w ?args") (simp add: list_window_markers_def marker_format_def out_err_def)
qed

lemma legacy_listed:
  assumes "lawful env wins"
  shows "\<exists>ids w1. legacy_markerless_ids (rs_os env) (rs_tmux env) (rs_mgr env) w = (Some ids, w1) \<and> wins w1 = wins w
    \<and> (\<forall>i \<in> set ids. good_id i \<and> (\<exists>n. (i, [], n) \<in> unmarked wins w \<and> has_prefix n [CHR 0xE2, CHR 0x86, CHR 0x97]))"
proof -
  let ?args = "[''list-windows'', ''-t'', mg_session (rs_mgr env), ''-F'', ''#{window_id}=#{@cm_remote}=#{window_name}'']"
  have os: "rs_os env = Unix" and l: "tmux_laws (rs_tmux env) (mg_session (rs_mgr env)) wins"
    using assms by (simp_all add: lawful_def)
  have t: "fst (rs_tmux env w ?args) = Some (lines_of legacy_text (wins w))" "wins (snd (rs_tmux env w ?args)) = wins w"
    using l unfolding tmux_laws_def by blast+
  show ?thesis using t os legacy_ids [OF lawful_good [OF assms, of w]]
    by (cases "rs_tmux env w ?args") (auto simp: legacy_markerless_ids_def out_err_def unmarked_def)
qed

text \<open>The windows after a pass, given the markers wanted and the windows before.\<close>

definition synced :: "('w \<Rightarrow> win list) \<Rightarrow> bytes set \<Rightarrow> bool \<Rightarrow> 'w \<Rightarrow> 'w \<Rightarrow> bool" where
  "synced wins want nc w w' \<longleftrightarrow>
     (\<forall>mk. card (ids_of wins mk w') = (if mk \<in> want \<and> \<not> (nc \<and> ids_of wins mk w = {}) then 1 else 0))
     \<and> (\<forall>x \<in> unmarked wins w. \<not> has_prefix (snd (snd x)) [CHR 0xE2, CHR 0x86, CHR 0x97] \<longrightarrow> x \<in> unmarked wins w')"

text \<open>Killing the windows that are left over keeps exactly the marks of \<open>M\<close>, and every unmarked window.\<close>

lemma rest_killed:
  assumes l: "lawful env wins" and v: "visits env" and k: "\<And>i mk. (i, mk) \<in> set cur \<longleftrightarrow> mk \<notin> M \<and> (i, mk) \<in> marks wins w"
  shows "marks wins (kill_ids env (map fst (rs_visit env cur)) w) = {x \<in> marks wins w. snd x \<in> M}"
    and "unmarked wins (kill_ids env (map fst (rs_visit env cur)) w) = unmarked wins w"
proof -
  have ks: "set (map fst (rs_visit env cur)) = fst ` set cur" by (simp add: visits_set(1) [OF v])
  have g: "list_all good_id (map fst (rs_visit env cur))"
    using k marks_good [OF l] by (auto simp: list_all_iff visits_set(1) [OF v])
  have f: "wins (kill_ids env (map fst (rs_visit env cur)) w) = filter (\<lambda>x. fst x \<notin> fst ` set cur) (wins w)"
    using wins_kills [OF l g, of w] unfolding ks .
  have mu: "i \<notin> fst ` set cur \<longleftrightarrow> mk \<in> M" if "(i, mk) \<in> marks wins w" for i mk
  proof
    assume "i \<notin> fst ` set cur"
    then have "(i, mk) \<notin> set cur" by force
    then show "mk \<in> M" using that k by blast
  next
    assume mk: "mk \<in> M"
    show "i \<notin> fst ` set cur"
    proof
      assume "i \<in> fst ` set cur"
      then obtain mk' where "(i, mk') \<in> set cur" by force
      then have "mk' \<notin> M" "(i, mk') \<in> marks wins w" using k by blast+
      then show False using mk marks_unique [OF l that] by blast
    qed
  qed
  have "{x \<in> marks wins w. fst x \<notin> fst ` set cur} = {x \<in> marks wins w. snd x \<in> M}"
    by (rule Collect_cong) (metis mu prod.collapse)
  then show "marks wins (kill_ids env (map fst (rs_visit env cur)) w) = {x \<in> marks wins w. snd x \<in> M}"
    using marks_filter [where wins = wins, OF f] by metis
  show "unmarked wins (kill_ids env (map fst (rs_visit env cur)) w) = unmarked wins w"
    using unmarked_filter [OF l _ f] k by force
qed

text \<open>The windows without a marker that are killed have the arrow in their name; no other window goes.\<close>

lemma legacy_killed:
  assumes l: "lawful env wins" and w: "wins w' = wins w"
    and ids: "\<forall>i \<in> set ids. good_id i \<and> (\<exists>n. (i, [], n) \<in> unmarked wins w \<and> has_prefix n [CHR 0xE2, CHR 0x86, CHR 0x97])"
  shows "marks wins (kill_ids env ids w') = marks wins w"
    and "\<And>x. x \<in> unmarked wins w \<Longrightarrow> \<not> has_prefix (snd (snd x)) [CHR 0xE2, CHR 0x86, CHR 0x97] \<Longrightarrow> x \<in> unmarked wins (kill_ids env ids w')"
proof -
  have f: "wins (kill_ids env ids w') = filter (\<lambda>x. fst x \<notin> set ids) (wins w)"
    using wins_kills [OF l, of ids w'] w ids by (simp add: list_all_iff)
  have d: "distinct (map fst (wins w))" using lawful_good [OF l] by (simp add: good_wins_def)
  have "i \<notin> set ids" if "(i, mk) \<in> marks wins w" for i mk
  proof
    assume "i \<in> set ids"
    then obtain n where "(i, [], n) \<in> set (wins w)" using ids by (auto simp: unmarked_def)
    then show False using that d by (auto simp: marks_iff dest: eq_key_imp_eq_value)
  qed
  then show "marks wins (kill_ids env ids w') = marks wins w" using marks_filter [where wins = wins, OF f] by auto
  fix x
  assume x: "x \<in> unmarked wins w" "\<not> has_prefix (snd (snd x)) [CHR 0xE2, CHR 0x86, CHR 0x97]"
  have x3: "x \<in> set (wins w)" "fst (snd x) = []" using x(1) by (auto simp: unmarked_def)
  have "fst x \<notin> set ids"
  proof
    assume "fst x \<in> set ids"
    then obtain n where n: "(fst x, [], n) \<in> set (wins w)" "has_prefix n [CHR 0xE2, CHR 0x86, CHR 0x97]"
      using ids by (auto simp: unmarked_def)
    moreover have "(fst x, fst (snd x), snd (snd x)) \<in> set (wins w)" using x3(1) by (simp only: prod.collapse)
    ultimately have "([], n) = (fst (snd x), snd (snd x))" using eq_key_imp_eq_value [OF d] by blast
    then show False using x(2) n(2) by (metis snd_conv)
  qed
  then show "x \<in> unmarked wins (kill_ids env ids w')" using x3 by (simp add: unmarked_def f)
qed

text \<open>The loop over the desired windows starts with the markers that were listed.\<close>

lemma reconcile_loop:
  assumes l: "lawful env wins" and v: "visits env" and w: "wins w1 = wins w"
    and co: "collect (rs_self env) (rs_sessions env) pcs ([], []) = Some (des, snap)"
    and c: "\<forall>(mk, m) \<in> set des. clean mk \<and> clean (short_name (wm_dir m))"
    and f: "foldl (reconcile_one env nc) (marked_of (wins w), w1) (rs_order env des) = (cur2, w2)"
  shows "pass_inv wins (fst ` set des) (cur2, w2)"
    and "\<forall>mk \<in> fst ` set des. card (ids_of wins mk w2) = (if nc \<and> ids_of wins mk w = {} then 0 else 1)"
    and "unmarked wins w2 = unmarked wins w"
proof -
  have eq: "ids_of wins mk w1 = ids_of wins mk w" "unmarked wins w1 = unmarked wins w" for mk
    using w by (simp_all add: ids_of_def marks_def unmarked_def)
  have inv: "pass_inv wins {} (marked_of (wins w), w1)"
    using distinct_marked [of "wins w"] lawful_good [OF l, of w] by (simp add: pass_inv_def marks_def w good_wins_def)
  have ms: "mset (rs_order env des) = mset des" using v by (simp add: visits_def)
  then have so: "set (rs_order env des) = set des" by (metis set_mset_mset)
  have d: "distinct (map fst (rs_order env des))"
    using collect_distinct [OF co] ms mset_eq_imp_distinct_iff [of "map fst (rs_order env des)" "map fst des"] by simp
  have cl: "\<forall>(mk, m) \<in> set (rs_order env des). mk \<noteq> [] \<and> clean_mark mk \<and> clean (short_name (wm_dir m))"
    using c collect_markers [OF co] by (fastforce simp: so clean_mark_def)
  show "pass_inv wins (fst ` set des) (cur2, w2)"
    "\<forall>mk \<in> fst ` set des. card (ids_of wins mk w2) = (if nc \<and> ids_of wins mk w = {} then 0 else 1)"
    "unmarked wins w2 = unmarked wins w"
    using reconcile_fold [OF l v inv d _ cl f] by (simp_all add: so eq)
qed

lemma reconcile_synced:
  assumes l: "lawful env wins" and v: "visits env" and p: "rs_pcs env = Some pcs"
    and co: "collect (rs_self env) (rs_sessions env) pcs ([], []) = Some (des, snap)"
    and c: "\<forall>(mk, m) \<in> set des. clean mk \<and> clean (short_name (wm_dir m))"
  shows "fst (reconcile_remote env w) = Some snap
    \<and> synced wins (fst ` set des) (length des * 3 + 8 < length (marked_of (wins w))) w (snd (reconcile_remote env w))"
proof -
  let ?nc = "length des * 3 + 8 < length (marked_of (wins w))" and ?M = "fst ` set des"
  obtain w1 where w1: "list_window_markers (rs_os env) (rs_tmux env) (rs_mgr env) w = (Some (marked_of (wins w)), w1)"
      "wins w1 = wins w" using markers_listed [OF l] by blast
  obtain cur2 w2 where f: "foldl (reconcile_one env ?nc) (marked_of (wins w), w1) (rs_order env des) = (cur2, w2)"
    by fastforce
  let ?w3 = "kill_ids env (map fst (rs_visit env cur2)) w2"
  obtain ids w4 where w4: "legacy_markerless_ids (rs_os env) (rs_tmux env) (rs_mgr env) ?w3 = (Some ids, w4)"
      "wins w4 = wins ?w3" "\<forall>i \<in> set ids. good_id i
         \<and> (\<exists>n. (i, [], n) \<in> unmarked wins ?w3 \<and> has_prefix n [CHR 0xE2, CHR 0x86, CHR 0x97])"
    using legacy_listed [OF l] by blast
  have res: "reconcile_remote env w = (Some snap, kill_ids env ids w4)"
    using w1 f w4(1) p co by (simp add: reconcile_remote_def Let_def)
  note r = reconcile_loop [OF l v w1(2) co c f]
  have k: "(i, mk) \<in> set cur2 \<longleftrightarrow> mk \<notin> ?M \<and> (i, mk) \<in> marks wins w2" for i mk
    using r(1) by (simp add: pass_inv_def)
  note k3 = rest_killed [OF l v k] and k5 = legacy_killed [OF l w4(2,3)]
  have i5: "ids_of wins mk (kill_ids env ids w4) = (if mk \<in> ?M then ids_of wins mk w2 else {})" for mk
    by (auto simp: ids_of_def k5(1) k3(1))
  have "card (ids_of wins mk (kill_ids env ids w4)) = (if mk \<in> ?M \<and> \<not> (?nc \<and> ids_of wins mk w = {}) then 1 else 0)" for mk
    using r(2) [rule_format, of mk] unfolding i5 by (cases "mk \<in> ?M"; cases "?nc \<and> ids_of wins mk w = {}") simp_all
  moreover have "x \<in> unmarked wins (kill_ids env ids w4)"
    if "x \<in> unmarked wins w" "\<not> has_prefix (snd (snd x)) [CHR 0xE2, CHR 0x86, CHR 0x97]" for x
    using k5(2) [of x] that by (simp add: k3(2) r(3))
  ultimately have "synced wins ?M ?nc w (kill_ids env ids w4)" unfolding synced_def by blast
  then show ?thesis by (simp add: res)
qed

section \<open>A tmux that keeps the laws\<close>

definition demo_wins :: "win list \<Rightarrow> win list" where
  "demo_wins ws = (if good_wins ws then ws else [])"

definition fresh_id :: "win list \<Rightarrow> bytes" where
  "fresh_id ws = CHR ''@'' # replicate (foldr max (map (length \<circ> fst) ws) 0) (CHR ''0'')"

definition demo_tmux :: "win list tmux" where
  "demo_tmux w args =
     (let ws = demo_wins w in
      if hd args = ''list-windows'' then
        (Some (lines_of (if args ! 4 = ''#{window_id}=#{@cm_remote}'' then marker_text else legacy_text) ws), ws)
      else if hd args = ''kill-window'' then (Some [], filter (\<lambda>x. fst x \<noteq> drop 3 (args ! 2)) ws)
      else if hd args = ''set-option'' then
        (Some [], if args ! 4 = ''@cm_remote'' \<and> clean_mark (args ! 5) then put_mark (drop 3 (args ! 3)) (args ! 5) ws else ws)
      else if hd args = ''new-window'' then
        (Some (fresh_id ws @ [CHR 0x0A]), if clean (args ! 5) then ws @ [(fresh_id ws, [], args ! 5)] else ws)
      else (None, ws))"

lemma fresh_id_fresh: "fresh_id ws \<notin> fst ` set ws"
proof -
  have "length (fst x) < length (fresh_id ws)" if "x \<in> set ws" for x
    using that by (induction ws) (auto simp: fresh_id_def)
  then show ?thesis by force
qed

lemma good_fresh: "good_id (fresh_id ws)"
  by (simp add: fresh_id_def good_id_def list_all_iff is_digit_def)

lemma good_wins_keep:
  assumes "good_wins ws"
  shows "good_wins (filter P ws)" "clean_mark m \<Longrightarrow> good_wins (put_mark i m ws)"
    "clean n \<Longrightarrow> good_wins (ws @ [(fresh_id ws, [], n)])"
proof -
  show "good_wins (filter P ws)" using assms by (auto simp: good_wins_def distinct_map_filter)
  have f: "map fst (put_mark i m ws) = map fst ws" by (induction ws) (auto simp: put_mark_def)
  have e: "\<exists>m1. (j, m1, n) \<in> set ws \<and> (m0 = m \<or> m0 = m1)" if "(j, m0, n) \<in> set (put_mark i m ws)" for j m0 n
    using that by (auto simp: put_mark_def split: if_splits)
  show "clean_mark m \<Longrightarrow> good_wins (put_mark i m ws)" unfolding good_wins_def f
    using assms e by (fastforce simp: good_wins_def)
  have "clean_mark []" by (simp add: clean_mark_def clean_def)
  then show "clean n \<Longrightarrow> good_wins (ws @ [(fresh_id ws, [], n)])"
    using assms fresh_id_fresh [of ws] good_fresh [of ws] by (auto simp: good_wins_def)
qed

lemma demo_good: "good_wins (demo_wins ws)"
  by (simp add: demo_wins_def good_wins_def)

lemma demo_id: "good_wins ws \<Longrightarrow> demo_wins ws = ws"
  by (simp add: demo_wins_def)

lemma demo_laws: "tmux_laws demo_tmux ''cm'' demo_wins"
  unfolding tmux_laws_def
  by (simp add: demo_tmux_def Let_def demo_good demo_id good_wins_keep fresh_id_fresh good_fresh)

section \<open>The properties\<close>

definition demo_sessions :: "bytes \<Rightarrow> obj list option" where
  "demo_sessions pc = Some [[''key'' \<mapsto> AStr ''7'', ''short_dir'' \<mapsto> AStr ''app'']]"

definition demo_env :: "bytes list option \<Rightarrow> win list renv" where
  "demo_env pcs = \<lparr>rs_os = Unix, rs_tmux = demo_tmux, rs_mgr = \<lparr>mg_session = ''cm'', mg_map = Map.empty\<rparr>,
     rs_self = ''a'', rs_cmd = (\<lambda>pc sid dir. attach_marker pc sid), rs_pcs = pcs,
     rs_sessions = demo_sessions, rs_order = rev, rs_visit = rev\<rparr>"

definition demo_meta :: wmeta where
  "demo_meta = \<lparr>wm_pc = ''b'', wm_sid = ''7'', wm_dir = ''app''\<rparr>"

lemma demo_lawful: "lawful (demo_env pcs) demo_wins" "visits (demo_env pcs)"
  by (simp_all add: lawful_def demo_env_def demo_laws visits_def)

lemma demo_collect:
  "collect ''a'' demo_sessions [''a'', ''b''] ([], []) = Some ([(attach_marker ''b'' ''7'', demo_meta)], [demo_meta])"
  by (simp add: demo_sessions_def add_desired_def sess_sid_def status_str_def demo_meta_def put_entry_def Let_def)

text \<open>C9: A pass brings the windows in line with the sessions of the other machines: afterwards every session
  announced has exactly one window, and no other window carries a marker; duplicates left by earlier runs are closed, and windows
  without a marker whose name does not start with the arrow of remote windows are left alone. Only when there are far more
  marked windows than sessions are missing windows not created; even then nothing superfluous stays.
\<close>

theorem remote_windows_synced:
  assumes "lawful env wins" and "visits env" and "rs_pcs env = Some pcs"
    and "collect (rs_self env) (rs_sessions env) pcs ([], []) = Some (des, snap)"
    and "\<forall>(mk, m) \<in> set des. clean mk \<and> clean (short_name (wm_dir m))"
  shows "fst (reconcile_remote env w) = Some snap
    \<and> synced wins (fst ` set des) (length des * 3 + 8 < length (marked_of (wins w))) w (snd (reconcile_remote env w))"
  using assms by (rule reconcile_synced)

lemma runes_of_ascii: "ord c < (128::nat) \<Longrightarrow> runes_of (c # s) = ord c # runes_of s"
  using runes_of_encode [of "ord c" s] by (simp add: valid_rune_def)

lemma demo_clean: "clean (attach_marker ''b'' ''7'')" "clean (short_name ''app'')"
proof -
  show "clean (attach_marker ''b'' ''7'')" by code_simp
  have "runes_of ''app'' = map ord ''app''"
    by (simp add: runes_of_ascii runes_of.simps [of "[]"])
  moreover have "string_of_runes (map ord ''app'') = ''app''"
    by (simp add: string_of_runes_def char_of_def bit_0)
  ultimately have "short_name ''app'' = [CHR 0xE2, CHR 0x86, CHR 0x97] @ ''app''"
    by (simp add: short_name_def Let_def)
  moreover have "clean ([CHR 0xE2, CHR 0x86, CHR 0x97] @ ''app'')" by code_simp
  ultimately show "clean (short_name ''app'')" by metis
qed

theorem remote_windows_synced_witness:
  "fst (reconcile_remote (demo_env (Some [''a'', ''b''])) []) = Some [demo_meta]
    \<and> synced demo_wins (fst ` set [(attach_marker ''b'' ''7'', demo_meta)])
        (length [(attach_marker ''b'' ''7'', demo_meta)] * 3 + 8 < length (marked_of (demo_wins []))) []
        (snd (reconcile_remote (demo_env (Some [''a'', ''b''])) []))"
proof (rule remote_windows_synced [OF demo_lawful])
  show "rs_pcs (demo_env (Some [''a'', ''b''])) = Some [''a'', ''b'']" by (simp add: demo_env_def)
  show "collect (rs_self (demo_env (Some [''a'', ''b'']))) (rs_sessions (demo_env (Some [''a'', ''b'']))) [''a'', ''b''] ([], [])
      = Some ([(attach_marker ''b'' ''7'', demo_meta)], [demo_meta])"
    using demo_collect by (simp add: demo_env_def del: collect.simps)
  show "\<forall>(mk, m) \<in> set [(attach_marker ''b'' ''7'', demo_meta)]. clean mk \<and> clean (short_name (wm_dir m))"
    using demo_clean by (simp add: demo_meta_def)
qed



section \<open>The trigger\<close>

inductive_cases sync_takeE: "sync_step s Take s'"

inductive sync_run :: "sync_state \<Rightarrow> sync_event list \<Rightarrow> sync_state \<Rightarrow> bool" where
  nil: "sync_run s [] s"
| cons: "sync_step s e s1 \<Longrightarrow> sync_run s1 es s2 \<Longrightarrow> sync_run s (e # es) s2"

inductive_cases sync_run_consE: "sync_run s (e # es) s'"

text \<open>A change is not forgotten before a pass has started after it.\<close>

lemma request_kept: "sync_run s es s' \<Longrightarrow> sy_pending s \<Longrightarrow> Take \<notin> set es \<Longrightarrow> sy_pending s'"
  by (induction rule: sync_run.induct) (auto elim: sync_step.cases)

lemma change_kept: "sync_run s (Change # es) s' \<Longrightarrow> Take \<notin> set es \<Longrightarrow> sy_pending s'"
  by (elim sync_run_consE) (auto elim!: sync_step.cases intro: request_kept)

end
