(* ===== verification/CloudState.thy ===== *)
theory CloudState
  imports LimitResume "HOL-Library.Char_ord" "HOL-Library.List_Lexorder"
begin

text \<open>
  \<open>internal/cloud/state\<close>: the documents kept in Firestore (\<open>state.go\<close>), the remote commands (\<open>commands.go\<close>) and the
  loop that keeps a subscription alive (\<open>watch.go\<close>). Firestore is a parameter: a record of its operations on a state \<open>'w\<close>.
  Other parameters: \<open>sha\<close> and \<open>json\<close> (hash and encoding), \<open>fmt\<close> and \<open>parse\<close> (RFC 3339), the clock \<open>now\<close>.
\<close>

type_synonym doc = "(bytes \<times> any) list"
type_synonym path = "bytes list"

record 'w store =
  st_get :: "'w \<Rightarrow> path \<Rightarrow> doc option"
  st_set :: "bool \<Rightarrow> path \<Rightarrow> doc \<Rightarrow> 'w \<Rightarrow> bool \<times> 'w"
  st_del :: "path \<Rightarrow> 'w \<Rightarrow> bool \<times> 'w"
  st_list :: "'w \<Rightarrow> path \<Rightarrow> (bytes \<times> doc) list option"

text \<open>\<open>st_get\<close> is \<open>None\<close> for an error and for a document that does not exist; the first argument of \<open>st_set\<close> is \<open>MergeAll\<close>.\<close>

definition fld :: "doc \<Rightarrow> bytes \<Rightarrow> bytes" where
  "fld d k = (case map_of d k of Some (AStr s) \<Rightarrow> s | _ \<Rightarrow> [])"

section \<open>Session documents\<close>

definition content_hash :: "(bytes \<Rightarrow> bytes) \<Rightarrow> (doc \<Rightarrow> bytes) \<Rightarrow> doc \<Rightarrow> bytes" where
  "content_hash sha json m =
     sha (json (sort_key fst (filter (\<lambda>(k, _). k \<notin> {''version'', ''updated_at'', ''content_hash''}) m)))"

definition session_doc_key :: "doc \<Rightarrow> bytes" where
  "session_doc_key s =
     (if fld s ''key'' \<noteq> [] then fld s ''key''
      else if fld s ''session_id'' \<noteq> [] then fld s ''session_id'' else ''unknown'')"

definition sessions_path :: "bytes \<Rightarrow> path" where
  "sessions_path pc = [''pcs'', pc, ''sessions'']"

definition put_field :: "doc \<Rightarrow> bytes \<Rightarrow> any \<Rightarrow> doc" where
  "put_field d k v = put_entry d (k, v)"

text \<open>One session of \<open>PushStatus\<close>: \<open>None\<close> when nothing changed, else the document to write.\<close>

definition push_doc ::
  "(bytes \<Rightarrow> bytes) \<Rightarrow> (doc \<Rightarrow> bytes) \<Rightarrow> (int \<Rightarrow> bytes) \<Rightarrow> int \<Rightarrow> doc option \<Rightarrow> doc \<Rightarrow> doc option" where
  "push_doc sha json fmt now old s =
     (let h = content_hash sha json s;
          finish = (\<lambda>ver. put_field (put_field (put_field s ''version'' (AInt ver)) ''content_hash'' (AStr h))
             ''updated_at'' (AStr (fmt now)))
      in case old of
           Some d \<Rightarrow>
             if fld d ''content_hash'' = h then None
             else Some (finish (i64 ((case map_of d ''version'' of Some (AInt v) \<Rightarrow> v | _ \<Rightarrow> 0) + 1)))
         | None \<Rightarrow> Some (finish 1))"

fun push_sessions ::
  "'w store \<Rightarrow> (doc option \<Rightarrow> doc \<Rightarrow> doc option) \<Rightarrow> bytes \<Rightarrow> doc list \<Rightarrow> nat \<Rightarrow> 'w \<Rightarrow> bool \<times> nat \<times> 'w" where
  "push_sessions st chg pc [] n w = (True, n, w)"
| "push_sessions st chg pc (s # ss) n w =
     (let p = sessions_path pc @ [session_doc_key s] in
      case chg (st_get st w p) s of
        None \<Rightarrow> push_sessions st chg pc ss n w
      | Some d \<Rightarrow>
          (case st_set st False p d w of
             (ok, w) \<Rightarrow> if ok then push_sessions st chg pc ss (Suc n) w else (False, Suc n, w)))"

text \<open>The result: no error, the number of changed sessions, the new state.\<close>

definition push_status ::
  "(bytes \<Rightarrow> bytes) \<Rightarrow> (doc \<Rightarrow> bytes) \<Rightarrow> (int \<Rightarrow> bytes) \<Rightarrow> 'w store \<Rightarrow> int \<Rightarrow> bytes \<Rightarrow> doc list \<Rightarrow> 'w
   \<Rightarrow> bool \<times> nat \<times> 'w" where
  "push_status sha json fmt st now pc ss w =
     (case push_sessions st (push_doc sha json fmt now) pc ss 0 w of
        (ok, n, w) \<Rightarrow>
          if ok \<and> 0 < n
          then (True, n, snd (st_set st True [''pcs'', pc] [(''id'', AStr pc), (''updated_at'', AStr (fmt now))] w))
          else (ok, n, w))"

section \<open>Machines\<close>

definition register_pc_version :: "(int \<Rightarrow> bytes) \<Rightarrow> 'w store \<Rightarrow> int \<Rightarrow> bytes \<Rightarrow> bytes \<Rightarrow> 'w \<Rightarrow> bool \<times> 'w" where
  "register_pc_version fmt st now pc version w =
     st_set st False [''pcs'', pc]
       ([(''id'', AStr pc), (''updated_at'', AStr (fmt now))]
        @ (if version \<noteq> [] then [(''cm_version'', AStr version)] else [])) w"

definition delete_pc :: "'w store \<Rightarrow> bytes \<Rightarrow> 'w \<Rightarrow> bool \<times> 'w" where
  "delete_pc st pc w =
     (if pc = [] then (True, w)
      else let w = (case st_list st w (sessions_path pc) of
                      None \<Rightarrow> w
                    | Some ds \<Rightarrow> foldl (\<lambda>w (i, _). snd (st_del st (sessions_path pc @ [i]) w)) w ds);
               w = snd (st_del st [''pcs'', pc] w)
           in st_del st [''wake'', pc] w)"

definition list_pcs :: "'w store \<Rightarrow> 'w \<Rightarrow> bytes list option" where
  "list_pcs st w = map_option (map fst) (st_list st w [''pcs''])"

definition list_session_docs :: "'w store \<Rightarrow> 'w \<Rightarrow> bytes \<Rightarrow> doc list option" where
  "list_session_docs st w pc = map_option (map snd) (st_list st w (sessions_path pc))"

definition pc_version :: "'w store \<Rightarrow> 'w \<Rightarrow> bytes \<Rightarrow> bytes" where
  "pc_version st w pc = (case st_get st w [''pcs'', pc] of None \<Rightarrow> [] | Some d \<Rightarrow> fld d ''cm_version'')"

definition delete_session :: "'w store \<Rightarrow> bytes \<Rightarrow> bytes \<Rightarrow> 'w \<Rightarrow> bool \<times> 'w" where
  "delete_session st pc key w = (if key = [] then (True, w) else st_del st (sessions_path pc @ [key]) w)"

definition own_session_keys :: "'w store \<Rightarrow> 'w \<Rightarrow> bytes \<Rightarrow> bytes list option" where
  "own_session_keys st w pc = map_option (map fst) (st_list st w (sessions_path pc))"

definition wake :: "(int \<Rightarrow> bytes) \<Rightarrow> 'w store \<Rightarrow> int \<Rightarrow> bytes \<Rightarrow> bytes \<Rightarrow> 'w \<Rightarrow> bool \<times> 'w" where
  "wake fmt st now pc sid w = st_set st False [''wake'', pc] [(''sid'', AStr sid), (''ts'', AStr (fmt now))] w"

text \<open>What the watcher of the wake document hands to its callback for one snapshot.\<close>

definition woken :: "doc option \<Rightarrow> bytes option" where
  "woken snap = (case snap of None \<Rightarrow> None | Some d \<Rightarrow> if fld d ''sid'' \<noteq> [] then Some (fld d ''sid'') else None)"

section \<open>Pairing codes\<close>

definition create_pairing ::
  "(int \<Rightarrow> bytes) \<Rightarrow> 'w store \<Rightarrow> int \<Rightarrow> bytes \<Rightarrow> bytes \<Rightarrow> bytes \<Rightarrow> int \<Rightarrow> 'w \<Rightarrow> bool \<times> 'w" where
  "create_pairing fmt st now code pc scope ttl w =
     st_set st False [''pairings'', code]
       [(''pc'', AStr pc), (''scope'', AStr scope), (''expires_at'', AStr (fmt (now + ttl)))] w"

text \<open>\<open>ConsumePairing\<close> is a read, a deletion and a decision.\<close>

definition pairing_result :: "(bytes \<Rightarrow> int option) \<Rightarrow> int \<Rightarrow> doc \<Rightarrow> (bytes \<times> bytes) option" where
  "pairing_result parse now d =
     (case parse (fld d ''expires_at'') of
        None \<Rightarrow> None
      | Some t \<Rightarrow> if t < now then None else Some (fld d ''pc'', fld d ''scope''))"

definition consume_pairing ::
  "(bytes \<Rightarrow> int option) \<Rightarrow> 'w store \<Rightarrow> int \<Rightarrow> bytes \<Rightarrow> 'w \<Rightarrow> (bytes \<times> bytes) option \<times> 'w" where
  "consume_pairing parse st now code w =
     (case st_get st w [''pairings'', code] of
        None \<Rightarrow> (None, w)
      | Some d \<Rightarrow> (pairing_result parse now d, snd (st_del st [''pairings'', code] w)))"

section \<open>Grants and revocation\<close>

definition good_role :: "bytes \<Rightarrow> bool" where
  "good_role role \<longleftrightarrow> role = ''source'' \<or> role = ''viewer''"

definition relay_grant_id :: "bytes \<Rightarrow> bytes \<Rightarrow> bytes" where
  "relay_grant_id sid role = sid @ '':'' @ role"

definition put_relay_grant ::
  "(int \<Rightarrow> bytes) \<Rightarrow> 'w store \<Rightarrow> int \<Rightarrow> bytes \<Rightarrow> bytes \<Rightarrow> bytes \<Rightarrow> int \<Rightarrow> 'w \<Rightarrow> bool \<times> 'w" where
  "put_relay_grant fmt st now pc sid role ttl w =
     (if sid = [] \<or> \<not> good_role role then (True, w)
      else st_set st False [''relaygrants'', relay_grant_id sid role]
        [(''sid'', AStr sid), (''role'', AStr role), (''pc'', AStr pc), (''exp'', AStr (fmt (now + ttl)))] w)"

definition set_revoked :: "(int \<Rightarrow> bytes) \<Rightarrow> 'w store \<Rightarrow> int \<Rightarrow> bytes \<Rightarrow> 'w \<Rightarrow> bool \<times> 'w" where
  "set_revoked fmt st now pc w =
     (if pc = [] then (True, w) else st_set st False [''revoked'', pc] [(''pc'', AStr pc), (''at'', AStr (fmt now))] w)"

definition clear_revoked :: "'w store \<Rightarrow> bytes \<Rightarrow> 'w \<Rightarrow> bool \<times> 'w" where
  "clear_revoked st pc w = (if pc = [] then (True, w) else st_del st [''revoked'', pc] w)"

definition is_revoked :: "'w store \<Rightarrow> 'w \<Rightarrow> bytes \<Rightarrow> bool" where
  "is_revoked st w pc \<longleftrightarrow> pc \<noteq> [] \<and> st_get st w [''revoked'', pc] \<noteq> None"

definition check_relay_grant :: "(bytes \<Rightarrow> int option) \<Rightarrow> 'w store \<Rightarrow> int \<Rightarrow> bytes \<Rightarrow> bytes \<Rightarrow> 'w \<Rightarrow> bool" where
  "check_relay_grant parse st now sid role w =
     (if sid = [] \<or> \<not> good_role role then False
      else case st_get st w [''relaygrants'', relay_grant_id sid role] of
          None \<Rightarrow> False
        | Some d \<Rightarrow>
            (case parse (fld d ''exp'') of
               None \<Rightarrow> False
             | Some t \<Rightarrow>
                 if \<not> now < t then False
                 else \<not> (fld d ''pc'' \<noteq> [] \<and> is_revoked st w (fld d ''pc''))))"

section \<open>Remote commands\<close>

record command =
  cmd_id :: bytes
  cmd_cmd :: bytes
  cmd_sid :: bytes
  cmd_by :: bytes
  cmd_ts :: bytes
  cmd_status :: bytes
  cmd_detail :: bytes
  cmd_finished :: bytes

definition valid_commands :: "bytes list" where
  "valid_commands = [''restart-agent'', ''self-update'', ''restart-proxy'']"

definition cmd_path :: "bytes \<Rightarrow> bytes \<Rightarrow> path" where
  "cmd_path pc i = [''commands'', pc, ''q'', i]"

text \<open>\<open>i\<close> is the random id.\<close>

definition push_command ::
  "(int \<Rightarrow> bytes) \<Rightarrow> 'w store \<Rightarrow> int \<Rightarrow> bytes \<Rightarrow> bytes \<Rightarrow> bytes \<Rightarrow> bytes \<Rightarrow> bytes \<Rightarrow> 'w \<Rightarrow> bytes option \<times> 'w" where
  "push_command fmt st now i pc cmd sid by w =
     (if cmd \<notin> set valid_commands then (None, w)
      else case st_set st False (cmd_path pc i)
          [(''id'', AStr i), (''cmd'', AStr cmd), (''sid'', AStr sid), (''requested_by'', AStr by),
           (''ts'', AStr (fmt now)), (''status'', AStr ''pending'')] w of
        (ok, w) \<Rightarrow> (if ok then Some i else None, w))"

text \<open>The body of the transaction of \<open>claimCommand\<close>, which Firestore runs atomically.\<close>

definition claim_command :: "'w store \<Rightarrow> bytes \<Rightarrow> bytes \<Rightarrow> 'w \<Rightarrow> bool \<times> 'w" where
  "claim_command st pc i w =
     (case st_get st w (cmd_path pc i) of
        None \<Rightarrow> (False, w)
      | Some d \<Rightarrow>
          if fld d ''status'' \<noteq> ''pending'' then (False, w)
          else st_set st True (cmd_path pc i) [(''status'', AStr ''running'')] w)"

definition ack_command :: "(int \<Rightarrow> bytes) \<Rightarrow> 'w store \<Rightarrow> int \<Rightarrow> bytes \<Rightarrow> bytes \<Rightarrow> bytes \<Rightarrow> bytes \<Rightarrow> 'w \<Rightarrow> bool \<times> 'w" where
  "ack_command fmt st now pc i status detail w =
     st_set st True (cmd_path pc i)
       [(''status'', AStr status), (''detail'', AStr detail), (''finished_at'', AStr (fmt now))] w"

text \<open>One change of a snapshot in \<open>WatchCommands\<close>: the command given to the callback, if it could be claimed.\<close>

definition watch_change :: "'w store \<Rightarrow> bytes \<Rightarrow> bool \<times> command option \<Rightarrow> 'w \<Rightarrow> command option \<times> 'w" where
  "watch_change st pc ch w =
     (case ch of (removed, dec) \<Rightarrow>
        if removed then (None, w)
        else case dec of
            None \<Rightarrow> (None, w)
          | Some cm \<Rightarrow>
              if cmd_status cm \<noteq> ''pending'' then (None, w)
              else case claim_command st pc (cmd_id cm) w of
                  (ok, w) \<Rightarrow> (if ok then Some (cm\<lparr>cmd_status := ''running''\<rparr>) else None, w))"

text \<open>\<open>docs\<close> are the newest documents, as Firestore's query gives them; \<open>decode\<close> is \<open>DataTo\<close>.\<close>

definition recent_commands :: "(doc \<Rightarrow> command option) \<Rightarrow> doc list option \<Rightarrow> command list option" where
  "recent_commands decode docs = map_option (List.map_filter decode) docs"

section \<open>Keeping a subscription alive\<close>

definition watch_backoff_min :: int where "watch_backoff_min = 200000000"
definition watch_backoff_max :: int where "watch_backoff_max = 5000000000"

text \<open>
  \<open>keepSubscribed\<close>: an iteration is described by whether the context has ended before subscribing, when the pump
  comes back, and during the wait. The result is the list of waits, and whether the loop has returned.
\<close>

fun keep_subscribed :: "int \<Rightarrow> (bool \<times> bool \<times> bool) list \<Rightarrow> int list \<times> bool" where
  "keep_subscribed bo [] = ([], False)"
| "keep_subscribed bo ((before, after, during) # its) =
     (if before then ([], True)
      else if after then ([], True)
      else if during then ([bo], True)
      else let bo' = (if watch_backoff_max < bo * 2 then watch_backoff_max else bo * 2)
           in (case keep_subscribed bo' its of (ws, r) \<Rightarrow> (bo # ws, r)))"

end
