(* ===== verification/CloudProps.thy ===== *)
theory CloudProps
  imports CloudState
begin

text \<open>
  Properties of \<open>internal/cloud/state\<close>: what the relay grants admit, that pushing an unchanged status writes nothing, that a
  pairing code is consumed, and how the subscription loop waits. \<open>store_laws\<close> is what is used of Firestore.
\<close>

section \<open>The document store\<close>

text \<open>The fields of a document after a write: all replaced, or merged over the old ones.\<close>

definition written :: "bool \<Rightarrow> doc \<Rightarrow> doc option \<Rightarrow> doc \<Rightarrow> bool" where
  "written mrg d old new \<longleftrightarrow>
     map_of new = (if mrg then (case old of None \<Rightarrow> Map.empty | Some o' \<Rightarrow> map_of o') ++ map_of d else map_of d)"

text \<open>
  A write and a deletion touch no other document. When they report success they have taken effect; when they report an
  error, they may or may not have.
\<close>

definition store_laws :: "'w store \<Rightarrow> bool" where
  "store_laws st \<longleftrightarrow>
     (\<forall>mrg p d w. (\<forall>q. q \<noteq> p \<longrightarrow> st_get st (snd (st_set st mrg p d w)) q = st_get st w q)
        \<and> ((\<exists>e. st_get st (snd (st_set st mrg p d w)) p = Some e \<and> written mrg d (st_get st w p) e)
           \<or> \<not> fst (st_set st mrg p d w) \<and> st_get st (snd (st_set st mrg p d w)) p = st_get st w p))
   \<and> (\<forall>p w. (\<forall>q. q \<noteq> p \<longrightarrow> st_get st (snd (st_del st p w)) q = st_get st w q)
        \<and> (st_get st (snd (st_del st p w)) p = None
           \<or> \<not> fst (st_del st p w) \<and> st_get st (snd (st_del st p w)) p = st_get st w p))"

lemma set_other: "store_laws st \<Longrightarrow> q \<noteq> p \<Longrightarrow> st_get st (snd (st_set st mrg p d w)) q = st_get st w q"
  by (auto simp: store_laws_def)

lemma set_same:
  "store_laws st \<Longrightarrow> fst (st_set st mrg p d w) \<Longrightarrow>
   \<exists>e. st_get st (snd (st_set st mrg p d w)) p = Some e \<and> written mrg d (st_get st w p) e"
  unfolding store_laws_def by blast

lemma set_cases:
  assumes "store_laws st"
  obtains e where "st_get st (snd (st_set st mrg p d w)) p = Some e" "written mrg d (st_get st w p) e"
  | "\<not> fst (st_set st mrg p d w)" "st_get st (snd (st_set st mrg p d w)) p = st_get st w p"
  using assms unfolding store_laws_def by blast

lemma del_other: "store_laws st \<Longrightarrow> q \<noteq> p \<Longrightarrow> st_get st (snd (st_del st p w)) q = st_get st w q"
  by (auto simp: store_laws_def)

lemma del_same: "store_laws st \<Longrightarrow> fst (st_del st p w) \<Longrightarrow> st_get st (snd (st_del st p w)) p = None"
  unfolding store_laws_def by blast

lemma fld_cong: "map_of a = map_of b \<Longrightarrow> fld a k = fld b k"
  by (simp add: fld_def)

lemma fld_written: "written False d old e \<Longrightarrow> fld e k = fld d k"
  by (auto simp: written_def intro: fld_cong)

lemma fld_merged: "written True d old e \<Longrightarrow> map_of d k = Some (AStr v) \<Longrightarrow> fld e k = v"
  by (simp add: written_def fld_def)

text \<open>A store that never fails, as a function from paths to documents.\<close>

definition demo_store :: "(path \<Rightarrow> doc option) store" where
  "demo_store = \<lparr>st_get = (\<lambda>w. w),
     st_set = (\<lambda>mrg p d w. (True, w(p \<mapsto> (if mrg then d @ (case w p of None \<Rightarrow> [] | Some o' \<Rightarrow> o') else d)))),
     st_del = (\<lambda>p w. (True, w(p := None))),
     st_list = (\<lambda>w p. None)\<rparr>"

lemma demo_store_laws: "store_laws demo_store"
  by (auto simp: store_laws_def demo_store_def written_def split: option.split)

section \<open>Relay grants\<close>

text \<open>
  What the documents stand for: for a session and a role the machine that asked and the end of the grant, and the set of
  revoked machines. One equation per operation.
\<close>

datatype grant_op = Grant bytes bytes bytes int int | Revoke bytes int | Unrevoke bytes

type_synonym grants = "(bytes \<times> bytes \<Rightarrow> (bytes \<times> int) option) \<times> bytes set"

fun grant_spec :: "grants \<Rightarrow> grant_op \<Rightarrow> grants" where
  "grant_spec (g, rv) (Grant pc sid role ttl now) =
     (if sid \<noteq> [] \<and> good_role role then (g((sid, role) \<mapsto> (pc, now + ttl)), rv) else (g, rv))"
| "grant_spec (g, rv) (Revoke pc now) = (g, if pc = [] then rv else insert pc rv)"
| "grant_spec (g, rv) (Unrevoke pc) = (g, rv - {pc})"

definition admitted :: "grants \<Rightarrow> int \<Rightarrow> bytes \<Rightarrow> bytes \<Rightarrow> bool" where
  "admitted gr now sid role =
     (case gr of (g, rv) \<Rightarrow> (case g (sid, role) of None \<Rightarrow> False | Some (pc, t) \<Rightarrow> now < t \<and> pc \<notin> rv))"

text \<open>The same operations on the store; \<open>None\<close> when Firestore reports an error.\<close>

fun grant_step :: "(int \<Rightarrow> bytes) \<Rightarrow> 'w store \<Rightarrow> 'w \<Rightarrow> grant_op \<Rightarrow> 'w option" where
  "grant_step fmt st w (Grant pc sid role ttl now) =
     (case put_relay_grant fmt st now pc sid role ttl w of (ok, w) \<Rightarrow> if ok then Some w else None)"
| "grant_step fmt st w (Revoke pc now) =
     (case set_revoked fmt st now pc w of (ok, w) \<Rightarrow> if ok then Some w else None)"
| "grant_step fmt st w (Unrevoke pc) = (case clear_revoked st pc w of (ok, w) \<Rightarrow> if ok then Some w else None)"

text \<open>The documents of a store agree with the abstract grants.\<close>

definition grant_doc :: "(bytes \<Rightarrow> int option) \<Rightarrow> doc option \<Rightarrow> (bytes \<times> int) option \<Rightarrow> bool" where
  "grant_doc parse d g =
     (case (d, g) of
        (None, None) \<Rightarrow> True
      | (Some d, Some (pc, t)) \<Rightarrow> fld d ''pc'' = pc \<and> parse (fld d ''exp'') = Some t
      | _ \<Rightarrow> False)"

definition agrees :: "(bytes \<Rightarrow> int option) \<Rightarrow> 'w store \<Rightarrow> 'w \<Rightarrow> grants \<Rightarrow> bool" where
  "agrees parse st w gr \<longleftrightarrow>
     (\<forall>sid role. sid \<noteq> [] \<longrightarrow> good_role role \<longrightarrow>
        grant_doc parse (st_get st w [''relaygrants'', relay_grant_id sid role]) (fst gr (sid, role)))
   \<and> (\<forall>sid role. sid = [] \<or> \<not> good_role role \<longrightarrow> fst gr (sid, role) = None)
   \<and> (\<forall>pc. pc \<noteq> [] \<longrightarrow> (st_get st w [''revoked'', pc] \<noteq> None) = (pc \<in> snd gr))
   \<and> [] \<notin> snd gr"

lemma relay_grant_id_inj:
  assumes "good_role r" "good_role r'" "relay_grant_id s r = relay_grant_id s' r'"
  shows "s = s' \<and> r = r'"
proof -
  have "length r = length r'" using assms(1,2) by (auto simp: good_role_def)
  with assms(3) show ?thesis by (simp add: relay_grant_id_def)
qed

lemma grant_doc_set:
  assumes "written False [(''sid'', AStr sid), (''role'', AStr role), (''pc'', AStr pc), (''exp'', AStr t)] old e"
    "parse t = Some x"
  shows "grant_doc parse (Some e) (Some (pc, x))"
  using assms by (simp add: grant_doc_def fld_written) (simp add: fld_def)

text \<open>One lemma per operation.\<close>

lemma agrees_grant:
  assumes st: "store_laws st" and clock: "\<And>t. parse (fmt t) = Some t"
    and a: "agrees parse st w gr" and s: "grant_step fmt st w (Grant pc sid role ttl now) = Some w'"
  shows "agrees parse st w' (grant_spec gr (Grant pc sid role ttl now))"
proof (cases "sid \<noteq> [] \<and> good_role role")
  case False
  then show ?thesis using a s by (cases gr) (auto simp: put_relay_grant_def)
next
  case True
  obtain g rv where gr: "gr = (g, rv)" by (cases gr)
  let ?p = "[''relaygrants'', relay_grant_id sid role]"
  let ?d = "[(''sid'', AStr sid), (''role'', AStr role), (''pc'', AStr pc), (''exp'', AStr (fmt (now + ttl)))]"
  have r: "fst (st_set st False ?p ?d w)" "snd (st_set st False ?p ?d w) = w'"
    using s True by (auto simp: put_relay_grant_def split: prod.splits if_splits)
  obtain e where e: "st_get st w' ?p = Some e" "written False ?d (st_get st w ?p) e"
    using set_same [OF st r(1)] r(2) by blast
  have o': "\<And>q. q \<noteq> ?p \<Longrightarrow> st_get st w' q = st_get st w q"
    using set_other [OF st, of _ ?p False ?d w] r(2) by simp
  have n: "grant_doc parse (st_get st w' ?p) (Some (pc, now + ttl))"
    using grant_doc_set [OF e(2), of parse "now + ttl"] clock e(1) by simp
  have k: "\<And>s r. good_role r \<Longrightarrow> (s, r) \<noteq> (sid, role) \<Longrightarrow> relay_grant_id s r \<noteq> relay_grant_id sid role"
    using relay_grant_id_inj True by blast
  show ?thesis using a True n k by (auto simp: agrees_def gr o')
qed

text \<open>The documents of revoked machines, after one of them was written or deleted.\<close>

lemma agrees_revoked:
  assumes a: "agrees parse st w (g, rv)" and pc: "pc \<noteq> []"
    and o': "\<And>q. q \<noteq> [''revoked'', pc] \<Longrightarrow> st_get st w' q = st_get st w q"
    and rv': "\<And>x. x \<in> rv' \<longleftrightarrow> (if x = pc then st_get st w' [''revoked'', pc] \<noteq> None else x \<in> rv)"
  shows "agrees parse st w' (g, rv')"
proof -
  have "(st_get st w' [''revoked'', x] \<noteq> None) = (x \<in> rv')" if "x \<noteq> []" for x
    using a that rv' [of x] o' [of "[''revoked'', x]"] by (cases "x = pc") (simp_all add: agrees_def)
  moreover have "[] \<notin> rv'" using a pc rv' [of "[]"] by (simp add: agrees_def)
  ultimately show ?thesis using a unfolding agrees_def by (simp add: o')
qed

lemma agrees_revoke:
  assumes st: "store_laws st" and a: "agrees parse st w gr" and s: "grant_step fmt st w (Revoke pc now) = Some w'"
  shows "agrees parse st w' (grant_spec gr (Revoke pc now))"
proof (cases "pc = []")
  case True
  then show ?thesis using a s by (cases gr) (auto simp: set_revoked_def)
next
  case False
  obtain g rv where gr: "gr = (g, rv)" by (cases gr)
  let ?d = "[(''pc'', AStr pc), (''at'', AStr (fmt now))]"
  have r: "fst (st_set st False [''revoked'', pc] ?d w)" "snd (st_set st False [''revoked'', pc] ?d w) = w'"
    using s False by (auto simp: set_revoked_def split: prod.splits if_splits)
  have "st_get st w' [''revoked'', pc] \<noteq> None" using set_same [OF st r(1)] r(2) by auto
  then show ?thesis
    using agrees_revoked [OF a [unfolded gr] False, of w' "insert pc rv"] set_other [OF st, of _ "[''revoked'', pc]" False ?d w] r(2) False
    by (simp add: gr)
qed

lemma agrees_unrevoke:
  assumes st: "store_laws st" and a: "agrees parse st w gr" and s: "grant_step fmt st w (Unrevoke pc) = Some w'"
  shows "agrees parse st w' (grant_spec gr (Unrevoke pc))"
proof (cases "pc = []")
  case True
  then show ?thesis using a s by (cases gr) (auto simp: clear_revoked_def agrees_def)
next
  case False
  obtain g rv where gr: "gr = (g, rv)" by (cases gr)
  have r: "fst (st_del st [''revoked'', pc] w)" "snd (st_del st [''revoked'', pc] w) = w'"
    using s False by (auto simp: clear_revoked_def split: prod.splits if_splits)
  have "st_get st w' [''revoked'', pc] = None" using del_same [OF st r(1)] r(2) by simp
  then show ?thesis
    using agrees_revoked [OF a [unfolded gr] False, of w' "rv - {pc}"] del_other [OF st, of _ "[''revoked'', pc]" w] r(2) False
    by (simp add: gr)
qed

lemma agrees_step:
  assumes "store_laws st" and "\<And>t. parse (fmt t) = Some t" and "agrees parse st w gr" and "grant_step fmt st w op = Some w'"
  shows "agrees parse st w' (grant_spec gr op)"
proof (cases op)
  case Grant
  show ?thesis unfolding Grant by (rule agrees_grant [OF assms(1-3) assms(4) [unfolded Grant]])
next
  case Revoke
  show ?thesis unfolding Revoke by (rule agrees_revoke [OF assms(1,3) assms(4) [unfolded Revoke]])
next
  case Unrevoke
  show ?thesis unfolding Unrevoke by (rule agrees_unrevoke [OF assms(1,3) assms(4) [unfolded Unrevoke]])
qed

lemma agrees_run:
  assumes "store_laws st" "\<And>t. parse (fmt t) = Some t"
  shows "agrees parse st w gr \<Longrightarrow> run_steps (grant_step fmt st) w ops = Some w' \<Longrightarrow>
    agrees parse st w' (foldl grant_spec gr ops)"
proof (induction ops arbitrary: w gr)
  case (Cons op ops)
  then obtain w1 where s: "grant_step fmt st w op = Some w1" and r: "run_steps (grant_step fmt st) w1 ops = Some w'"
    by (auto simp: bind_Some_conv)
  have "agrees parse st w1 (grant_spec gr op)" by (rule agrees_step [OF assms Cons.prems(1) s])
  from Cons.IH [OF this r] show ?case by simp
qed simp

lemma check_agrees:
  assumes "agrees parse st w gr"
  shows "check_relay_grant parse st now sid role w = admitted gr now sid role"
proof (cases "sid = [] \<or> \<not> good_role role")
  case True
  then have "fst gr (sid, role) = None" using assms by (auto simp: agrees_def)
  then show ?thesis using True by (cases gr) (simp add: check_relay_grant_def admitted_def)
next
  case False
  then have d: "grant_doc parse (st_get st w [''relaygrants'', relay_grant_id sid role]) (fst gr (sid, role))"
    using assms by (auto simp: agrees_def)
  have ne: "[] \<notin> snd gr"
    and rd: "\<And>pc. pc \<noteq> [] \<Longrightarrow> (st_get st w [''revoked'', pc] \<noteq> None) = (pc \<in> snd gr)"
    using assms by (auto simp: agrees_def)
  have rv: "is_revoked st w pc \<longleftrightarrow> pc \<in> snd gr" for pc
    using ne rd [of pc] by (cases "pc = []") (auto simp: is_revoked_def)
  obtain g r where gr: "gr = (g, r)" by (cases gr)
  show ?thesis
  proof (cases "st_get st w [''relaygrants'', relay_grant_id sid role]")
    case None
    then show ?thesis using d False
      by (cases "g (sid, role)") (auto simp: check_relay_grant_def admitted_def grant_doc_def gr)
  next
    case (Some doc)
    with d gr obtain pc t where g: "g (sid, role) = Some (pc, t)" "fld doc ''pc'' = pc" "parse (fld doc ''exp'') = Some t"
      by (cases "g (sid, role)") (auto simp: grant_doc_def)
    have "check_relay_grant parse st now sid role w \<longleftrightarrow> now < t \<and> \<not> (pc \<noteq> [] \<and> pc \<in> r)"
      using False Some g(2,3) rv [of pc] gr by (simp add: check_relay_grant_def)
    moreover have "admitted gr now sid role \<longleftrightarrow> now < t \<and> pc \<notin> r" using g(1) gr by (simp add: admitted_def)
    ultimately show ?thesis using ne gr by auto
  qed
qed

section \<open>Pushing the status\<close>

definition doc_path :: "bytes \<Rightarrow> doc \<Rightarrow> path" where
  "doc_path pc s = sessions_path pc @ [session_doc_key s]"

text \<open>The document of a session before and after a push.\<close>

definition pushed :: "(doc option \<Rightarrow> doc \<Rightarrow> doc option) \<Rightarrow> doc \<Rightarrow> doc option \<Rightarrow> doc option \<Rightarrow> bool" where
  "pushed chg s old new \<longleftrightarrow>
     (case chg old s of None \<Rightarrow> new = old | Some d \<Rightarrow> (\<exists>e. new = Some e \<and> map_of e = map_of d))"

text \<open>The first session of the list: it is written or left alone, and the rest goes on from there.\<close>

lemma push_first:
  assumes st: "store_laws st" and r: "push_sessions st chg pc (s # ss) n w = (True, n', w')"
  shows "\<exists>w1. push_sessions st chg pc ss (n + (if chg (st_get st w (doc_path pc s)) s = None then 0 else 1)) w1 = (True, n', w')
    \<and> (\<forall>q. q \<noteq> doc_path pc s \<longrightarrow> st_get st w1 q = st_get st w q)
    \<and> pushed chg s (st_get st w (doc_path pc s)) (st_get st w1 (doc_path pc s))"
proof (cases "chg (st_get st w (doc_path pc s)) s")
  case None
  then show ?thesis using r by (intro exI [of _ w]) (simp add: doc_path_def pushed_def)
next
  case (Some d)
  let ?p = "doc_path pc s"
  obtain ok w1 where x: "st_set st False ?p d w = (ok, w1)" by (cases "st_set st False ?p d w")
  have "push_sessions st chg pc (s # ss) n w = (if ok then push_sessions st chg pc ss (Suc n) w1 else (False, Suc n, w1))"
    using x Some by (simp add: doc_path_def Let_def)
  with r have ok: "ok" and r1: "push_sessions st chg pc ss (Suc n) w1 = (True, n', w')" by (cases ok; simp)+
  have "\<exists>e. st_get st w1 ?p = Some e \<and> map_of e = map_of d"
    using set_same [OF st, of False ?p d w] x ok by (auto simp: written_def)
  moreover have "\<forall>q. q \<noteq> ?p \<longrightarrow> st_get st w1 q = st_get st w q"
    using set_other [OF st, of _ ?p False d w] x by simp
  ultimately show ?thesis using r1 Some by (intro exI [of _ w1]) (simp add: pushed_def)
qed

lemma push_sessions_effect:
  assumes st: "store_laws st"
  shows "push_sessions st chg pc ss n w = (True, n', w') \<Longrightarrow> distinct (map session_doc_key ss) \<Longrightarrow>
    (\<forall>s \<in> set ss. pushed chg s (st_get st w (doc_path pc s)) (st_get st w' (doc_path pc s)))
    \<and> (\<forall>q. q \<notin> doc_path pc ` set ss \<longrightarrow> st_get st w' q = st_get st w q)
    \<and> n' = n + length (filter (\<lambda>s. chg (st_get st w (doc_path pc s)) s \<noteq> None) ss)"
proof (induction ss arbitrary: n w)
  case (Cons s ss)
  let ?p = "doc_path pc s"
  let ?m = "n + (if chg (st_get st w ?p) s = None then 0 else 1)"
  have dis: "distinct (map session_doc_key ss)" using Cons.prems(2) by simp
  have new: "?p \<notin> doc_path pc ` set ss" using Cons.prems(2) by (auto simp: doc_path_def)
  obtain w1 where r: "push_sessions st chg pc ss ?m w1 = (True, n', w')"
    and o1: "\<forall>q. q \<noteq> ?p \<longrightarrow> st_get st w1 q = st_get st w q" and s1: "pushed chg s (st_get st w ?p) (st_get st w1 ?p)"
    using push_first [OF st Cons.prems(1)] by blast
  note ih = Cons.IH [OF r dis]
  have old: "st_get st w1 (doc_path pc x) = st_get st w (doc_path pc x)" if "x \<in> set ss" for x
    using o1 new that by (metis imageI)
  have "filter (\<lambda>s. chg (st_get st w1 (doc_path pc s)) s \<noteq> None) ss = filter (\<lambda>s. chg (st_get st w (doc_path pc s)) s \<noteq> None) ss"
    by (rule filter_cong [OF refl]) (simp add: old)
  then have n: "n' = n + length (filter (\<lambda>s. chg (st_get st w (doc_path pc s)) s \<noteq> None) (s # ss))"
    using ih [THEN conjunct2, THEN conjunct2] by simp
  have "st_get st w' ?p = st_get st w1 ?p" using ih new by blast
  then have "\<forall>x \<in> set (s # ss). pushed chg x (st_get st w (doc_path pc x)) (st_get st w' (doc_path pc x))"
    using s1 ih [THEN conjunct1] old by auto
  moreover have "st_get st w' q = st_get st w q" if "q \<notin> doc_path pc ` set (s # ss)" for q
    using ih [THEN conjunct2, THEN conjunct1] o1 that by (metis image_insert insertCI list.simps(15))
  ultimately show ?case using n by blast
qed simp

lemma push_doc_hash:
  "push_doc sha json fmt now old s = Some d \<Longrightarrow> fld d ''content_hash'' = content_hash sha json s"
  by (auto simp: push_doc_def Let_def put_field_def fld_def split: option.splits if_splits)

lemma push_doc_None:
  "push_doc sha json fmt now old s = None \<longleftrightarrow> (\<exists>d. old = Some d \<and> fld d ''content_hash'' = content_hash sha json s)"
  by (auto simp: push_doc_def Let_def split: option.splits if_splits)

lemma push_sessions_idle:
  "\<forall>s \<in> set ss. chg (st_get st w (doc_path pc s)) s = None \<Longrightarrow> push_sessions st chg pc ss n w = (True, n, w)"
  by (induction ss) (auto simp: doc_path_def)

lemma push_status_effect:
  assumes st: "store_laws st" and dis: "distinct (map session_doc_key ss)"
    and p: "push_status sha json fmt st now pc ss w = (True, n, w')"
  shows "n = length (filter (\<lambda>s. push_doc sha json fmt now (st_get st w (doc_path pc s)) s \<noteq> None) ss)"
    and "\<And>s. s \<in> set ss \<Longrightarrow>
      pushed (push_doc sha json fmt now) s (st_get st w (doc_path pc s)) (st_get st w' (doc_path pc s))"
proof -
  let ?f = "push_doc sha json fmt now"
  obtain w1 where r: "push_sessions st ?f pc ss 0 w = (True, n, w1)"
    and s: "\<And>q. q \<noteq> [''pcs'', pc] \<Longrightarrow> st_get st w' q = st_get st w1 q"
    using p set_other [OF st] by (auto simp: push_status_def split: prod.splits if_splits)
  note e = push_sessions_effect [OF st r dis]
  show "n = length (filter (\<lambda>s. ?f (st_get st w (doc_path pc s)) s \<noteq> None) ss)" using e by simp
  fix x assume x: "x \<in> set ss"
  have "doc_path pc x \<noteq> [''pcs'', pc]" by (simp add: doc_path_def sessions_path_def)
  then show "pushed ?f x (st_get st w (doc_path pc x)) (st_get st w' (doc_path pc x))"
    using e [THEN conjunct1, rule_format, OF x] s by simp
qed

lemma push_again:
  assumes st: "store_laws st" and dis: "distinct (map session_doc_key ss)"
    and p: "push_status sha json fmt st now pc ss w = (True, n, w')"
  shows "push_status sha json fmt st now' pc ss w' = (True, 0, w')"
proof -
  have "push_doc sha json fmt now' (st_get st w' (doc_path pc s)) s = None" if s: "s \<in> set ss" for s
  proof (cases "push_doc sha json fmt now (st_get st w (doc_path pc s)) s")
    case None
    then have "st_get st w' (doc_path pc s) = st_get st w (doc_path pc s)"
      using push_status_effect(2) [OF st dis p s] by (simp add: pushed_def)
    then show ?thesis using None by (simp add: push_doc_None)
  next
    case (Some d)
    then obtain e where "st_get st w' (doc_path pc s) = Some e" "map_of e = map_of d"
      using push_status_effect(2) [OF st dis p s] by (auto simp: pushed_def)
    then show ?thesis using push_doc_hash [OF Some] by (auto simp: push_doc_None fld_def)
  qed
  then have "push_sessions st (push_doc sha json fmt now') pc ss 0 w' = (True, 0, w')"
    by (intro push_sessions_idle) auto
  then show ?thesis by (simp add: push_status_def)
qed

section \<open>Pairing codes\<close>

lemma pairing_once:
  assumes "store_laws st" "fst (st_del st [''pairings'', code] w)"
    "consume_pairing parse st now code w = (r, w')"
  shows "fst (consume_pairing parse st now' code w') = None"
  using assms del_same [OF assms(1,2)]
  by (auto simp: consume_pairing_def split: option.splits)

text \<open>
  The read and the deletion are two calls to Firestore. A consumer between its calls: it has not read yet, it has read a
  document, or it has its result. \<open>turns\<close> tells whose call comes next.
\<close>

datatype consumer = Waiting | HasDoc doc | Result "(bytes \<times> bytes) option"

fun consumer_call ::
  "(bytes \<Rightarrow> int option) \<Rightarrow> 'w store \<Rightarrow> int \<Rightarrow> bytes \<Rightarrow> consumer \<times> 'w \<Rightarrow> consumer \<times> 'w" where
  "consumer_call parse st now code (Waiting, w) =
     (case st_get st w [''pairings'', code] of None \<Rightarrow> (Result None, w) | Some d \<Rightarrow> (HasDoc d, w))"
| "consumer_call parse st now code (HasDoc d, w) =
     (Result (pairing_result parse now d), snd (st_del st [''pairings'', code] w))"
| "consumer_call parse st now code (Result r, w) = (Result r, w)"

fun consumers ::
  "(bytes \<Rightarrow> int option) \<Rightarrow> 'w store \<Rightarrow> int \<Rightarrow> bytes \<Rightarrow> bool list \<Rightarrow> consumer \<times> consumer \<times> 'w \<Rightarrow> consumer \<times> consumer \<times> 'w"
where
  "consumers parse st now code [] x = x"
| "consumers parse st now code (first # turns) (a, b, w) =
     (if first then (case consumer_call parse st now code (a, w) of (a, w) \<Rightarrow> consumers parse st now code turns (a, b, w))
      else (case consumer_call parse st now code (b, w) of (b, w) \<Rightarrow> consumers parse st now code turns (a, b, w)))"

lemma consumer_alone:
  "consumer_call parse st now code (consumer_call parse st now code (Waiting, w))
   = (case consume_pairing parse st now code w of (r, w) \<Rightarrow> (Result r, w))"
  by (simp add: consume_pairing_def split: option.split)

text \<open>Two requests with the same code whose calls alternate are both accepted: the code is not consumed once.\<close>

lemma pairing_consumed_twice:
  assumes "st_get st w [''pairings'', code] = Some d" "pairing_result parse now d = Some x"
  shows "\<exists>w'. consumers parse st now code [True, False, True, False] (Waiting, Waiting, w)
    = (Result (Some x), Result (Some x), w')"
  using assms by simp

section \<open>The waits of the subscription loop\<close>

text \<open>\<open>wait_at n\<close>: the wait after the \<open>n\<close>-th subscription that ended by itself.\<close>

definition wait_at :: "nat \<Rightarrow> int" where
  "wait_at n = min watch_backoff_max (watch_backoff_min * 2 ^ n)"

lemma wait_at_Suc:
  "(if watch_backoff_max < wait_at n * 2 then watch_backoff_max else wait_at n * 2) = wait_at (Suc n)"
  by (auto simp: wait_at_def watch_backoff_max_def watch_backoff_min_def min_def)

lemma keep_subscribed_from:
  assumes "keep_subscribed (wait_at k) its = (ws, r)"
  shows "ws = map wait_at [k..<k + length ws]
    \<and> (r \<longleftrightarrow> (\<exists>(b, a, d) \<in> set its. b \<or> a \<or> d))
    \<and> (\<not> r \<longrightarrow> length ws = length its)"
  using assms
proof (induction its arbitrary: k ws r)
  case (Cons it its)
  obtain b a d where it: "it = (b, a, d)" by (cases it)
  show ?case
  proof (cases "b \<or> a \<or> d")
    case True
    then have "ws = [] \<and> r \<or> ws = [wait_at k] \<and> r" using Cons.prems it by (simp split: if_splits)
    then show ?thesis using True it by (elim disjE conjE) force+
  next
    case False
    obtain ws' where w: "keep_subscribed (wait_at (Suc k)) its = (ws', r)" "ws = wait_at k # ws'"
      using Cons.prems it False wait_at_Suc [of k] by (auto simp: Let_def split: prod.splits)
    from Cons.IH [OF w(1)] have ih: "ws' = map wait_at [Suc k..<Suc k + length ws']"
      "r \<longleftrightarrow> (\<exists>(b, a, d) \<in> set its. b \<or> a \<or> d)" "\<not> r \<longrightarrow> length ws' = length its" by blast+
    have "[k..<k + length ws] = k # [Suc k..<Suc k + length ws']" using w(2) upt_conv_Cons [of k "k + length ws"] by simp
    then have "ws = map wait_at [k..<k + length ws]" using ih(1) [symmetric] w(2) by simp
    then show ?thesis using ih(2,3) w(2) it False by auto
  qed
qed simp

section \<open>Claims\<close>

text \<open>An encoding of instants with an inverse, for the examples.\<close>

definition demo_fmt :: "int \<Rightarrow> bytes" where
  "demo_fmt t = (if 0 \<le> t then replicate (nat t) (CHR ''x'') else CHR ''-'' # replicate (nat (- t)) (CHR ''x''))"

definition demo_parse :: "bytes \<Rightarrow> int option" where
  "demo_parse s = (case s of [] \<Rightarrow> Some 0 | c # r \<Rightarrow> Some (if c = CHR ''-'' then - int (length r) else int (length s)))"

lemma demo_parse_fmt: "demo_parse (demo_fmt t) = Some t"
proof (cases "0 < t")
  case True
  then obtain n where "nat t = Suc n" by (cases "nat t") auto
  moreover from this have "t = int (Suc n)" by linarith
  ultimately show ?thesis by (simp add: demo_fmt_def demo_parse_def)
qed (auto simp: demo_fmt_def demo_parse_def)

text \<open>C8: The documents of the relay grants implement their abstract specification: after any sequence of grants,
  revocations and their withdrawals that Firestore accepted, a session and role are admitted exactly when the latest
  grant for that very pair has not expired and its machine is not revoked. An id that is the session's with the role
  appended never confuses two pairs.\<close>
theorem grants_admit_exactly:
  assumes "store_laws st" "\<And>t. parse (fmt t) = Some t" "\<And>p. st_get st w p = None"
    and "run_steps (grant_step fmt st) w ops = Some w'"
  shows "check_relay_grant parse st now sid role w' = admitted (foldl grant_spec (Map.empty, {}) ops) now sid role"
proof (rule check_agrees, rule agrees_run [OF assms(1,2) _ assms(4)])
  show "agrees parse st w (Map.empty, {})" using assms(3) by (simp add: agrees_def grant_doc_def)
qed

theorem grants_admit_exactly_witness:
  "\<exists>w'. run_steps (grant_step demo_fmt demo_store) Map.empty
       [Grant ''pc'' ''s'' ''source'' 60 0, Grant ''web'' ''s'' ''viewer'' 60 0, Revoke ''pc'' 5] = Some w'
     \<and> check_relay_grant demo_parse demo_store 10 ''s'' ''viewer'' w'
     \<and> \<not> check_relay_grant demo_parse demo_store 60 ''s'' ''viewer'' w'
     \<and> \<not> check_relay_grant demo_parse demo_store 10 ''s'' ''source'' w'"
proof -
  let ?ops = "[Grant ''pc'' ''s'' ''source'' 60 0, Grant ''web'' ''s'' ''viewer'' 60 0, Revoke ''pc'' 5]"
  obtain w' where w: "run_steps (grant_step demo_fmt demo_store) Map.empty ?ops = Some w'"
    by (simp add: put_relay_grant_def good_role_def set_revoked_def demo_store_def)
  note c = grants_admit_exactly [OF demo_store_laws demo_parse_fmt _ w]
  have e: "\<And>p. st_get demo_store Map.empty p = None" by (simp add: demo_store_def)
  show ?thesis
    using w c [OF e, of 10 "''s''" "''viewer''"] c [OF e, of 60 "''s''" "''viewer''"] c [OF e, of 10 "''s''" "''source''"]
    by (intro exI [of _ w']) (simp add: admitted_def good_role_def)
qed



text \<open>A subscription never gives up: the loop returns exactly when its context has ended, and otherwise it subscribes
  again after waits that double from 0.2 seconds and stop growing at 5 seconds.\<close>
theorem subscription_kept:
  "case keep_subscribed watch_backoff_min its of (ws, returned) \<Rightarrow>
     ws = map wait_at [0..<length ws] \<and> returned = list_ex (\<lambda>(before, after, during). before \<or> after \<or> during) its
     \<and> (returned \<or> length ws = length its)"
proof -
  obtain ws r where k: "keep_subscribed watch_backoff_min its = (ws, r)" by (cases "keep_subscribed watch_backoff_min its")
  have "wait_at 0 = watch_backoff_min" by (simp add: wait_at_def watch_backoff_min_def watch_backoff_max_def)
  with keep_subscribed_from [of 0 its ws r] k show ?thesis by (auto simp: list_ex_iff)
qed

end
