(* ===== verification/CloudAgent.thy ===== *)
theory CloudAgent
  imports CloudState Tmux
begin

text \<open>
  \<open>internal/cloud/agent\<close> (\<open>agent.go\<close>, \<open>commands.go\<close>, \<open>proxyrestart.go\<close>) and \<open>internal/cloud/relay\<close>: bridging a session
  to the relay when it is woken, running remote commands, restarting a proxy so that its conversation is kept, and the
  idle cut of a data line. Firestore is the parameter of \<open>CloudState\<close>; the network, processes and files are parameters.
\<close>

section \<open>Waking a session\<close>

text \<open>
  Every wake starts a goroutine that runs \<open>handleWake\<close>. The points between its steps: before the test for revocation,
  before the lock, with the session entered in \<open>active\<close>, with the data line open, after it, and finished. A goroutine
  that ends leaves through the deferred function.
\<close>

datatype wake_pc = Started | Checked | Claimed | Bridging bytes | Leaving | Finished

record 'w agent =
  ag_active :: "bytes set"
  ag_tasks :: "(bytes \<times> wake_pc) list"
  ag_store :: 'w

record 'w agent_env =
  ae_store :: "'w store"
  ae_pc :: bytes
  ae_fmt :: "int \<Rightarrow> bytes"
  ae_resolve :: "bytes \<Rightarrow> bytes option"

text \<open>A wake arrives; the goroutine of index \<open>i\<close> takes its next step, at a given time.\<close>

datatype agent_event = Woken bytes | Step nat int

definition source_ttl :: int where "source_ttl = 60000000000"

definition wake_step :: "'w agent_env \<Rightarrow> int \<Rightarrow> bytes \<Rightarrow> wake_pc \<Rightarrow> bytes set \<times> 'w \<Rightarrow> wake_pc \<times> bytes set \<times> 'w" where
  "wake_step env now sid pc aw =
     (case aw of (act, w) \<Rightarrow>
        (case pc of
           Started \<Rightarrow> if is_revoked (ae_store env) w (ae_pc env) then (Finished, act, w) else (Checked, act, w)
         | Checked \<Rightarrow> if sid \<in> act then (Finished, act, w) else (Claimed, insert sid act, w)
         | Claimed \<Rightarrow>
             (case ae_resolve env sid of
                None \<Rightarrow> (Leaving, act, w)
              | Some sock \<Rightarrow>
                  (Bridging sock, act,
                   snd (put_relay_grant (ae_fmt env) (ae_store env) now (ae_pc env) sid ''source'' source_ttl w)))
         | Bridging sock \<Rightarrow> (Leaving, act, w)
         | Leaving \<Rightarrow> (Finished, act - {sid}, w)
         | Finished \<Rightarrow> (Finished, act, w)))"

definition agent_step :: "'w agent_env \<Rightarrow> 'w agent \<Rightarrow> agent_event \<Rightarrow> 'w agent" where
  "agent_step env a ev =
     (case ev of
        Woken sid \<Rightarrow> a\<lparr>ag_tasks := ag_tasks a @ [(sid, Started)]\<rparr>
      | Step i now \<Rightarrow>
          (if i < length (ag_tasks a) then
             (case ag_tasks a ! i of (sid, pc) \<Rightarrow>
                (case wake_step env now sid pc (ag_active a, ag_store a) of (pc, act, w) \<Rightarrow>
                   a\<lparr>ag_active := act, ag_tasks := (ag_tasks a)[i := (sid, pc)], ag_store := w\<rparr>))
           else a))"

definition new_agent :: "'w \<Rightarrow> 'w agent" where
  "new_agent w = \<lparr>ag_active = {}, ag_tasks = [], ag_store = w\<rparr>"

definition agent_run :: "'w agent_env \<Rightarrow> 'w \<Rightarrow> agent_event list \<Rightarrow> 'w agent" where
  "agent_run env w evs = foldl (agent_step env) (new_agent w) evs"

section \<open>The data line\<close>

text \<open>
  \<open>idlePump\<close> on the events it sees, with their times: bytes read from either side, an end of one side, a tick of the
  timer. The result is the time at which both sides are closed; \<open>None\<close> when the events run out first. With \<open>idle \<le> 0\<close>
  the line is only closed by its end.
\<close>

datatype line_event = Bytes int | Ended int | Tick int

fun idle_pump :: "int \<Rightarrow> int \<Rightarrow> line_event list \<Rightarrow> int option" where
  "idle_pump idle bumped [] = None"
| "idle_pump idle bumped (Bytes t # es) = idle_pump idle t es"
| "idle_pump idle bumped (Ended t # es) = Some t"
| "idle_pump idle bumped (Tick t # es) = (if 0 < idle \<and> idle \<le> t - bumped then Some t else idle_pump idle bumped es)"

text \<open>The period of the timer: \<open>time.NewTicker\<close> panics when it is not positive.\<close>

definition tick_period :: "int \<Rightarrow> int option" where
  "tick_period idle = (if idle \<le> 0 then Some 0 else if idle div 2 \<le> 0 then None else Some (idle div 2))"

text \<open>The address that \<open>Dial\<close> asks for.\<close>

definition dial_url :: "bytes \<Rightarrow> bytes \<Rightarrow> bytes \<Rightarrow> bytes" where
  "dial_url base sid role = base @ ''/session?sid='' @ sid @ ''&role='' @ role"

datatype line_act = DialRelay bytes | DialSocket bytes | Pump | CloseSocket | CloseRelay

text \<open>\<open>BridgeSource\<close> and \<open>BridgeSourceIdle\<close>: whether each side could be reached; what is done, and whether it succeeded.\<close>

definition bridge_source :: "bytes \<Rightarrow> bytes \<Rightarrow> bytes \<Rightarrow> bool \<Rightarrow> bool \<Rightarrow> line_act list \<times> bool" where
  "bridge_source base sid sock relay_ok sock_ok =
     (let d = DialRelay (dial_url base sid ''source'') in
      if \<not> relay_ok then ([d], False)
      else if \<not> sock_ok then ([d, DialSocket sock, CloseRelay], False)
      else ([d, DialSocket sock, Pump, CloseSocket, CloseRelay], True))"

section \<open>Remote commands\<close>

text \<open>
  \<open>CommandRunner\<close>: which actions are wired, and what they return. An update gives the tag and whether it changed
  anything, or an error text; a proxy restart gives an error text or nothing.
\<close>

record 'w runner =
  cr_revoked :: "('w \<Rightarrow> bool) option"
  cr_restart :: bool
  cr_update :: "(bytes \<times> bool, bytes) sum option"
  cr_proxy :: "(bytes \<Rightarrow> bytes option) option"

datatype act = Ack bytes bytes bytes | DoRestart | DoUpdate | DoProxy bytes

definition ack_ok :: "command \<Rightarrow> bytes \<Rightarrow> act" where
  "ack_ok cm d = Ack (cmd_id cm) ''done'' d"

definition ack_error :: "command \<Rightarrow> bytes \<Rightarrow> act" where
  "ack_error cm d = Ack (cmd_id cm) ''error'' d"

definition jp :: "rune list \<Rightarrow> bytes" where
  "jp rs = string_of_runes rs"

definition handle_command :: "'w store \<Rightarrow> bytes \<Rightarrow> 'w runner \<Rightarrow> 'w \<Rightarrow> command \<Rightarrow> act list" where
  "handle_command st pc cr w cm =
     (if (case cr_revoked cr of Some f \<Rightarrow> f w | None \<Rightarrow> is_revoked st w pc)
      then [ack_error cm (''revoked: '' @ jp [23455, 34892, 25298, 21542])]
      else if cmd_cmd cm = ''restart-agent'' then
        (if \<not> cr_restart cr then [ack_error cm (''restart '' @ jp [26410, 37197, 32218])]
         else [ack_ok cm (''launchd 2'' @ jp [12487, 12540, 12514, 12531, 20877, 36215, 21205, 12434, 23455, 34892]), DoRestart])
      else if cmd_cmd cm = ''self-update'' then
        (case cr_update cr of
           None \<Rightarrow> [ack_error cm (''update '' @ jp [26410, 37197, 32218])]
         | Some (Inr e) \<Rightarrow> [DoUpdate, ack_error cm (jp [26356, 26032, 22833, 25943] @ '': '' @ e)]
         | Some (Inl (tag, up)) \<Rightarrow>
             if \<not> up then [DoUpdate, ack_ok cm (jp [26082, 12395, 26368, 26032] @ '': '' @ tag)]
             else [DoUpdate, ack_ok cm (jp [26356, 26032] @ '' '' @ tag @ jp [8594, 20877, 36215, 21205, 12434, 23455, 34892])]
               @ (if cr_restart cr then [DoRestart] else []))
      else if cmd_cmd cm = ''restart-proxy'' then
        (case cr_proxy cr of
           None \<Rightarrow> [ack_error cm (''restart-proxy '' @ jp [26410, 37197, 32218] @ ''(Phase3)'')]
         | Some f \<Rightarrow>
             (case f (cmd_sid cm) of
                Some e \<Rightarrow> [DoProxy (cmd_sid cm), ack_error cm (''proxy '' @ jp [20877, 36215, 21205, 22833, 25943] @ '': '' @ e)]
              | None \<Rightarrow> [DoProxy (cmd_sid cm), ack_ok cm (''proxy '' @ jp [12434] @ '' --resume '' @ jp [20877, 36215, 21205]
                  @ '': '' @ cmd_sid cm)]))
      else [ack_error cm (jp [26410, 30693, 12398, 12467, 12510, 12531, 12489] @ '': '' @ cmd_cmd cm)])"

text \<open>The acknowledgements among the actions are written to the store.\<close>

definition do_act :: "(int \<Rightarrow> bytes) \<Rightarrow> 'w store \<Rightarrow> int \<Rightarrow> bytes \<Rightarrow> 'w \<Rightarrow> act \<Rightarrow> 'w" where
  "do_act fmt st now pc w x =
     (case x of Ack i status detail \<Rightarrow> snd (ack_command fmt st now pc i status detail w) | _ \<Rightarrow> w)"

text \<open>\<open>Run\<close>: one change of a snapshot is claimed, handled and acknowledged.\<close>

definition run_change ::
  "(int \<Rightarrow> bytes) \<Rightarrow> 'w store \<Rightarrow> bytes \<Rightarrow> 'w runner \<Rightarrow> int \<Rightarrow> bool \<times> command option \<Rightarrow> 'w
   \<Rightarrow> (bytes \<times> act list) option \<times> 'w" where
  "run_change fmt st pc cr now ch w =
     (case watch_change st pc ch w of
        (None, w) \<Rightarrow> (None, w)
      | (Some cm, w) \<Rightarrow>
          (let acts = handle_command st pc cr w cm
           in (Some (cmd_id cm, acts), foldl (do_act fmt st now pc) w acts)))"

section \<open>Restarting a proxy\<close>

definition is_resumable :: "bytes \<Rightarrow> bool" where
  "is_resumable sid \<longleftrightarrow> session_id_re sid"

function strip_slash :: "bytes \<Rightarrow> bytes" where
  "strip_slash p = (if 1 < length p \<and> last p = CHR ''/'' then strip_slash (butlast p) else p)"
  by pat_completeness auto
termination
  by (relation "measure length") auto

declare strip_slash.simps [simp del]

definition norm_path :: "bytes \<Rightarrow> bytes" where
  "norm_path p = strip_slash (replace_all p [CHR 0x5C] ''/'')"

text \<open>\<open>eqf\<close> is \<open>strings.EqualFold\<close>.\<close>

definition path_equal :: "os \<Rightarrow> (bytes \<Rightarrow> bytes \<Rightarrow> bool) \<Rightarrow> bytes \<Rightarrow> bytes \<Rightarrow> bool" where
  "path_equal os eqf a b =
     (case os of Windows \<Rightarrow> eqf (norm_path a) (norm_path b) | Unix \<Rightarrow> norm_path a = norm_path b)"

text \<open>The records of a conversation file as the JSON decoder gives them: \<open>None\<close> is one that cannot be decoded.\<close>

fun jsonl_cwd_from :: "nat \<Rightarrow> obj option list \<Rightarrow> bytes option" where
  "jsonl_cwd_from 0 rs = None"
| "jsonl_cwd_from (Suc n) [] = None"
| "jsonl_cwd_from (Suc n) (None # rs) = None"
| "jsonl_cwd_from (Suc n) (Some m # rs) =
     (case m ''cwd'' of
        Some (AStr c) \<Rightarrow> if c \<noteq> [] then Some c else jsonl_cwd_from n rs
      | _ \<Rightarrow> jsonl_cwd_from n rs)"

text \<open>\<open>file\<close> is \<open>None\<close> when the file cannot be opened.\<close>

definition jsonl_cwd :: "obj option list option \<Rightarrow> bytes option" where
  "jsonl_cwd file = (case file of None \<Rightarrow> None | Some rs \<Rightarrow> jsonl_cwd_from 30 rs)"

record jsonl =
  jl_name :: bytes
  jl_dir :: bool
  jl_records :: "obj option list option"
  jl_mtime :: "int option"

record proj_dir =
  pd_dir :: bool
  pd_files :: "jsonl list option"

text \<open>One file: the session and its time, if its recorded directory is the one that is looked for.\<close>

definition jsonl_match :: "os \<Rightarrow> (bytes \<Rightarrow> bytes \<Rightarrow> bool) \<Rightarrow> bytes \<Rightarrow> jsonl \<Rightarrow> (bytes \<times> int) option" where
  "jsonl_match os eqf cwd f =
     (if jl_dir f \<or> \<not> has_suffix (jl_name f) ''.jsonl'' then None
      else let uuid = trim_suffix (jl_name f) ''.jsonl'' in
        if \<not> is_resumable uuid then None
        else case jsonl_cwd (jl_records f) of
            None \<Rightarrow> None
          | Some c \<Rightarrow> if \<not> path_equal os eqf c cwd then None else map_option (\<lambda>m. (uuid, m)) (jl_mtime f))"

definition newer :: "(bytes \<times> int) \<Rightarrow> (bytes \<times> int) \<Rightarrow> bytes \<times> int" where
  "newer best x = (if snd best < snd x then x else best)"

definition proj_files :: "proj_dir \<Rightarrow> jsonl list" where
  "proj_files d = (if pd_dir d then (case pd_files d of None \<Rightarrow> [] | Some fs \<Rightarrow> fs) else [])"

definition resolve_claude_uuid ::
  "os \<Rightarrow> (bytes \<Rightarrow> bytes \<Rightarrow> bool) \<Rightarrow> proj_dir list option \<Rightarrow> bytes \<Rightarrow> bytes option" where
  "resolve_claude_uuid os eqf root cwd =
     (case root of
        None \<Rightarrow> None
      | Some ds \<Rightarrow>
          (let best = fst (foldl newer ([], - 1) (List.map_filter (jsonl_match os eqf cwd) (concat (map proj_files ds))))
           in if best \<noteq> [] then Some best else None))"

text \<open>\<open>ProxyRestarter\<close>; \<open>pr_kill\<close> and \<open>pr_spawn\<close> tell whether the call succeeds.\<close>

record restarter =
  pr_lookup :: "(bytes \<Rightarrow> (int \<times> bytes) option) option"
  pr_resolve :: "(bytes \<Rightarrow> bytes option) option"
  pr_kill :: "(int \<Rightarrow> bool) option"
  pr_spawn :: "(bytes \<Rightarrow> bytes \<Rightarrow> bool) option"

datatype restart_act = Killed int | Spawned bytes bytes

datatype restart_error = NotWired | NotFound bytes | NoResolver | NoConversation bytes | KillFailed int | SpawnFailed

definition resume_uuid :: "restarter \<Rightarrow> bytes \<Rightarrow> bytes \<Rightarrow> restart_error + bytes" where
  "resume_uuid p sid cwd =
     (if is_resumable sid then Inr sid
      else case pr_resolve p of
          None \<Rightarrow> Inl NoResolver
        | Some f \<Rightarrow> (case f cwd of
              None \<Rightarrow> Inl (NoConversation cwd)
            | Some u \<Rightarrow> if \<not> is_resumable u then Inl (NoConversation cwd) else Inr u))"

text \<open>The calls made, in order, and the error.\<close>

definition restart_proxy :: "restarter \<Rightarrow> bytes \<Rightarrow> restart_act list \<times> restart_error option" where
  "restart_proxy p sid =
     (case (pr_lookup p, pr_kill p, pr_spawn p) of
        (Some lookup, Some kill, Some spawn) \<Rightarrow>
          (case lookup sid of
             None \<Rightarrow> ([], Some (NotFound sid))
           | Some (pid, cwd) \<Rightarrow>
               (case resume_uuid p sid cwd of
                  Inl e \<Rightarrow> ([], Some e)
                | Inr uuid \<Rightarrow>
                    if \<not> kill pid then ([Killed pid], Some (KillFailed pid))
                    else if \<not> spawn uuid cwd then ([Killed pid, Spawned uuid cwd], Some SpawnFailed)
                    else ([Killed pid, Spawned uuid cwd], None)))
      | _ \<Rightarrow> ([], Some NotWired))"

end
