(* ===== verification/AgentProps.thy ===== *)
theory AgentProps
  imports CloudProps CloudAgent
begin

text \<open>
  Properties of the cloud agent: one data line per session, idle lines are cut in time, a remote command runs at most once
  and is acknowledged, and a proxy is only killed when its conversation can be resumed.
\<close>

section \<open>One data line per session\<close>

text \<open>A goroutine holds its session from the lock to its deferred function.\<close>

definition holding :: "wake_pc \<Rightarrow> bool" where
  "holding pc \<longleftrightarrow> (case pc of Claimed \<Rightarrow> True | Bridging _ \<Rightarrow> True | Leaving \<Rightarrow> True | _ \<Rightarrow> False)"

definition held :: "(bytes \<times> wake_pc) list \<Rightarrow> nat \<Rightarrow> bytes \<Rightarrow> bool" where
  "held ts i sid \<longleftrightarrow> i < length ts \<and> fst (ts ! i) = sid \<and> holding (snd (ts ! i))"

definition one_line :: "'w agent \<Rightarrow> bool" where
  "one_line a \<longleftrightarrow> ag_active a = {sid. \<exists>i. held (ag_tasks a) i sid}
     \<and> (\<forall>i j sid. held (ag_tasks a) i sid \<longrightarrow> held (ag_tasks a) j sid \<longrightarrow> i = j)"

lemma held_append: "held (ts @ [(s, Started)]) i sid = held ts i sid"
  by (auto simp: held_def nth_append holding_def split: if_splits)

lemma held_update:
  "i < length ts \<Longrightarrow> held (ts[i := (s, pc)]) j sid = (if j = i then s = sid \<and> holding pc else held ts j sid)"
  by (auto simp: held_def nth_list_update)

lemma wake_step_active:
  assumes "wake_step env now sid pc (act, w) = (pc', act', w')" "holding pc \<Longrightarrow> sid \<in> act"
  shows "(holding pc' \<longrightarrow> holding pc \<or> sid \<notin> act)
    \<and> act' = (if holding pc' then insert sid act else if holding pc then act - {sid} else act)"
  using assms by (auto simp: wake_step_def holding_def split: wake_pc.splits if_splits option.splits)

lemma one_line_task:
  assumes inv: "one_line a" and t: "i < length (ag_tasks a)" "ag_tasks a ! i = (sid, pc)"
    and w: "holding pc' \<longrightarrow> holding pc \<or> sid \<notin> ag_active a"
      "act = (if holding pc' then insert sid (ag_active a) else if holding pc then ag_active a - {sid} else ag_active a)"
  shows "one_line (a\<lparr>ag_active := act, ag_tasks := (ag_tasks a)[i := (sid, pc')], ag_store := w'\<rparr>)"
proof -
  let ?ts = "(ag_tasks a)[i := (sid, pc')]"
  have hi: "held (ag_tasks a) i x \<longleftrightarrow> x = sid \<and> holding pc" for x using t by (auto simp: held_def)
  have act_iff: "x \<in> ag_active a \<longleftrightarrow> (\<exists>j. held (ag_tasks a) j x)" for x using inv by (simp add: one_line_def)
  have uniq: "held (ag_tasks a) j x \<Longrightarrow> held (ag_tasks a) k x \<Longrightarrow> j = k" for j k x using inv by (simp add: one_line_def)
  have up: "held ?ts j x = (if j = i then sid = x \<and> holding pc' else held (ag_tasks a) j x)" for j x
    by (rule held_update [OF t(1)])
  have no_other: "\<not> held (ag_tasks a) j sid" if "j \<noteq> i" "holding pc \<or> holding pc'" for j
    using that uniq [of i sid j] hi w(1) act_iff by blast
  have "x \<in> act \<longleftrightarrow> (\<exists>j. held ?ts j x)" for x
  proof (cases "x = sid")
    case True
    have "(\<exists>j. held ?ts j sid) \<longleftrightarrow> holding pc' \<or> (\<exists>j. j \<noteq> i \<and> held (ag_tasks a) j sid)" using up by metis
    moreover have "(\<exists>j. held (ag_tasks a) j sid) \<longleftrightarrow> holding pc \<or> (\<exists>j. j \<noteq> i \<and> held (ag_tasks a) j sid)" using hi by metis
    ultimately show ?thesis using w act_iff [of sid] no_other \<open>x = sid\<close> by (auto split: if_splits)
  next
    case False
    have "(\<exists>j. held ?ts j x) \<longleftrightarrow> (\<exists>j. held (ag_tasks a) j x)" using up hi False by metis
    then show ?thesis using w(2) act_iff False by (auto split: if_splits)
  qed
  moreover have "j = k" if "held ?ts j x" "held ?ts k x" for j k x
    using that up uniq no_other by (auto split: if_splits)
  ultimately show ?thesis by (auto simp: one_line_def)
qed

lemma agent_step_one_line:
  assumes inv: "one_line a"
  shows "one_line (agent_step env a ev)"
proof (cases ev)
  case (Woken sid)
  then show ?thesis using inv by (simp add: agent_step_def one_line_def held_append)
next
  case (Step i now)
  show ?thesis
  proof (cases "i < length (ag_tasks a)")
    case False
    then show ?thesis using inv Step by (simp add: agent_step_def)
  next
    case True
    obtain sid pc where t: "ag_tasks a ! i = (sid, pc)" by (cases "ag_tasks a ! i")
    obtain pc' act w where s: "wake_step env now sid pc (ag_active a, ag_store a) = (pc', act, w)" by (rule prod_cases3)
    have "held (ag_tasks a) i sid" if "holding pc" using True t that by (simp add: held_def)
    then have "holding pc \<Longrightarrow> sid \<in> ag_active a" using inv by (auto simp: one_line_def)
    note w = wake_step_active [OF s this]
    show ?thesis
      using one_line_task [OF inv True t w [THEN conjunct1] w [THEN conjunct2]] Step True t s by (simp add: agent_step_def)
  qed
qed

lemma agent_run_one_line: "one_line (agent_run env w evs)"
proof (induction evs rule: rev_induct)
  case Nil
  then show ?case by (simp add: agent_run_def new_agent_def one_line_def held_def)
next
  case (snoc ev evs)
  then show ?case using agent_step_one_line by (simp add: agent_run_def)
qed

text \<open>A wake of a session that nobody holds opens the line in three steps.\<close>

lemma wake_opens:
  assumes inv: "one_line a" and free: "\<forall>i. \<not> held (ag_tasks a) i sid"
    and ok: "\<not> is_revoked (ae_store env) (ag_store a) (ae_pc env)" and res: "ae_resolve env sid = Some sock"
  shows "ag_tasks (foldl (agent_step env) a [Woken sid, Step (length (ag_tasks a)) t1, Step (length (ag_tasks a)) t2,
      Step (length (ag_tasks a)) t3]) = ag_tasks a @ [(sid, Bridging sock)]"
proof -
  have "sid \<notin> ag_active a" using inv free by (auto simp: one_line_def)
  then show ?thesis using ok res
    by (simp add: agent_step_def wake_step_def nth_append)
qed

section \<open>Cutting an idle line\<close>

text \<open>Events in time order: \<open>q\<close> is the last tick, \<open>b\<close> the last byte, and a tick comes at most \<open>p\<close> after the one before.\<close>

fun ticking :: "int \<Rightarrow> int \<Rightarrow> int \<Rightarrow> line_event list \<Rightarrow> bool" where
  "ticking p b q [] = True"
| "ticking p b q (Bytes t # es) = (b \<le> t \<and> ticking p t q es)"
| "ticking p b q (Tick t # es) = (t \<le> q + p \<and> ticking p b t es)"
| "ticking p b q (Ended t # es) = False"

text \<open>The time of the last byte, and of the last tick.\<close>

fun last_byte :: "int \<Rightarrow> line_event list \<Rightarrow> int" where
  "last_byte b [] = b"
| "last_byte b (Bytes t # es) = last_byte t es"
| "last_byte b (_ # es) = last_byte b es"

fun last_tick :: "int \<Rightarrow> line_event list \<Rightarrow> int" where
  "last_tick q [] = q"
| "last_tick q (Tick t # es) = last_tick t es"
| "last_tick q (_ # es) = last_tick q es"

lemma idle_pump_cut:
  assumes "0 < idle"
  shows "ticking p b q es \<Longrightarrow> q < b + idle \<Longrightarrow> idle_pump idle b es = Some t \<Longrightarrow>
    \<exists>b' es1 es2. es = es1 @ Tick t # es2 \<and> b' = last_byte b es1 \<and> b' + idle \<le> t \<and> t < b' + idle + p"
proof (induction p b q es rule: ticking.induct)
  case (2 p b q s es)
  then obtain es1 es2 where "es = es1 @ Tick t # es2" "last_byte s es1 + idle \<le> t" "t < last_byte s es1 + idle + p"
    by auto
  then show ?case by (intro exI [of _ "last_byte s es1"] exI [of _ "Bytes s # es1"] exI [of _ es2]) simp
next
  case (3 p b q s es)
  show ?case
  proof (cases "idle \<le> s - b")
    case True
    then show ?thesis using 3 assms by (intro exI [of _ b] exI [of _ "[]"] exI [of _ es]) auto
  next
    case False
    with 3 obtain es1 es2 where "es = es1 @ Tick t # es2" "last_byte b es1 + idle \<le> t" "t < last_byte b es1 + idle + p"
      by auto
    then show ?thesis by (intro exI [of _ "last_byte b es1"] exI [of _ "Tick s # es1"] exI [of _ es2]) simp
  qed
qed simp_all

lemma idle_pump_live:
  assumes "0 < idle"
  shows "ticking p b q es \<Longrightarrow> q < b + idle \<Longrightarrow> last_byte b es + idle \<le> last_tick q es \<Longrightarrow> idle_pump idle b es \<noteq> None"
proof (induction p b q es rule: ticking.induct)
  case (3 p b q s es)
  then show ?case using assms by (cases "idle \<le> s - b") auto
qed auto

section \<open>Commands run once\<close>

text \<open>The web pushes commands; agents handle the changes they are shown. The log has an entry per command handled.\<close>

datatype 'w cmd_event =
  Pushed bytes bytes bytes bytes int | Shown "'w runner" int "bool \<times> command option"

fun pushed_ids :: "'w cmd_event list \<Rightarrow> bytes list" where
  "pushed_ids [] = []"
| "pushed_ids (Pushed i _ _ _ _ # es) = i # pushed_ids es"
| "pushed_ids (Shown _ _ _ # es) = pushed_ids es"

fun cmd_run ::
  "(int \<Rightarrow> bytes) \<Rightarrow> 'w store \<Rightarrow> bytes \<Rightarrow> 'w cmd_event list \<Rightarrow> 'w \<Rightarrow> (bytes \<times> act list) list" where
  "cmd_run fmt st pc [] w = []"
| "cmd_run fmt st pc (Pushed i cmd sid by' now # es) w =
     cmd_run fmt st pc es (snd (push_command fmt st now i pc cmd sid by' w))"
| "cmd_run fmt st pc (Shown cr now ch # es) w =
     (case run_change fmt st pc cr now ch w of
        (r, w) \<Rightarrow> (case r of None \<Rightarrow> [] | Some x \<Rightarrow> [x]) @ cmd_run fmt st pc es w)"

definition is_ack :: "act \<Rightarrow> bool" where
  "is_ack x \<longleftrightarrow> (case x of Ack _ _ _ \<Rightarrow> True | _ \<Rightarrow> False)"

text \<open>One acknowledgement, with a final status; a restart, which may end the process, only comes after it.\<close>

definition acked_once :: "bytes \<Rightarrow> act list \<Rightarrow> bool" where
  "acked_once i acts \<longleftrightarrow>
     (\<exists>xs status detail ys. acts = xs @ Ack i status detail # ys \<and> status \<in> {''done'', ''error''}
        \<and> list_all (\<lambda>x. \<not> is_ack x \<and> x \<noteq> DoRestart) xs \<and> set ys \<subseteq> {DoRestart})"

lemma acked_onceI:
  "list_all (\<lambda>x. \<not> is_ack x \<and> x \<noteq> DoRestart) xs \<Longrightarrow> set ys \<subseteq> {DoRestart} \<Longrightarrow> status \<in> {''done'', ''error''} \<Longrightarrow>
   acked_once i (xs @ Ack i status detail # ys)"
  unfolding acked_once_def by blast

lemma acked_here [simp]:
  "acked_once i [Ack i ''done'' d]" "acked_once i [Ack i ''error'' d]" "acked_once i [Ack i ''done'' d, DoRestart]"
  "acked_once i [DoUpdate, Ack i ''done'' d]" "acked_once i [DoUpdate, Ack i ''error'' d]"
  "acked_once i [DoUpdate, Ack i ''done'' d, DoRestart]"
  "acked_once i [DoProxy s, Ack i ''done'' d]" "acked_once i [DoProxy s, Ack i ''error'' d]"
  using acked_onceI [of "[]" "[]" "''done''" i d] acked_onceI [of "[]" "[]" "''error''" i d]
    acked_onceI [of "[]" "[DoRestart]" "''done''" i d] acked_onceI [of "[DoUpdate]" "[]" "''done''" i d]
    acked_onceI [of "[DoUpdate]" "[]" "''error''" i d] acked_onceI [of "[DoUpdate]" "[DoRestart]" "''done''" i d]
    acked_onceI [of "[DoProxy s]" "[]" "''done''" i d] acked_onceI [of "[DoProxy s]" "[]" "''error''" i d]
  by (simp_all add: is_ack_def)

lemma handle_acked: "acked_once (cmd_id cm) (handle_command st pc cr w cm)"
  unfolding handle_command_def ack_ok_def ack_error_def
  by (auto split: option.split sum.split)

text \<open>Where a command stands: its document is there, and not waiting any more.\<close>

definition spent :: "'w store \<Rightarrow> bytes \<Rightarrow> 'w \<Rightarrow> bytes \<Rightarrow> bool" where
  "spent st pc w i \<longleftrightarrow> (\<exists>d. st_get st w (cmd_path pc i) = Some d \<and> fld d ''status'' \<noteq> ''pending'')"

lemma cmd_path_eq [simp]: "cmd_path pc i = cmd_path pc j \<longleftrightarrow> i = j"
  by (simp add: cmd_path_def)

text \<open>What handling one change does to the documents of the commands.\<close>

lemma ack_keeps:
  assumes st: "store_laws st" and s: "spent st pc w i" and f: "status \<noteq> ''pending''"
  shows "spent st pc (snd (ack_command fmt st now pc i status detail w)) i"
proof -
  let ?d = "[(''status'', AStr status), (''detail'', AStr detail), (''finished_at'', AStr (fmt now))]"
  from st show ?thesis
  proof (rule set_cases [of st True "cmd_path pc i" ?d w])
    fix e
    assume e: "st_get st (snd (st_set st True (cmd_path pc i) ?d w)) (cmd_path pc i) = Some e"
      "written True ?d (st_get st w (cmd_path pc i)) e"
    have "fld e ''status'' = status" using fld_merged [OF e(2)] by simp
    then show ?thesis using e(1) f by (simp add: spent_def ack_command_def)
  next
    assume "st_get st (snd (st_set st True (cmd_path pc i) ?d w)) (cmd_path pc i) = st_get st w (cmd_path pc i)"
    then show ?thesis using s by (simp add: spent_def ack_command_def)
  qed
qed

lemma ack_other:
  "store_laws st \<Longrightarrow> p \<noteq> cmd_path pc i \<Longrightarrow>
   st_get st (snd (ack_command fmt st now pc i status detail w)) p = st_get st w p"
  by (simp add: ack_command_def set_other)

lemma do_acts_keep:
  assumes st: "store_laws st"
  shows "(\<And>x. x \<in> set acts \<Longrightarrow> (case x of Ack j s d \<Rightarrow> j = i \<and> s \<noteq> ''pending'' | _ \<Rightarrow> True)) \<Longrightarrow> spent st pc w i \<Longrightarrow>
    spent st pc (foldl (do_act fmt st now pc) w acts) i
    \<and> (\<forall>p. p \<noteq> cmd_path pc i \<longrightarrow> st_get st (foldl (do_act fmt st now pc) w acts) p = st_get st w p)"
proof (induction acts arbitrary: w)
  case (Cons x acts)
  have x: "spent st pc (do_act fmt st now pc w x) i
    \<and> (\<forall>p. p \<noteq> cmd_path pc i \<longrightarrow> st_get st (do_act fmt st now pc w x) p = st_get st w p)"
    using Cons.prems(1) [of x] Cons.prems(2) ack_keeps [OF st] ack_other [OF st]
    by (cases x) (auto simp: do_act_def)
  then show ?case using Cons.IH [of "do_act fmt st now pc w x"] Cons.prems(1) by auto
qed simp

lemma acked_acts:
  "acked_once i acts \<Longrightarrow> x \<in> set acts \<Longrightarrow> (case x of Ack j s d \<Rightarrow> j = i \<and> s \<noteq> ''pending'' | _ \<Rightarrow> True)"
  by (auto simp: acked_once_def list_all_iff is_ack_def split: act.splits)

text \<open>A change of the store that leaves spent commands spent and missing ones missing.\<close>

definition keeps :: "'w store \<Rightarrow> bytes \<Rightarrow> 'w \<Rightarrow> 'w \<Rightarrow> bool" where
  "keeps st pc w w' \<longleftrightarrow> (\<forall>j. (spent st pc w j \<longrightarrow> spent st pc w' j)
     \<and> (st_get st w (cmd_path pc j) = None \<longrightarrow> st_get st w' (cmd_path pc j) = None))"

lemma keeps_refl: "keeps st pc w w"
  by (simp add: keeps_def)

lemma keeps_trans: "keeps st pc w w1 \<Longrightarrow> keeps st pc w1 w2 \<Longrightarrow> keeps st pc w w2"
  by (simp add: keeps_def)

lemma keeps_one:
  assumes "\<And>p. p \<noteq> cmd_path pc i \<Longrightarrow> st_get st w' p = st_get st w p" "st_get st w (cmd_path pc i) \<noteq> None"
    and "spent st pc w i \<Longrightarrow> spent st pc w' i"
  shows "keeps st pc w w'"
  unfolding keeps_def
proof (intro allI)
  fix j
  show "(spent st pc w j \<longrightarrow> spent st pc w' j) \<and> (st_get st w (cmd_path pc j) = None \<longrightarrow> st_get st w' (cmd_path pc j) = None)"
  proof (cases "j = i")
    case True
    then show ?thesis using assms(2,3) by auto
  next
    case False
    then show ?thesis using assms(1) [of "cmd_path pc j"] by (simp add: spent_def)
  qed
qed

lemma claim_effect:
  assumes st: "store_laws st" and c: "claim_command st pc i w = (ok, w')"
  shows "keeps st pc w w' \<and> (ok \<longrightarrow> \<not> spent st pc w i \<and> spent st pc w' i)"
proof (cases "\<exists>d. st_get st w (cmd_path pc i) = Some d \<and> fld d ''status'' = ''pending''")
  case False
  then have "claim_command st pc i w = (False, w)" by (auto simp: claim_command_def split: option.split)
  then show ?thesis using c by (simp add: keeps_refl)
next
  case True
  let ?p = "cmd_path pc i" and ?d = "[(''status'', AStr ''running'')]"
  have s: "st_set st True ?p ?d w = (ok, w')" and n: "\<not> spent st pc w i" "st_get st w ?p \<noteq> None"
    using True c by (auto simp: claim_command_def spent_def)
  have "keeps st pc w w'"
    by (rule keeps_one [of pc i]) (use set_other [OF st, of _ ?p True ?d w] s n in simp_all)
  moreover have "spent st pc w' i" if k: ok
  proof -
    obtain e where e: "st_get st w' ?p = Some e" "written True ?d (st_get st w ?p) e"
      using set_same [OF st, of True ?p ?d w] s k by auto
    then show ?thesis using fld_merged [OF e(2), of "''status''" "''running''"] by (simp add: spent_def)
  qed
  ultimately show ?thesis using n(1) by blast
qed

lemma run_change_effect:
  assumes st: "store_laws st" and r: "run_change fmt st pc cr now ch w = (res, w')"
  shows "keeps st pc w w' \<and> (case res of None \<Rightarrow> True
     | Some (i, acts) \<Rightarrow> acked_once i acts \<and> \<not> spent st pc w i \<and> spent st pc w' i)"
proof -
  obtain removed dec where ch: "ch = (removed, dec)" by (cases ch)
  show ?thesis
  proof (cases "\<not> removed \<and> (\<exists>cm. dec = Some cm \<and> cmd_status cm = ''pending'')")
    case False
    then have "watch_change st pc ch w = (None, w)" by (auto simp: ch watch_change_def split: option.split)
    then show ?thesis using r by (simp add: run_change_def keeps_refl)
  next
    case True
    then obtain cm where cm: "\<not> removed" "dec = Some cm" "cmd_status cm = ''pending''" by blast
    let ?cm = "cm\<lparr>cmd_status := ''running''\<rparr>"
    obtain ok w1 where c: "claim_command st pc (cmd_id cm) w = (ok, w1)" by fastforce
    have wc: "watch_change st pc ch w = (if ok then Some ?cm else None, w1)" using cm c by (simp add: ch watch_change_def)
    note e = claim_effect [OF st c]
    show ?thesis
    proof (cases ok)
      case False
      then show ?thesis using r wc e by (simp add: run_change_def)
    next
      case True
      let ?acts = "handle_command st pc cr w1 ?cm"
      have a: "acked_once (cmd_id cm) ?acts" using handle_acked [of ?cm] by simp
      have sp: "spent st pc w1 (cmd_id cm)" using e True by simp
      have k: "spent st pc (foldl (do_act fmt st now pc) w1 ?acts) (cmd_id cm)
        \<and> (\<forall>p. p \<noteq> cmd_path pc (cmd_id cm) \<longrightarrow> st_get st (foldl (do_act fmt st now pc) w1 ?acts) p = st_get st w1 p)"
        by (rule do_acts_keep [OF st _ sp]) (rule acked_acts [OF a])
      have x: "res = Some (cmd_id cm, ?acts)" "w' = foldl (do_act fmt st now pc) w1 ?acts"
        using r wc True by (simp_all add: run_change_def Let_def)
      have "keeps st pc w1 w'" unfolding x(2) by (rule keeps_one [of pc "cmd_id cm"]) (use k sp in \<open>auto simp: spent_def\<close>)
      then show ?thesis using keeps_trans [of st pc w w1 w'] e a True k by (simp add: x)
    qed
  qed
qed

text \<open>The log of a run: every id at most once, none that was spent before, and each entry with one acknowledgement.\<close>

lemma push_keeps:
  assumes "store_laws st" "p \<noteq> cmd_path pc i"
  shows "st_get st (snd (push_command fmt st now i pc cmd sid by' w)) p = st_get st w p"
  by (simp add: push_command_def case_prod_unfold set_other [OF assms])

lemma cmd_run_once:
  assumes st: "store_laws st"
  shows "distinct (pushed_ids es) \<Longrightarrow> (\<forall>i \<in> set (pushed_ids es). st_get st w (cmd_path pc i) = None) \<Longrightarrow>
    distinct (map fst (cmd_run fmt st pc es w))
    \<and> (\<forall>(i, acts) \<in> set (cmd_run fmt st pc es w). acked_once i acts \<and> \<not> spent st pc w i)"
proof (induction es arbitrary: w)
  case (Cons e es)
  show ?case
  proof (cases e)
    case (Pushed i cmd sid by' now)
    let ?w = "snd (push_command fmt st now i pc cmd sid by' w)"
    have f: "\<forall>j \<in> set (pushed_ids es). st_get st ?w (cmd_path pc j) = None"
      using Cons.prems Pushed push_keeps [OF st] by (metis cmd_path_eq distinct.simps(2) list.set_intros(2) pushed_ids.simps(2))
    have sp: "spent st pc w j \<Longrightarrow> spent st pc ?w j" for j
      using Cons.prems(2) Pushed push_keeps [OF st, of "cmd_path pc j" pc i] by (cases "j = i") (auto simp: spent_def)
    show ?thesis using Cons.IH [OF _ f] Cons.prems(1) Pushed sp by auto
  next
    case (Shown cr now ch)
    obtain res w1 where r: "run_change fmt st pc cr now ch w = (res, w1)" by fastforce
    note eff = run_change_effect [OF st r]
    have k: "spent st pc w j \<Longrightarrow> spent st pc w1 j" for j using eff by (simp add: keeps_def)
    have f: "\<forall>j \<in> set (pushed_ids es). st_get st w1 (cmd_path pc j) = None"
      using Cons.prems(2) Shown eff by (simp add: keeps_def)
    have ih: "distinct (map fst (cmd_run fmt st pc es w1))"
      "\<forall>(i, acts) \<in> set (cmd_run fmt st pc es w1). acked_once i acts \<and> \<not> spent st pc w1 i"
      using Cons.IH [OF _ f] Cons.prems(1) Shown by simp_all
    show ?thesis
    proof (cases res)
      case None
      then show ?thesis using ih k Shown r by auto
    next
      case (Some x)
      obtain i acts where x: "x = (i, acts)" by (cases x)
      have a: "acked_once i acts" "\<not> spent st pc w i" "spent st pc w1 i" using eff Some x by simp_all
      then have "i \<notin> fst ` set (cmd_run fmt st pc es w1)" using ih(2) by fastforce
      then show ?thesis using ih a(1,2) k Shown r Some x by auto
    qed
  qed
qed simp

text \<open>A waiting command that is shown to an agent is handled, when Firestore accepts the claim.\<close>

lemma waiting_command_runs:
  assumes "st_get st w (cmd_path pc (cmd_id cm)) = Some d" "fld d ''status'' = ''pending''"
    "cmd_status cm = ''pending''" "fst (st_set st True (cmd_path pc (cmd_id cm)) [(''status'', AStr ''running'')] w)"
  shows "\<exists>acts. fst (run_change fmt st pc cr now (False, Some cm) w) = Some (cmd_id cm, acts)"
  using assms by (auto simp: run_change_def watch_change_def claim_command_def Let_def split: prod.split)

section \<open>Restarting a proxy\<close>

lemma newer_fold:
  "foldl newer b xs = b \<and> (\<forall>x \<in> set xs. snd x \<le> snd b)
   \<or> foldl newer b xs \<in> set xs \<and> snd b < snd (foldl newer b xs) \<and> (\<forall>x \<in> set xs. snd x \<le> snd (foldl newer b xs))"
proof (induction xs arbitrary: b)
  case (Cons x xs)
  show ?case using Cons.IH [of "newer b x"] by (auto simp: newer_def split: if_splits)
qed simp

text \<open>The conversation that is resolved is the newest one recorded for the directory.\<close>

definition matches :: "os \<Rightarrow> (bytes \<Rightarrow> bytes \<Rightarrow> bool) \<Rightarrow> bytes \<Rightarrow> proj_dir list \<Rightarrow> (bytes \<times> int) list" where
  "matches os eqf cwd ds = List.map_filter (jsonl_match os eqf cwd) (concat (map proj_files ds))"

lemma match_resumable: "(u, m) \<in> set (matches os eqf cwd ds) \<Longrightarrow> is_resumable u"
  by (auto simp: matches_def List.map_filter_def jsonl_match_def Let_def split: if_splits option.splits)

lemma resolve_newest:
  assumes "resolve_claude_uuid os eqf (Some ds) cwd = Some u"
  shows "\<exists>m. (u, m) \<in> set (matches os eqf cwd ds) \<and> (\<forall>(u', m') \<in> set (matches os eqf cwd ds). m' \<le> m)"
proof -
  let ?b = "foldl newer ([], - 1) (matches os eqf cwd ds)"
  have u: "fst ?b = u" "u \<noteq> []"
    using assms by (auto simp: resolve_claude_uuid_def matches_def Let_def split: if_splits)
  have "?b \<noteq> ([], - 1)" using u by auto
  then have "?b \<in> set (matches os eqf cwd ds)" "\<forall>x \<in> set (matches os eqf cwd ds). snd x \<le> snd ?b"
    using newer_fold [of "([], - 1)" "matches os eqf cwd ds"] by auto
  then show ?thesis using u(1) by (intro exI [of _ "snd ?b"]) (auto simp: prod.expand)
qed

lemma restart_acts:
  assumes "restart_proxy p sid = (acts, err)" "acts \<noteq> []"
  shows "\<exists>lookup pid cwd uuid. pr_lookup p = Some lookup \<and> lookup sid = Some (pid, cwd) \<and> resume_uuid p sid cwd = Inr uuid
    \<and> (acts = [Killed pid] \<and> err = Some (KillFailed pid)
       \<or> acts = [Killed pid, Spawned uuid cwd] \<and> (err = None \<or> err = Some SpawnFailed))"
  using assms
  by (auto simp: restart_proxy_def split: option.splits prod.splits sum.splits if_splits)

section \<open>Claims\<close>

definition demo_agent_env :: "(path \<Rightarrow> doc option) agent_env" where
  "demo_agent_env = \<lparr>ae_store = demo_store, ae_pc = ''pc'', ae_fmt = demo_fmt, ae_resolve = (\<lambda>s. Some (''/tmp/'' @ s))\<rparr>"

text \<open>C13: However wakes arrive and the goroutines of the agent interleave, a session is held by at most one of them, so it
  never has two data lines; and whenever nobody holds a session, a further wake of it opens its line again, unless the
  machine is revoked or the session is not here.\<close>
theorem one_line_per_session:
  "(\<forall>i j sid. held (ag_tasks (agent_run env w evs)) i sid \<longrightarrow> held (ag_tasks (agent_run env w evs)) j sid \<longrightarrow> i = j)
   \<and> (\<forall>sid sock n t1 t2 t3. (\<forall>i. \<not> held (ag_tasks (agent_run env w evs)) i sid) \<longrightarrow> n = length (ag_tasks (agent_run env w evs)) \<longrightarrow>
        \<not> is_revoked (ae_store env) (ag_store (agent_run env w evs)) (ae_pc env) \<longrightarrow> ae_resolve env sid = Some sock \<longrightarrow>
        ag_tasks (agent_run env w (evs @ [Woken sid, Step n t1, Step n t2, Step n t3]))
          = ag_tasks (agent_run env w evs) @ [(sid, Bridging sock)])"
proof (intro conjI allI impI)
  fix i j sid
  assume "held (ag_tasks (agent_run env w evs)) i sid" "held (ag_tasks (agent_run env w evs)) j sid"
  then show "i = j" using agent_run_one_line [of env w evs] by (simp add: one_line_def)
next
  fix sid sock n t1 t2 t3
  assume "\<forall>i. \<not> held (ag_tasks (agent_run env w evs)) i sid" "n = length (ag_tasks (agent_run env w evs))"
    "\<not> is_revoked (ae_store env) (ag_store (agent_run env w evs)) (ae_pc env)" "ae_resolve env sid = Some sock"
  from wake_opens [OF agent_run_one_line this(1,3,4), of t1 t2 t3] this(2)
  show "ag_tasks (agent_run env w (evs @ [Woken sid, Step n t1, Step n t2, Step n t3]))
      = ag_tasks (agent_run env w evs) @ [(sid, Bridging sock)]"
    by (simp add: agent_run_def)
qed

theorem one_line_per_session_witness:
  "held (ag_tasks (agent_run demo_agent_env Map.empty [Woken ''s'', Step 0 1, Woken ''s'', Step 0 2, Step 1 3, Step 1 4])) 0 ''s''
   \<and> \<not> held (ag_tasks (agent_run demo_agent_env Map.empty [Woken ''s'', Step 0 1, Woken ''s'', Step 0 2, Step 1 3, Step 1 4])) 1 ''s''"
proof -
  have h: "held (ag_tasks (agent_run demo_agent_env Map.empty [Woken ''s'', Step 0 1, Woken ''s'', Step 0 2, Step 1 3, Step 1 4])) 0 ''s''"
    by (simp add: agent_run_def new_agent_def agent_step_def wake_step_def held_def holding_def demo_agent_env_def
        demo_store_def is_revoked_def)
  then show ?thesis
    using one_line_per_session [THEN conjunct1, rule_format, OF h, of 1] by auto
qed

text \<open>An idle data line is cut in time: while the timer ticks with a period \<open>p\<close>, the line is closed by a tick that comes
  at least \<open>idle\<close> and less than \<open>idle + p\<close> after the last byte before it; and it has been closed once a tick comes
  \<open>idle\<close> after the last byte.\<close>
theorem idle_line_cut:
  assumes "0 < idle" "ticking p start start es"
  shows "(\<forall>t. idle_pump idle start es = Some t \<longrightarrow>
      (\<exists>es1 es2. es = es1 @ Tick t # es2 \<and> last_byte start es1 + idle \<le> t \<and> t < last_byte start es1 + idle + p))
    \<and> (last_byte start es + idle \<le> last_tick start es \<longrightarrow> idle_pump idle start es \<noteq> None)"
proof (intro conjI allI impI)
  fix t assume "idle_pump idle start es = Some t"
  then show "\<exists>es1 es2. es = es1 @ Tick t # es2 \<and> last_byte start es1 + idle \<le> t \<and> t < last_byte start es1 + idle + p"
    using idle_pump_cut [OF assms(1,2)] assms(1) by auto
next
  assume "last_byte start es + idle \<le> last_tick start es"
  then show "idle_pump idle start es \<noteq> None" using idle_pump_live [OF assms] assms(1) by simp
qed

theorem idle_line_cut_witness:
  "idle_pump 10 0 [Tick 5, Bytes 7, Tick 10, Tick 15, Tick 20] \<noteq> None"
  using idle_line_cut [of 10 5 0 "[Tick 5, Bytes 7, Tick 10, Tick 15, Tick 20]"] by simp

definition demo_runner :: "'w runner" where
  "demo_runner = \<lparr>cr_revoked = None, cr_restart = True, cr_update = None, cr_proxy = None\<rparr>"

definition demo_command :: command where
  "demo_command = \<lparr>cmd_id = ''a'', cmd_cmd = ''restart-agent'', cmd_sid = [], cmd_by = ''me'', cmd_ts = [],
     cmd_status = ''pending'', cmd_detail = [], cmd_finished = []\<rparr>"

text \<open>C15: Whatever commands are pushed under fresh ids, and however often and to however many agents their changes are
  shown, even when Firestore reports errors: a command is handled at most once, and handling it writes exactly one
  acknowledgement, with a final status, before the restart that may end the agent.\<close>
theorem commands_run_once:
  assumes "store_laws st" "distinct (pushed_ids es)" "\<forall>i \<in> set (pushed_ids es). st_get st w (cmd_path pc i) = None"
  shows "distinct (map fst (cmd_run fmt st pc es w))
    \<and> (\<forall>(i, acts) \<in> set (cmd_run fmt st pc es w). acked_once i acts)"
  using cmd_run_once [OF assms] by auto

theorem commands_run_once_witness:
  "cmd_run demo_fmt demo_store ''pc'' [Pushed ''a'' ''restart-agent'' [] ''me'' 1, Shown demo_runner 2 (False, Some demo_command),
     Shown demo_runner 3 (False, Some demo_command)] Map.empty
   = [(''a'', handle_command demo_store ''pc'' (demo_runner :: (path \<Rightarrow> doc option) runner) Map.empty demo_command)]
   \<and> distinct (map fst (cmd_run demo_fmt demo_store ''pc'' [Pushed ''a'' ''restart-agent'' [] ''me'' 1,
       Shown demo_runner 2 (False, Some demo_command), Shown demo_runner 3 (False, Some demo_command)] Map.empty))"
proof
  let ?es = "[Pushed ''a'' ''restart-agent'' [] ''me'' 1, Shown demo_runner 2 (False, Some demo_command),
     Shown demo_runner 3 (False, Some demo_command)] :: (path \<Rightarrow> doc option) cmd_event list"
  show "distinct (map fst (cmd_run demo_fmt demo_store ''pc'' ?es Map.empty))"
    by (rule commands_run_once [OF demo_store_laws, THEN conjunct1]) (simp_all add: demo_store_def)
  show "cmd_run demo_fmt demo_store ''pc'' ?es Map.empty
     = [(''a'', handle_command demo_store ''pc'' (demo_runner :: (path \<Rightarrow> doc option) runner) Map.empty demo_command)]"
    by (simp add: push_command_def valid_commands_def run_change_def watch_change_def claim_command_def demo_store_def
        demo_command_def demo_runner_def cmd_path_def fld_def handle_command_def is_revoked_def ack_ok_def do_act_def
        ack_command_def)
qed


definition demo_dirs :: "proj_dir list" where
  "demo_dirs = [\<lparr>pd_dir = True, pd_files = Some
     [\<lparr>jl_name = ''00000000-0000-1.jsonl'', jl_dir = False, jl_records = Some [Some [''cwd'' \<mapsto> AStr ''/w/'']], jl_mtime = Some 1\<rparr>,
      \<lparr>jl_name = ''00000000-0000-2.jsonl'', jl_dir = False, jl_records = Some [Some Map.empty, Some [''cwd'' \<mapsto> AStr ''/w'']],
       jl_mtime = Some 2\<rparr>]\<rparr>]"

definition demo_restarter :: restarter where
  "demo_restarter = \<lparr>pr_lookup = Some (\<lambda>sid. if sid = ''pid-7'' then Some (7, ''/w'') else None),
     pr_resolve = Some (resolve_claude_uuid Unix (=) (Some demo_dirs)),
     pr_kill = Some (\<lambda>_. True), pr_spawn = Some (\<lambda>_ _. True)\<rparr>"

lemma demo_restart:
  "restart_proxy demo_restarter ''pid-7'' = ([Killed 7, Spawned ''00000000-0000-2'' ''/w''], None)"
  by code_simp


end
