(* ===== verification/SelfUpdate.thy ===== *)
theory SelfUpdate
  imports Tmux AtomicFile
begin

text \<open>
  \<open>internal/selfupdate\<close>: the latest release is downloaded, checked against its published hash and put in the place of the
  running executable (\<open>selfupdate.go\<close>, \<open>place_unix.go\<close>, \<open>place_windows.go\<close>). The network, the decoding of JSON and
  the hash are parameters; the file system is a map from paths to contents, and for every call that may fail the
  environment tells whether it is permitted.
\<close>

section \<open>Releases\<close>

definition update_repo :: "bytes \<Rightarrow> bytes" where
  "update_repo env = (if env \<noteq> [] then env else ''4noha/claude-master-go'')"

definition asset_name :: "bytes \<Rightarrow> bytes \<Rightarrow> bytes" where
  "asset_name goos goarch =
     ''claude-master_'' @ goos @ ''_'' @ goarch @ (if goos = ''windows'' then ''.exe'' else [])"

definition gh_headers :: "bytes \<Rightarrow> (bytes \<times> bytes) list" where
  "gh_headers token =
     [(''Accept'', ''application/vnd.github+json''), (''User-Agent'', ''claude-master-go'')]
     @ (if token \<noteq> [] then [(''Authorization'', ''Bearer '' @ token)] else [])"

text \<open>\<open>http\<close> takes an address and headers and gives status and body, \<open>None\<close> for a failed request.\<close>

record upd_env =
  ue_http :: "bytes \<Rightarrow> (bytes \<times> bytes) list \<Rightarrow> (int \<times> bytes) option"
  ue_json_tag :: "bytes \<Rightarrow> bytes option"
  ue_uni :: "bytes \<Rightarrow> bytes"
  ue_sha :: "bytes \<Rightarrow> bytes"
  ue_repo :: bytes
  ue_token :: bytes
  ue_goos :: bytes
  ue_goarch :: bytes
  ue_exe :: "bytes option"
  ue_link :: "bytes \<Rightarrow> bytes"
  ue_temp :: "bytes option"
  ue_partial :: bytes
  ue_write :: bool
  ue_chmod :: bool
  ue_close :: bool
  ue_remove :: bool
  ue_rename :: "bytes \<Rightarrow> bytes \<Rightarrow> bool"

datatype upd_error =
  HttpFailed | HttpStatus int | BadJson | NoRelease | NoChecksum bytes | HashMismatch | NoExecutable | NotWritable
| WriteFailed | PlaceFailed

definition latest_tag :: "upd_env \<Rightarrow> upd_error + bytes" where
  "latest_tag e =
     (case ue_http e (''https://api.github.com/repos/'' @ update_repo (ue_repo e) @ ''/releases/latest'') (gh_headers (ue_token e)) of
        None \<Rightarrow> Inl HttpFailed
      | Some (status, body) \<Rightarrow>
          if status \<noteq> 200 then Inl (HttpStatus status)
          else (case ue_json_tag e body of
              None \<Rightarrow> Inl BadJson
            | Some tag \<Rightarrow> if tag = [] then Inl NoRelease else Inr tag))"

definition dl :: "upd_env \<Rightarrow> bytes \<Rightarrow> upd_error + bytes" where
  "dl e url =
     (case ue_http e url (gh_headers (ue_token e)) of
        None \<Rightarrow> Inl HttpFailed
      | Some (status, body) \<Rightarrow> if status \<noteq> 200 then Inl (HttpStatus status) else Inr body)"

definition sha_line :: "bytes \<Rightarrow> bytes \<Rightarrow> bool" where
  "sha_line name ln \<longleftrightarrow> (let f = GoStrings.fields ln in length f = 2 \<and> f ! 1 = name)"

definition expected_sha :: "(bytes \<Rightarrow> bytes) \<Rightarrow> bytes \<Rightarrow> bytes \<Rightarrow> bytes option" where
  "expected_sha uni sums name =
     map_option (\<lambda>ln. to_lower uni (GoStrings.fields ln ! 0)) (find (sha_line name) (split_on (CHR 0x0A) sums))"

definition normalize_version :: "bytes \<Rightarrow> bytes" where
  "normalize_version v = trim_prefix (trim_space v) ''v''"

section \<open>Putting the executable in place\<close>

text \<open>\<open>os.Rename\<close>: fails when it is not permitted or the source does not exist; an existing target is replaced.\<close>

definition rename_file :: "upd_env \<Rightarrow> bytes \<Rightarrow> bytes \<Rightarrow> files \<Rightarrow> bool \<times> files" where
  "rename_file e a b fs =
     (if ue_rename e a b \<and> fs a \<noteq> None then (True, (fs(a := None))(b := fs a)) else (False, fs))"

definition remove_file :: "upd_env \<Rightarrow> bytes \<Rightarrow> files \<Rightarrow> files" where
  "remove_file e a fs = (if ue_remove e then fs(a := None) else fs)"

definition place_unix :: "upd_env \<Rightarrow> bytes \<Rightarrow> bytes \<Rightarrow> files \<Rightarrow> bool \<times> files" where
  "place_unix e tmp exe fs = rename_file e tmp exe fs"

definition place_windows :: "upd_env \<Rightarrow> bytes \<Rightarrow> bytes \<Rightarrow> files \<Rightarrow> bool \<times> files" where
  "place_windows e tmp exe fs =
     (let old = exe @ ''.old'';
          fs = remove_file e old fs;
          missing = (fs exe = None);
          (away, fs) = rename_file e exe old fs
      in if \<not> away \<and> \<not> missing then (False, fs)
         else (case rename_file e tmp exe fs of
             (True, fs) \<Rightarrow> (True, remove_file e old fs)
           | (False, fs) \<Rightarrow> (False, if away then snd (rename_file e old exe fs) else fs)))"

definition place_binary :: "os \<Rightarrow> upd_env \<Rightarrow> bytes \<Rightarrow> bytes \<Rightarrow> files \<Rightarrow> bool \<times> files" where
  "place_binary os e tmp exe fs =
     (case os of Unix \<Rightarrow> place_unix e tmp exe fs | Windows \<Rightarrow> place_windows e tmp exe fs)"

text \<open>The temporary file is removed at the end, whatever happened.\<close>

definition replace_self :: "os \<Rightarrow> upd_env \<Rightarrow> bytes \<Rightarrow> files \<Rightarrow> upd_error option \<times> files" where
  "replace_self os e new fs =
     (case ue_exe e of
        None \<Rightarrow> (Some NoExecutable, fs)
      | Some exe \<Rightarrow>
          (let exe = ue_link e exe in
           case ue_temp e of
             None \<Rightarrow> (Some NotWritable, fs)
           | Some tmp \<Rightarrow>
               (if \<not> ue_write e then (Some WriteFailed, remove_file e tmp (fs(tmp \<mapsto> ue_partial e)))
                else if \<not> ue_chmod e \<or> \<not> ue_close e then (Some WriteFailed, remove_file e tmp (fs(tmp \<mapsto> new)))
                else (case place_binary os e tmp exe (fs(tmp \<mapsto> new)) of
                    (ok, fs) \<Rightarrow> (if ok then None else Some PlaceFailed, remove_file e tmp fs)))))"

section \<open>The update\<close>

datatype upd_result = Failed upd_error | UpToDate bytes | Updated bytes

definition release_base :: "upd_env \<Rightarrow> bytes" where
  "release_base e = ''https://github.com/'' @ update_repo (ue_repo e) @ ''/releases/latest/download''"

definition update :: "os \<Rightarrow> upd_env \<Rightarrow> bytes \<Rightarrow> files \<Rightarrow> upd_result \<times> files" where
  "update os e current fs =
     (case latest_tag e of
        Inl er \<Rightarrow> (Failed er, fs)
      | Inr tag \<Rightarrow>
          if normalize_version tag = normalize_version current then (UpToDate tag, fs)
          else
            (let base = release_base e; name = asset_name (ue_goos e) (ue_goarch e) in
             case dl e (base @ ''/'' @ name) of
               Inl er \<Rightarrow> (Failed er, fs)
             | Inr bin \<Rightarrow>
                 (case dl e (base @ ''/checksums.txt'') of
                    Inl er \<Rightarrow> (Failed er, fs)
                  | Inr sums \<Rightarrow>
                      (case expected_sha (ue_uni e) sums name of
                         None \<Rightarrow> (Failed (NoChecksum name), fs)
                       | Some want \<Rightarrow>
                           if ue_sha e bin \<noteq> want then (Failed HashMismatch, fs)
                           else (case replace_self os e bin fs of
                               (Some er, fs) \<Rightarrow> (Failed er, fs)
                             | (None, fs) \<Rightarrow> (Updated tag, fs))))))"

section \<open>What is left of the executable\<close>

text \<open>The executable before and after: unchanged, or replaced; on windows it may be left under its other name.\<close>

definition exe_kept :: "bytes \<Rightarrow> files \<Rightarrow> files \<Rightarrow> bool" where
  "exe_kept exe fs fs' \<longleftrightarrow> fs' exe = fs exe \<or> fs' exe = None \<and> fs' (exe @ ''.old'') = fs exe"

lemma place_binary_effect:
  assumes p: "place_binary os e tmp exe fs = (ok, fs')" and t: "tmp \<noteq> exe" "tmp \<noteq> exe @ ''.old''"
  shows "if ok then fs' exe = fs tmp \<and> fs tmp \<noteq> None else exe_kept exe fs fs'"
proof (cases os)
  case Unix
  then show ?thesis
    using p t by (auto simp: place_binary_def place_unix_def rename_file_def exe_kept_def split: if_splits)
next
  case Windows
  then show ?thesis
    using p t by (auto simp: place_binary_def place_windows_def rename_file_def remove_file_def exe_kept_def Let_def
        split: if_splits prod.splits bool.splits)
qed

lemma replace_self_effect:
  assumes r: "replace_self os e new fs = (er, fs')" and x: "ue_exe e = Some x" "exe = ue_link e x"
    and t: "\<forall>tmp. ue_temp e = Some tmp \<longrightarrow> tmp \<noteq> exe \<and> tmp \<noteq> exe @ ''.old''"
  shows "if er = None then fs' exe = Some new else exe_kept exe fs fs'"
proof (cases "ue_temp e")
  case None
  then show ?thesis using r x by (auto simp: replace_self_def Let_def exe_kept_def)
next
  case (Some tmp)
  then have n: "tmp \<noteq> exe" "tmp \<noteq> exe @ ''.old''" using t by auto
  show ?thesis
  proof (cases "ue_write e \<and> ue_chmod e \<and> ue_close e")
    case False
    then show ?thesis using r x Some n
      by (auto simp: replace_self_def Let_def exe_kept_def remove_file_def split: if_splits)
  next
    case True
    obtain ok fs1 where p: "place_binary os e tmp exe (fs(tmp \<mapsto> new)) = (ok, fs1)"
      by (cases "place_binary os e tmp exe (fs(tmp \<mapsto> new))")
    have k: "if ok then fs1 exe = Some new else exe_kept exe fs fs1"
      using place_binary_effect [OF p n] n by (auto simp: exe_kept_def split: if_splits)
    have "er = (if ok then None else Some PlaceFailed)" "fs' = remove_file e tmp fs1"
      using r x Some True p by (auto simp: replace_self_def Let_def)
    then show ?thesis using k n by (auto simp: remove_file_def exe_kept_def split: if_splits)
  qed
qed

text \<open>A release that may be installed: its published hash is that of the downloaded file.\<close>

definition verified :: "upd_env \<Rightarrow> bytes \<Rightarrow> bool" where
  "verified e bin \<longleftrightarrow>
     (\<exists>sums. dl e (release_base e @ ''/'' @ asset_name (ue_goos e) (ue_goarch e)) = Inr bin
        \<and> dl e (release_base e @ ''/checksums.txt'') = Inr sums
        \<and> expected_sha (ue_uni e) sums (asset_name (ue_goos e) (ue_goarch e)) = Some (ue_sha e bin))"

lemma update_effect:
  assumes u: "update os e current fs = (r, fs')" and x: "ue_exe e = Some x" "exe = ue_link e x"
    and t: "\<forall>tmp. ue_temp e = Some tmp \<longrightarrow> tmp \<noteq> exe \<and> tmp \<noteq> exe @ ''.old''"
  shows "(\<exists>tag bin. r = Updated tag \<and> normalize_version tag \<noteq> normalize_version current \<and> verified e bin \<and> fs' exe = Some bin)
    \<or> (\<exists>tag. r = UpToDate tag \<and> normalize_version tag = normalize_version current \<and> fs' = fs)
    \<or> (\<exists>er. r = Failed er \<and> exe_kept exe fs fs')"
proof -
  let ?n = "asset_name (ue_goos e) (ue_goarch e)"
  show ?thesis
  proof (cases "\<exists>tag bin sums. latest_tag e = Inr tag \<and> normalize_version tag \<noteq> normalize_version current
      \<and> dl e (release_base e @ ''/'' @ ?n) = Inr bin \<and> dl e (release_base e @ ''/checksums.txt'') = Inr sums
      \<and> expected_sha (ue_uni e) sums ?n = Some (ue_sha e bin)")
    case False
    then show ?thesis using u
      by (auto simp: update_def Let_def exe_kept_def split: sum.splits option.splits if_splits)
  next
    case True
    then obtain tag bin sums where h: "latest_tag e = Inr tag" "normalize_version tag \<noteq> normalize_version current"
      "dl e (release_base e @ ''/'' @ ?n) = Inr bin" "dl e (release_base e @ ''/checksums.txt'') = Inr sums"
      "expected_sha (ue_uni e) sums ?n = Some (ue_sha e bin)" by blast
    obtain er fs1 where s: "replace_self os e bin fs = (er, fs1)" by (cases "replace_self os e bin fs")
    have "r = (case er of None \<Rightarrow> Updated tag | Some x \<Rightarrow> Failed x)" "fs' = fs1"
      using u h s by (auto simp: update_def Let_def split: option.splits)
    moreover have "verified e bin" using h by (auto simp: verified_def)
    ultimately show ?thesis using replace_self_effect [OF s x t] h(2) by (cases er) auto
  qed
qed

section \<open>Claims\<close>

definition demo_upd :: upd_env where
  "demo_upd = \<lparr>ue_http = (\<lambda>url _. if has_suffix url ''latest'' then Some (200, ''T'')
       else if has_suffix url ''.txt'' then Some (200, ''BIN  claude-master_linux_amd64'') else Some (200, ''bin'')),
     ue_json_tag = (\<lambda>_. Some ''v2''), ue_uni = id, ue_sha = id, ue_repo = [], ue_token = [], ue_goos = ''linux'',
     ue_goarch = ''amd64'', ue_exe = Some ''/b/cm'', ue_link = id, ue_temp = Some ''/b/t'', ue_partial = [], ue_write = True,
     ue_chmod = True, ue_close = True, ue_remove = True, ue_rename = (\<lambda>_ _. True)\<rparr>"


lemma demo_upd_simps: "ue_link demo_upd = id" "ue_temp demo_upd = Some ''/b/t''" "ue_exe demo_upd = Some ''/b/cm''"
  by (simp_all add: demo_upd_def)

lemma demo_sums: "expected_sha id ''BIN  claude-master_linux_amd64'' ''claude-master_linux_amd64'' = Some ''bin''"
proof -
  have f: "GoStrings.fields ''BIN  claude-master_linux_amd64'' = [''BIN'', ''claude-master_linux_amd64'']"
    using fields_two [of "''BIN''" "''claude-master_linux_amd64''"] by (simp add: plain_char_def)
  show ?thesis
    by (simp add: expected_sha_def sha_line_def f to_lower_def is_ascii_def lower_byte_def char_of_def bit_0)
qed

lemma demo_versions: "normalize_version ''v2'' = ''2''" "normalize_version ''1'' = ''1''"
  by (simp_all add: normalize_version_def trim_space_def trim_right_rev.simps [of "''2v''"] trim_right_rev.simps [of "''1''"]
      trim_left.simps [of "''v2''"] trim_left.simps [of "''1''"] ascii_space_def wide_space_def trim_prefix_def has_prefix_def)

lemma demo_update: "fst (update Windows demo_upd ''1'' [''/b/cm'' \<mapsto> ''old'']) = Updated ''v2''"
  using demo_sums demo_versions
  by (simp add: update_def latest_tag_def dl_def demo_upd_def has_suffix_def update_repo_def release_base_def asset_name_def
      Let_def replace_self_def place_binary_def place_windows_def rename_file_def remove_file_def)


end
