(* ===== verification/GoPath.thy ===== *)
theory GoPath
  imports GoStrings "HOL-Library.Sublist"
begin

text \<open>
  \<open>filepath.Clean\<close> and \<open>filepath.Join\<close> of Go's standard library on unix. A path is cleaned component by component: empty
  components and \<open>.\<close> are dropped, \<open>..\<close> takes the component before it away.
\<close>

definition path_comps :: "bytes \<Rightarrow> bytes list" where
  "path_comps p = filter (\<lambda>c. c \<noteq> []) (split_on (CHR ''/'') p)"

definition clean_step :: "bool \<Rightarrow> bytes list \<Rightarrow> bytes \<Rightarrow> bytes list" where
  "clean_step rooted st c =
     (if c = ''.'' then st
      else if c = ''..'' then
        (if st \<noteq> [] \<and> last st \<noteq> ''..'' then butlast st else if rooted then st else st @ [''..''])
      else st @ [c])"

definition rooted :: "bytes \<Rightarrow> bool" where
  "rooted p \<longleftrightarrow> p \<noteq> [] \<and> hd p = CHR ''/''"

definition clean_comps :: "bytes \<Rightarrow> bytes list" where
  "clean_comps p = foldl (clean_step (rooted p)) [] (path_comps p)"

definition path_clean :: "bytes \<Rightarrow> bytes" where
  "path_clean p =
     (let body = join ''/'' (clean_comps p)
      in if rooted p then CHR ''/'' # body else if body = [] then ''.'' else body)"

definition path_join :: "bytes list \<Rightarrow> bytes" where
  "path_join es =
     (let es = filter (\<lambda>e. e \<noteq> []) es in if es = [] then [] else path_clean (join ''/'' es))"

section \<open>Components\<close>

text \<open>A component is not empty and has no separator.\<close>

definition path_comp :: "bytes \<Rightarrow> bool" where
  "path_comp c \<longleftrightarrow> c \<noteq> [] \<and> CHR ''/'' \<notin> set c"

lemma split_no_sep: "x \<in> set (split_on c s) \<Longrightarrow> c \<notin> set x"
  by (induction c s arbitrary: x rule: split_on.induct) (auto split: if_splits list.splits)

lemma path_comps_comp: "list_all path_comp (path_comps p)"
  using split_no_sep [of _ "CHR ''/''" p] by (auto simp: path_comps_def path_comp_def list_all_iff)

lemma clean_fold_comp: "list_all path_comp cs \<Longrightarrow> list_all path_comp st \<Longrightarrow> list_all path_comp (foldl (clean_step r) st cs)"
proof (induction cs arbitrary: st)
  case (Cons c cs)
  have "list_all path_comp (clean_step r st c)"
    using Cons.prems by (auto simp: clean_step_def list_all_iff path_comp_def dest: in_set_butlastD)
  then show ?case using Cons by simp
qed simp

lemma clean_comps_comp: "list_all path_comp (clean_comps p)"
  unfolding clean_comps_def by (rule clean_fold_comp) (simp_all add: path_comps_comp)

text \<open>A path is below another one exactly when its components extend those of the other.\<close>

lemma slash_split:
  assumes "CHR ''/'' \<notin> set s" "CHR ''/'' \<notin> set t" "s @ CHR ''/'' # u = t @ CHR ''/'' # v"
  shows "s = t \<and> u = v"
  using assms
proof (induction s arbitrary: t)
  case Nil
  then show ?case by (cases t) auto
next
  case (Cons x s)
  then show ?case by (cases t) auto
qed

lemma prefix_comp:
  assumes "CHR ''/'' \<notin> set s" "CHR ''/'' \<notin> set t"
  shows "prefix (s @ CHR ''/'' # x) (t @ CHR ''/'' # y) \<longleftrightarrow> s = t \<and> prefix x y"
proof
  assume "prefix (s @ CHR ''/'' # x) (t @ CHR ''/'' # y)"
  then obtain z where "t @ CHR ''/'' # y = s @ CHR ''/'' # (x @ z)" by (auto simp: prefix_def)
  from slash_split [OF assms(2,1) this] show "s = t \<and> prefix x y" by (auto simp: prefix_def)
qed (auto simp: prefix_def)

lemma prefix_join:
  "list_all path_comp ss \<Longrightarrow> list_all path_comp ts \<Longrightarrow> ss \<noteq> [] \<Longrightarrow>
   prefix (join ''/'' ss @ ''/'') (join ''/'' ts) \<longleftrightarrow> strict_prefix ss ts"
proof (induction ss arbitrary: ts)
  case (Cons s ss)
  have s: "CHR ''/'' \<notin> set s" using Cons.prems by (auto simp: path_comp_def)
  show ?case
  proof (cases ts)
    case ts: (Cons t ts')
    have t: "CHR ''/'' \<notin> set t" using Cons.prems ts by (auto simp: path_comp_def)
    show ?thesis
    proof (cases "ts' = []")
      case True
      have "CHR ''/'' \<in> set t" if "prefix (join ''/'' (s # ss) @ ''/'') t" using that by (auto simp: prefix_def)
      then show ?thesis using t ts True by (auto simp: strict_prefix_def)
    next
      case ne: False
      then have jt: "join ''/'' ts = t @ CHR ''/'' # join ''/'' ts'" using ts by (simp add: join_Cons)
      show ?thesis
      proof (cases "ss = []")
        case True
        then show ?thesis using ts ne jt prefix_comp [OF s t, of "[]"] by (auto simp: strict_prefix_def)
      next
        case False
        have "prefix (join ''/'' ss @ ''/'') (join ''/'' ts') \<longleftrightarrow> strict_prefix ss ts'"
          by (rule Cons.IH) (use Cons.prems ts False in auto)
        then show ?thesis
          using False jt ts prefix_comp [OF s t, of "join ''/'' ss @ ''/''"] by (auto simp: join_Cons strict_prefix_def)
      qed
    qed
  qed simp
qed simp

lemma path_clean_rooted: "rooted p \<Longrightarrow> path_clean p = CHR ''/'' # join ''/'' (clean_comps p)"
  by (simp add: path_clean_def Let_def)

lemma join_comps_Nil: "list_all path_comp ss \<Longrightarrow> join ''/'' ss = [] \<longleftrightarrow> ss = []"
proof (cases ss)
  case (Cons c cs)
  then show "list_all path_comp ss \<Longrightarrow> ?thesis" by (cases "cs = []") (auto simp: join_Cons path_comp_def)
qed simp

lemma join_inj:
  "list_all path_comp ss \<Longrightarrow> list_all path_comp ts \<Longrightarrow> join ''/'' ss = join ''/'' ts \<longleftrightarrow> ss = ts"
proof (induction ss arbitrary: ts)
  case Nil
  then show ?case using join_comps_Nil [of ts] by auto
next
  case (Cons s ss)
  show ?case
  proof (cases ts)
    case Nil
    then show ?thesis using join_comps_Nil [OF Cons.prems(1)] by simp
  next
    case ts: (Cons t ts')
    have st: "CHR ''/'' \<notin> set s" "CHR ''/'' \<notin> set t" using Cons.prems ts by (auto simp: path_comp_def)
    show ?thesis
    proof (cases "ss = []"; cases "ts' = []")
      assume "ss \<noteq> []" "ts' \<noteq> []"
      then show ?thesis using Cons ts slash_split [OF st] by (auto simp: join_Cons)
    qed (use st ts in \<open>auto simp: join_Cons\<close>)
  qed
qed

lemma prefix_has_prefix: "has_prefix s p = prefix p s"
  by (auto simp: has_prefix_iff prefix_def)

lemma has_prefix_Cons: "has_prefix (c # s) (c # t) = has_prefix s t"
  by (simp add: has_prefix_def)

lemma below_iff:
  assumes "rooted r" "rooted p"
  shows "path_clean p \<noteq> path_clean r
      \<and> has_prefix (path_clean p) (if path_clean r = ''/'' then ''/'' else path_clean r @ ''/'')
    \<longleftrightarrow> strict_prefix (clean_comps r) (clean_comps p)"
proof -
  note c = clean_comps_comp [of r] clean_comps_comp [of p]
  have eq: "path_clean p = path_clean r \<longleftrightarrow> clean_comps p = clean_comps r"
    using assms c join_inj by (simp add: path_clean_rooted)
  show ?thesis
  proof (cases "clean_comps r = []")
    case True
    then show ?thesis using assms eq by (auto simp: path_clean_rooted has_prefix_iff strict_prefix_def)
  next
    case False
    then have "path_clean r \<noteq> ''/''" using assms join_comps_Nil [OF c(1)] by (simp add: path_clean_rooted)
    then have "has_prefix (path_clean p) (if path_clean r = ''/'' then ''/'' else path_clean r @ ''/'')
        \<longleftrightarrow> strict_prefix (clean_comps r) (clean_comps p)"
      using assms prefix_join [OF c False] by (simp add: path_clean_rooted has_prefix_Cons prefix_has_prefix)
    then show ?thesis using eq by (auto simp: strict_prefix_def)
  qed
qed

section \<open>Files of a directory\<close>

definition plain_name :: "bytes \<Rightarrow> bool" where
  "plain_name n \<longleftrightarrow> path_comp n \<and> n \<noteq> ''.'' \<and> n \<noteq> ''..''"

lemma split_on_append: "split_on c (a @ c # b) = split_on c a @ split_on c b"
proof (induction a)
  case (Cons x a)
  then show ?case by (cases "split_on c a") auto
qed simp

lemma path_comps_append: "path_comps (a @ CHR ''/'' # b) = path_comps a @ path_comps b"
  by (simp add: path_comps_def split_on_append)

lemma path_comps_plain: "plain_name n \<Longrightarrow> path_comps n = [n]"
  by (simp add: path_comps_def plain_name_def path_comp_def split_on_word)

lemma path_comps_join: "list_all plain_name xs \<Longrightarrow> path_comps (join ''/'' (h # xs)) = path_comps h @ xs"
proof (induction xs arbitrary: h)
  case (Cons x xs)
  then show ?case by (simp add: join_Cons path_comps_append path_comps_plain)
qed simp

lemma clean_plain: "list_all plain_name xs \<Longrightarrow> foldl (clean_step r) st xs = st @ xs"
  by (induction xs arbitrary: st) (auto simp: clean_step_def plain_name_def)

lemma rooted_join: "rooted h \<Longrightarrow> rooted (join ''/'' (h # xs))"
  by (cases xs) (auto simp: rooted_def)

lemma path_join_names:
  assumes "rooted h" "list_all plain_name xs"
  shows "path_join (h # xs) = CHR ''/'' # join ''/'' (clean_comps h @ xs)"
proof -
  have "filter (\<lambda>e. e \<noteq> []) (h # xs) = h # xs"
    using assms by (auto simp: rooted_def plain_name_def path_comp_def list_all_iff)
  moreover have "clean_comps (join ''/'' (h # xs)) = clean_comps h @ xs"
    using assms by (simp add: clean_comps_def path_comps_join rooted_join clean_plain)
  ultimately show ?thesis using rooted_join [OF assms(1), of xs] by (simp add: path_join_def path_clean_def)
qed

text \<open>Two files named by plain components below one directory are the same exactly when their components are.\<close>

lemma path_join_inj:
  assumes "rooted h" "list_all plain_name xs" "list_all plain_name ys"
  shows "path_join (h # xs) = path_join (h # ys) \<longleftrightarrow> xs = ys"
proof -
  have "list_all path_comp xs" "list_all path_comp ys" using assms(2,3) by (auto simp: plain_name_def list_all_iff)
  then show ?thesis
    using assms clean_comps_comp [of h] join_inj [of "clean_comps h @ xs" "clean_comps h @ ys"]
    by (simp add: path_join_names)
qed

lemma clean_fold_plain:
  "list_all path_comp cs \<Longrightarrow> list_all plain_name st \<Longrightarrow> list_all plain_name (foldl (clean_step True) st cs)"
proof (induction cs arbitrary: st)
  case (Cons c cs)
  have "list_all plain_name (clean_step True st c)"
    using Cons.prems by (auto simp: clean_step_def list_all_iff plain_name_def dest: in_set_butlastD)
  then show ?case using Cons by simp
qed simp

lemma clean_comps_plain: "rooted p \<Longrightarrow> list_all plain_name (clean_comps p)"
  unfolding clean_comps_def by (simp add: clean_fold_plain path_comps_comp)

lemma clean_comps_names: "list_all plain_name cs \<Longrightarrow> clean_comps (CHR ''/'' # join ''/'' cs) = cs"
proof (cases "cs = []")
  case True
  then show ?thesis by (simp add: clean_comps_def path_comps_def)
next
  case False
  assume p: "list_all plain_name cs"
  have "CHR ''/'' # join ''/'' cs = join ''/'' ([] # cs)" using False by (simp add: join_Cons)
  then show ?thesis using path_comps_join [OF p, of "[]"] p
    by (simp add: clean_comps_def clean_plain) (simp add: path_comps_def)
qed

lemma path_join_join:
  assumes "rooted h" "list_all plain_name xs" "list_all plain_name ys"
  shows "path_join (path_join (h # xs) # ys) = path_join (h # xs @ ys)"
proof -
  have d: "path_join (h # xs) = CHR ''/'' # join ''/'' (clean_comps h @ xs)"
    using assms by (simp add: path_join_names)
  have "clean_comps (path_join (h # xs)) = clean_comps h @ xs"
    unfolding d using assms clean_comps_plain [OF assms(1)] by (intro clean_comps_names) simp
  moreover have "rooted (path_join (h # xs))" unfolding d by (simp add: rooted_def)
  ultimately show ?thesis using assms path_join_names [of "path_join (h # xs)" ys] path_join_names [of h "xs @ ys"] by simp
qed

end
