(* ===== verification/Enroll.thy ===== *)
theory Enroll
  imports GoPath SelfUpdate CloudState Config
begin

text \<open>
  \<open>claude-master cloud enroll\<close> of \<open>cmd/claude-master/main.go\<close>: a code is exchanged for the settings of a cloud, which are
  written to the files under the home directory. Files are a map from paths to contents. Parameters: the request, the JSON
  coding of the list of clouds, the quoting of \<open>%q\<close>, the order in which a Go map is visited, and the outcome of writes.
\<close>

text \<open>\<open>strings.Replace\<close> of the first occurrence.\<close>

definition replace_first :: "bytes \<Rightarrow> bytes \<Rightarrow> bytes \<Rightarrow> bytes" where
  "replace_first s old new =
     (case index_sub s old of None \<Rightarrow> s | Some i \<Rightarrow> take i s @ new @ drop (i + length old) s)"

fun enroll_args :: "bytes list \<Rightarrow> bytes \<times> bytes \<Rightarrow> bytes \<times> bytes" where
  "enroll_args [] cr = cr"
| "enroll_args [a] (code, relay) =
     (if a = ''--relay'' then (code, relay) else (if code = [] then a else code, relay))"
| "enroll_args (a # b # as) (code, relay) =
     (if a = ''--relay'' then enroll_args as (code, b)
      else enroll_args (b # as) (if code = [] then a else code, relay))"

definition http_base :: "bytes \<Rightarrow> bytes" where
  "http_base relay = replace_first (replace_first relay ''wss://'' ''https://'') ''ws://'' ''http://''"

section \<open>The settings file\<close>

definition toml_dropped :: "bytes list \<Rightarrow> bytes \<Rightarrow> bool" where
  "toml_dropped ks ln \<longleftrightarrow>
     list_ex (\<lambda>k. has_prefix (trim_space ln) (k @ '' '') \<or> has_prefix (trim_space ln) (k @ ''='')) ks"

definition toml_kept :: "bytes list \<Rightarrow> bytes option \<Rightarrow> bytes list" where
  "toml_kept ks old =
     (case old of
        None \<Rightarrow> []
      | Some b \<Rightarrow> filter (\<lambda>ln. \<not> toml_dropped ks ln \<and> trim_space ln \<noteq> []) (split_on (CHR 0x0A) b))"

definition toml_line :: "(bytes \<Rightarrow> bytes) \<Rightarrow> bytes \<times> bytes \<Rightarrow> bytes" where
  "toml_line quote kv = fst kv @ '' = '' @ quote (snd kv)"

definition write_toml_keys :: "(bytes \<Rightarrow> bytes) \<Rightarrow> (bytes \<times> bytes) list \<Rightarrow> bytes option \<Rightarrow> bytes" where
  "write_toml_keys quote kvs old =
     join [CHR 0x0A] (toml_kept (map fst kvs) old @ map (toml_line quote) kvs) @ [CHR 0x0A]"

section \<open>Enrolling\<close>

record enroll_reply =
  er_project :: bytes
  er_relay :: bytes
  er_sa :: bytes

text \<open>
  \<open>en_post\<close>: the status of the reply and its decoded body. \<open>en_decode\<close>: whether the text decodes, and what \<open>Unmarshal\<close> has
  stored. \<open>en_left p = Some l\<close>: writing \<open>p\<close> fails and leaves \<open>l\<close> behind.
\<close>

record 'w enroll_env =
  en_home :: bytes
  en_cfg :: config
  en_sa_default :: "files \<Rightarrow> bytes"
  en_post :: "bytes \<Rightarrow> bytes \<Rightarrow> (int \<times> enroll_reply option) option"
  en_decode :: "bytes \<Rightarrow> bool \<times> cloud list"
  en_encode :: "cloud list \<Rightarrow> bytes"
  en_quote :: "bytes \<Rightarrow> bytes"
  en_order :: "(bytes \<times> bytes) list \<Rightarrow> (bytes \<times> bytes) list"
  en_left :: "bytes \<Rightarrow> bytes option option"
  en_rename :: bool
  en_store :: "bytes \<Rightarrow> bytes \<Rightarrow> 'w store option"

datatype enroll_error = EnUsage | EnConnect | EnStatus int | EnReply | EnKey | EnClouds | EnSettings

datatype enrolled = Enrolled bool bytes | EnrollFailed enroll_error

definition write_file :: "'w enroll_env \<Rightarrow> bytes \<Rightarrow> bytes \<Rightarrow> files \<Rightarrow> bool \<times> files" where
  "write_file e p c fs = (case en_left e p of None \<Rightarrow> (True, fs(p \<mapsto> c)) | Some l \<Rightarrow> (False, fs(p := l)))"

definition master_dir :: "bytes \<Rightarrow> bytes" where
  "master_dir home = path_join [home, ''.claude-master'']"

definition clouds_file :: "bytes \<Rightarrow> bytes" where
  "clouds_file home = (if home = [] then [] else path_join [home, ''.claude-master'', ''clouds.json''])"

definition file_exists :: "files \<Rightarrow> bytes \<Rightarrow> bool" where
  "file_exists fs p \<longleftrightarrow> p \<noteq> [] \<and> fs p \<noteq> None"

definition clouds_have_project :: "cloud list \<Rightarrow> bytes \<Rightarrow> bool" where
  "clouds_have_project cs p \<longleftrightarrow> list_ex (\<lambda>c. cl_project c = p) cs"

definition read_clouds :: "'w enroll_env \<Rightarrow> files \<Rightarrow> cloud list" where
  "read_clouds e fs =
     load_clouds (en_cfg e)
       (if clouds_file (en_home e) = [] then None
        else case fs (clouds_file (en_home e)) of
          None \<Rightarrow> None | Some b \<Rightarrow> if fst (en_decode e b) then Some (snd (en_decode e b)) else None)
       (en_sa_default e fs)"

text \<open>\<open>Config.AppendCloud\<close>: the list is written to a temporary file, which is renamed.\<close>

definition append_cloud_file :: "'w enroll_env \<Rightarrow> cloud \<Rightarrow> cloud list \<Rightarrow> files \<Rightarrow> bool \<times> files" where
  "append_cloud_file e add existing fs =
     (let f = clouds_file (en_home e); tmp = f @ ''.tmp'' in
      if f = [] then (False, fs)
      else let decoded = (case fs f of None \<Rightarrow> [] | Some b \<Rightarrow> snd (en_decode e b));
               new = en_encode e (append_cloud add existing decoded)
        in case write_file e tmp new fs of
             (False, fs) \<Rightarrow> (False, fs)
           | (True, fs) \<Rightarrow> if en_rename e then (True, (fs(tmp := None))(f \<mapsto> new)) else (False, fs))"

definition is_additional :: "'w enroll_env \<Rightarrow> files \<Rightarrow> bytes \<Rightarrow> bool" where
  "is_additional e fs project \<longleftrightarrow>
     file_exists fs (clouds_file (en_home e))
     \<or> read_clouds e fs \<noteq> [] \<and> \<not> clouds_have_project (read_clouds e fs) project"

definition key_file :: "'w enroll_env \<Rightarrow> bool \<Rightarrow> enroll_reply \<Rightarrow> bytes" where
  "key_file e additional b =
     (if er_sa b = [] then []
      else path_join [master_dir (en_home e), if additional then ''sa-'' @ er_project b @ ''.json'' else ''sa.json''])"

definition record_cloud :: "'w enroll_env \<Rightarrow> bytes \<Rightarrow> enroll_reply \<Rightarrow> bool \<Rightarrow> bytes \<Rightarrow> cloud list \<Rightarrow> files \<Rightarrow> enroll_error option \<times> files" where
  "record_cloud e relay b additional sa existing fs =
     (let url = (if er_relay b = [] then relay else er_relay b) in
      if additional then
        (case append_cloud_file e \<lparr>cl_project = er_project b, cl_relay_url = url, cl_sa_key_path = sa,
             cl_pc_name = cf_pc_id (en_cfg e)\<rparr> existing fs of
           (ok, fs) \<Rightarrow> (if ok then None else Some EnClouds, fs))
      else
        (let p = path_join [en_home e, ''.claude-master.toml'']
         in case write_file e p (write_toml_keys (en_quote e)
               (en_order e [(''GCP_PROJECT'', er_project b), (''CLOUD_RELAY_URL'', url)]) (fs p)) fs of
              (ok, fs) \<Rightarrow> (if ok then None else Some EnSettings, fs)))"

text \<open>The revocation of this machine is lifted with the new key, when the store can be reached.\<close>

definition lift_revocation :: "'w enroll_env \<Rightarrow> bytes \<Rightarrow> bytes \<Rightarrow> 'w \<Rightarrow> 'w" where
  "lift_revocation e project sa w =
     (if sa = [] \<or> project = [] then w
      else case en_store e project sa of
          None \<Rightarrow> w
        | Some st \<Rightarrow> snd (clear_revoked st (cf_pc_id (en_cfg e)) w))"

definition store_key :: "'w enroll_env \<Rightarrow> bytes \<Rightarrow> enroll_reply \<Rightarrow> files \<Rightarrow> bool \<times> files" where
  "store_key e sa b fs = (if er_sa b = [] then (True, fs) else write_file e sa (er_sa b) fs)"

definition run_cloud_enroll :: "'w enroll_env \<Rightarrow> bytes list \<Rightarrow> files \<Rightarrow> 'w \<Rightarrow> enrolled \<times> files \<times> 'w" where
  "run_cloud_enroll e args fs w =
     (case enroll_args args ([], []) of (code, relay) \<Rightarrow>
        if code = [] \<or> relay = [] then (EnrollFailed EnUsage, fs, w)
        else case en_post e (http_base relay @ ''/enroll'') code of
            None \<Rightarrow> (EnrollFailed EnConnect, fs, w)
          | Some (status, body) \<Rightarrow>
              if status \<noteq> 200 then (EnrollFailed (EnStatus status), fs, w)
              else case body of
                  None \<Rightarrow> (EnrollFailed EnReply, fs, w)
                | Some b \<Rightarrow>
                    (let existing = read_clouds e fs;
                         additional = is_additional e fs (er_project b);
                         sa = key_file e additional b
                     in case store_key e sa b fs of
                          (False, fs) \<Rightarrow> (EnrollFailed EnKey, fs, w)
                        | (True, fs) \<Rightarrow>
                            (case record_cloud e relay b additional sa existing fs of
                               (Some er, fs) \<Rightarrow> (EnrollFailed er, fs, w)
                             | (None, fs) \<Rightarrow> (Enrolled additional sa, fs, lift_revocation e (er_project b) sa w))))"

section \<open>The lines of the settings file\<close>

text \<open>What is used of \<open>%q\<close>: the text is quoted and on one line.\<close>

definition quoting :: "(bytes \<Rightarrow> bytes) \<Rightarrow> bool" where
  "quoting q \<longleftrightarrow> (\<forall>v. \<exists>x. q v = CHR 0x22 # x @ [CHR 0x22] \<and> CHR 0x0A \<notin> set x)"

definition plain_key :: "bytes \<Rightarrow> bool" where
  "plain_key k \<longleftrightarrow> k \<noteq> [] \<and> plain_char (hd k) \<and> CHR 0x0A \<notin> set k"

lemma quote_no_space: "space_len_rev (CHR 0x22 # cs) = 0"
proof -
  have "\<not> wide_space (rev (take 3 (CHR 0x22 # cs)))"
    by (rule ascii_not_wide [of "CHR 0x22"]) auto
  then show ?thesis by (simp add: ascii_space_def)
qed

lemma toml_line_trim:
  assumes "quoting q" "plain_key (fst kv)"
  shows "trim_space (toml_line q kv) = toml_line q kv"
proof -
  obtain x where x: "q (snd kv) = CHR 0x22 # x @ [CHR 0x22]" using assms(1) by (auto simp: quoting_def)
  obtain c cs where k: "fst kv = c # cs" "plain_char c" using assms(2) by (cases "fst kv") (auto simp: plain_key_def)
  have r: "rev (toml_line q kv) = CHR 0x22 # rev x @ CHR 0x22 # '' = '' @ rev (fst kv)" by (simp add: toml_line_def x)
  have "trim_right_rev (rev (toml_line q kv)) = rev (toml_line q kv)"
    unfolding r by (subst trim_right_rev.simps) (simp add: quote_no_space del: space_len_rev.simps)
  moreover have "space_len (toml_line q kv) = 0" by (simp add: toml_line_def k space_len_plain del: space_len.simps)
  ultimately show ?thesis by (simp add: trim_space_def trim_left_id)
qed

lemma toml_line_dropped:
  assumes "quoting q" "plain_key (fst kv)" "fst kv \<in> set ks"
  shows "toml_dropped ks (toml_line q kv)"
proof -
  have "has_prefix (toml_line q kv) (fst kv @ '' '')" by (auto simp: toml_line_def has_prefix_iff)
  then show ?thesis using assms toml_line_trim [OF assms(1,2)] by (auto simp: toml_dropped_def list_ex_iff)
qed

lemma toml_line_one_line: "quoting q \<Longrightarrow> plain_key (fst kv) \<Longrightarrow> CHR 0x0A \<notin> set (toml_line q kv)"
  unfolding toml_line_def plain_key_def quoting_def by (drule spec [of _ "snd kv"]) auto

lemma toml_kept_one_line: "ln \<in> set (toml_kept ks old) \<Longrightarrow> CHR 0x0A \<notin> set ln"
  using split_no_sep [of ln "CHR 0x0A"] by (auto simp: toml_kept_def split: option.splits)

lemma toml_lines:
  assumes "quoting q" "list_all (\<lambda>kv. plain_key (fst kv)) kvs" "kvs \<noteq> []"
  shows "split_on (CHR 0x0A) (write_toml_keys q kvs old) = toml_kept (map fst kvs) old @ map (toml_line q) kvs @ [[]]"
proof -
  let ?ls = "toml_kept (map fst kvs) old @ map (toml_line q) kvs"
  have "split_on (CHR 0x0A) (join [CHR 0x0A] ?ls) = ?ls"
    using assms toml_line_one_line by (intro split_on_join) (auto dest: toml_kept_one_line simp: list_all_iff)
  then show ?thesis by (simp add: write_toml_keys_def split_on_append)
qed

lemma dropped_same_keys: "set ks = set ks' \<Longrightarrow> toml_dropped ks ln = toml_dropped ks' ln"
  by (simp add: toml_dropped_def list_ex_iff)

lemma toml_kept_again:
  assumes q: "quoting q" and k: "list_all (\<lambda>kv. plain_key (fst kv)) kvs" "kvs \<noteq> []" and s: "set ks = fst ` set kvs"
  shows "toml_kept ks (Some (write_toml_keys q kvs old)) = toml_kept ks old"
proof -
  have d: "toml_dropped ks = toml_dropped (map fst kvs)" by (rule ext, rule dropped_same_keys) (simp add: s)
  have e: "toml_kept (map fst kvs) old = toml_kept ks old" by (simp add: toml_kept_def d split: option.split)
  have "filter (\<lambda>ln. \<not> toml_dropped ks ln \<and> trim_space ln \<noteq> []) (map (toml_line q) kvs) = []"
    using toml_line_dropped [OF q] k s by (auto simp: filter_empty_conv list_all_iff)
  moreover have "filter (\<lambda>ln. \<not> toml_dropped ks ln \<and> trim_space ln \<noteq> []) (toml_kept ks old) = toml_kept ks old"
    by (simp add: toml_kept_def filter_filter split: option.split)
  moreover have "trim_space [] = []" by (simp add: trim_space_def trim_right_rev.simps trim_left.simps)
  ultimately show ?thesis
    by (simp add: toml_kept_def [of ks "Some (write_toml_keys q kvs old)"] toml_lines [OF q k] e)
qed

section \<open>The list of clouds\<close>

lemma usable_filter:
  "filter (\<lambda>c. cl_project c \<noteq> p) (usable_clouds cfg cs) = usable_clouds cfg (filter (\<lambda>c. cl_project c \<noteq> p) cs)"
  by (induction cs) (auto simp: usable_clouds_def)

lemma usable_loaded:
  assumes "list_all (\<lambda>c. cl_relay_url c \<noteq> []) (load_clouds cfg d k)"
  shows "usable_clouds cfg (load_clouds cfg d k) = load_clouds cfg d k"
proof -
  have "usable_clouds cfg (usable_clouds cfg cs) = usable_clouds cfg cs" for cs
    by (induction cs) (auto simp: usable_clouds_def)
  then show ?thesis using assms by (auto simp: load_clouds_def Let_def usable_clouds_def split: option.splits if_splits)
qed

lemma usable_Nil_iff: "usable_clouds cfg cs = [] \<longleftrightarrow> list_all (\<lambda>c. cl_project c = [] \<or> cl_relay_url c = []) cs"
  by (auto simp: usable_clouds_def filter_empty_conv list_all_iff)

text \<open>After an addition the usable clouds of the other projects are those that were loaded before.\<close>

lemma added_clouds:
  assumes ex: "existing = load_clouds cfg before k" and rel: "list_all (\<lambda>c. cl_relay_url c \<noteq> []) existing"
    and dec: "decoded = [] \<or> before = Some decoded \<and> usable_clouds cfg decoded \<noteq> []"
    and add: "cl_project add \<noteq> []" "cl_relay_url add \<noteq> []" "cl_pc_name add = cf_pc_id cfg"
  shows "filter (\<lambda>c. cl_project c \<noteq> cl_project add) (load_clouds cfg (Some (append_cloud add existing decoded)) k')
      = filter (\<lambda>c. cl_project c \<noteq> cl_project add) existing
    \<and> add \<in> set (load_clouds cfg (Some (append_cloud add existing decoded)) k')"
proof -
  let ?new = "append_cloud add existing decoded"
  note ap = append_cloud_keeps [where add = add and decoded = decoded and existing = existing, OF refl]
  have fill: "(if cl_pc_name add = [] then add\<lparr>cl_pc_name := cf_pc_id cfg\<rparr> else add) = add" using add(3) by simp
  have "add \<in> set (usable_clouds cfg ?new)"
    unfolding usable_clouds_def set_map using ap add fill by (intro image_eqI [of _ _ add]) auto
  then have l: "load_clouds cfg (Some ?new) k' = usable_clouds cfg ?new" "add \<in> set (usable_clouds cfg ?new)"
    by (auto simp: load_clouds_def Let_def)
  have base: "usable_clouds cfg (if decoded = [] then existing else decoded) = existing"
    using dec rel by (auto simp: ex usable_loaded) (auto simp: load_clouds_def Let_def)
  have "filter (\<lambda>c. cl_project c \<noteq> cl_project add) (usable_clouds cfg ?new)
      = usable_clouds cfg (filter (\<lambda>c. cl_project c \<noteq> cl_project add) ?new)" by (rule usable_filter)
  also have "\<dots> = usable_clouds cfg (filter (\<lambda>c. cl_project c \<noteq> cl_project add) (if decoded = [] then existing else decoded))"
    using ap by simp
  also have "\<dots> = filter (\<lambda>c. cl_project c \<noteq> cl_project add) existing"
    unfolding usable_filter [symmetric] base ..
  finally have "filter (\<lambda>c. cl_project c \<noteq> cl_project add) (usable_clouds cfg ?new)
      = filter (\<lambda>c. cl_project c \<noteq> cl_project add) existing" .
  then show ?thesis using l by simp
qed

text \<open>
  When the file holds only clouds that are not usable, the cloud of the environment is what the machine was connected to;
  it is not in the list that is written, and the machine is no longer connected to it.
\<close>

lemma env_cloud_lost:
  assumes "decoded \<noteq> []" "usable_clouds cfg decoded = []" "cl_project add \<noteq> []" "cl_relay_url add \<noteq> []"
    "c \<in> set (load_clouds cfg (Some (append_cloud add (load_clouds cfg (Some decoded) k) decoded)) k')"
  shows "cl_project c = cl_project add"
proof -
  let ?new = "append_cloud add (load_clouds cfg (Some decoded) k) decoded"
  note ap = append_cloud_keeps [where add = add and decoded = decoded and existing = "load_clouds cfg (Some decoded) k", OF refl]
  have "filter (\<lambda>c. cl_project c \<noteq> cl_project add) (usable_clouds cfg ?new)
      = usable_clouds cfg (filter (\<lambda>c. cl_project c \<noteq> cl_project add) decoded)"
    unfolding usable_filter using ap assms(1) by simp
  then have e: "filter (\<lambda>c. cl_project c \<noteq> cl_project add) (usable_clouds cfg ?new) = []"
    using usable_filter [of "cl_project add" cfg decoded] assms(2) by simp
  have "usable_clouds cfg ?new \<noteq> []" using ap assms(3,4) by (auto simp: usable_Nil_iff list_all_iff)
  then have "c \<in> set (usable_clouds cfg ?new)" using assms(5) by (simp add: load_clouds_def Let_def)
  then show ?thesis using e by (auto simp: filter_empty_conv)
qed

section \<open>The files\<close>

lemma plain_names [simp]:
  "plain_name ''.claude-master''" "plain_name ''clouds.json''" "plain_name ''sa.json''" "plain_name ''.claude-master.toml''"
  by (simp_all add: plain_name_def path_comp_def)

lemma join_last: "join sep (xs @ [a]) @ b = join sep (xs @ [a @ b])"
proof (induction xs)
  case (Cons x xs)
  then show ?case by (simp add: join_Cons)
qed simp

lemma master_file: "rooted home \<Longrightarrow> plain_name n \<Longrightarrow> path_join [master_dir home, n] = path_join [home, ''.claude-master'', n]"
  using path_join_join [of home "[''.claude-master'']" "[n]"] by (simp add: master_dir_def)

lemma sa_name: "CHR ''/'' \<notin> set p \<Longrightarrow> plain_name (''sa-'' @ p @ ''.json'')"
  by (simp add: plain_name_def path_comp_def)

lemma sa_names_differ: "''sa-'' @ p @ ''.json'' \<noteq> ''sa.json''" "''sa-'' @ p @ ''.json'' \<noteq> ''clouds.json''"
  by simp_all

text \<open>The project of a reply is not checked; one with separators in it leads out of its name, to the key of the first cloud.\<close>

lemma project_escapes:
  assumes "rooted home" "er_project b = ''x/../sa''" "er_sa b \<noteq> []" "en_home e = home"
  shows "key_file e True b = path_join [master_dir home, ''sa.json'']"
proof -
  let ?d = "master_dir home"
  have d: "?d \<noteq> []" using path_join_names [of home "[''.claude-master'']"] assms(1) by (simp add: master_dir_def)
  have p: "path_comps ''sa-x/../sa.json'' = [''sa-x'', ''..'', ''sa.json'']" by (simp add: path_comps_def)
  have "clean_comps (?d @ ''/sa-x/../sa.json'') = clean_comps (?d @ ''/sa.json'')"
    using d path_comps_append [of ?d "''sa-x/../sa.json''"] path_comps_append [of ?d "''sa.json''"] p
    by (simp add: clean_comps_def clean_step_def rooted_def path_comps_plain)
  moreover have "rooted (?d @ ''/sa-x/../sa.json'') = rooted (?d @ ''/sa.json'')" using d by (simp add: rooted_def)
  ultimately show ?thesis using d assms by (simp add: key_file_def path_join_def path_clean_def)
qed

lemma write_file_other: "write_file e p c fs = (ok, fs') \<Longrightarrow> q \<noteq> p \<Longrightarrow> fs' q = fs q"
  by (auto simp: write_file_def split: option.splits)

lemma append_cloud_file_effect:
  assumes "append_cloud_file e add existing fs = (True, fs')"
  shows "fs' (clouds_file (en_home e)) = Some (en_encode e (append_cloud add existing
           (case fs (clouds_file (en_home e)) of None \<Rightarrow> [] | Some b \<Rightarrow> snd (en_decode e b))))
    \<and> clouds_file (en_home e) \<noteq> []
    \<and> (\<forall>q. q \<noteq> clouds_file (en_home e) \<longrightarrow> q \<noteq> clouds_file (en_home e) @ ''.tmp'' \<longrightarrow> fs' q = fs q)"
  using assms write_file_other [of e "clouds_file (en_home e) @ ''.tmp''" _ fs]
  by (auto simp: append_cloud_file_def Let_def split: prod.splits bool.splits if_splits)

text \<open>The files of an enrolment in a further cloud: the new key, the list and its temporary file; the two that stay are others.\<close>

lemma enroll_paths:
  assumes h: "rooted (en_home e)" and p: "CHR ''/'' \<notin> set (er_project b)"
  defines "f \<equiv> clouds_file (en_home e)" and "key \<equiv> key_file e True b"
  shows "key \<noteq> f \<and> path_join [master_dir (en_home e), ''sa.json''] \<notin> {f, f @ ''.tmp'', key}
    \<and> path_join [en_home e, ''.claude-master.toml''] \<notin> {f, f @ ''.tmp'', key}"
proof -
  let ?h = "en_home e" and ?n = "''sa-'' @ er_project b @ ''.json''"
  have f: "f = path_join [?h, ''.claude-master'', ''clouds.json'']" using h by (auto simp: f_def clouds_file_def rooted_def)
  have key: "key = (if er_sa b = [] then [] else path_join [?h, ''.claude-master'', ?n])"
    using master_file [OF h sa_name [OF p]] by (simp add: key_def key_file_def)
  have n: "path_join [?h, ''.claude-master'', x] \<noteq> []" if "plain_name x" for x
    using path_join_names [of ?h "[''.claude-master'', x]"] h that by simp
  note inj = path_join_inj [OF h]
  have ps: "list_all plain_name [''.claude-master'', ?n]" using sa_name [OF p] by simp
  have tmp: "f @ ''.tmp'' = path_join [?h, ''.claude-master'', ''clouds.json.tmp'']"
    using path_join_names [of ?h "[''.claude-master'', ''clouds.json'']"] path_join_names [of ?h "[''.claude-master'', ''clouds.json.tmp'']"]
      join_last [of "''/''" "clean_comps ?h @ [''.claude-master'']" "''clouds.json''" "''.tmp''"]
      h f by (simp add: plain_name_def path_comp_def)
  have t: "plain_name ''clouds.json.tmp''" by (simp add: plain_name_def path_comp_def)
  have sa: "path_join [master_dir ?h, ''sa.json''] = path_join [?h, ''.claude-master'', ''sa.json'']" using h by (simp add: master_file)
  have "key \<noteq> f" using n [of "''clouds.json''"] inj [OF ps, of "[''.claude-master'', ''clouds.json'']"] by (simp add: key f)
  moreover have "path_join [master_dir ?h, ''sa.json''] \<notin> {f, f @ ''.tmp'', key}"
    using t n [of "''sa.json''"] inj [OF ps, of "[''.claude-master'', ''sa.json'']"] unfolding sa tmp by (auto simp: key f inj)
  moreover have "path_join [?h, ''.claude-master.toml''] \<notin> {f, f @ ''.tmp'', key}"
    using t path_join_names [of ?h "[''.claude-master.toml'']"] h inj [OF ps, of "[''.claude-master.toml'']"]
    unfolding tmp by (auto simp: key f inj)
  ultimately show ?thesis by blast
qed

text \<open>What an enrolment in a further cloud writes.\<close>

lemma enroll_writes:
  assumes "run_cloud_enroll e args fs w = (Enrolled True sa, fs', w')"
    and "enroll_args args ([], []) = (code, relay)" "en_post e (http_base relay @ ''/enroll'') code = Some (200, Some b)"
    and "rooted (en_home e)" "CHR ''/'' \<notin> set (er_project b)"
  defines "f \<equiv> clouds_file (en_home e)"
    and "add \<equiv> \<lparr>cl_project = er_project b, cl_relay_url = if er_relay b = [] then relay else er_relay b, cl_sa_key_path = sa,
      cl_pc_name = cf_pc_id (en_cfg e)\<rparr>"
  shows "sa = key_file e True b \<and> relay \<noteq> [] \<and> f \<noteq> []
    \<and> (\<forall>q. q \<notin> {f, f @ ''.tmp'', sa} \<longrightarrow> fs' q = fs q)
    \<and> fs' f = Some (en_encode e (append_cloud add (read_clouds e fs) (case fs f of None \<Rightarrow> [] | Some t \<Rightarrow> snd (en_decode e t))))"
proof -
  have relay: "relay \<noteq> []" using assms(1,2) by (auto simp: run_cloud_enroll_def split: if_splits)
  have sa: "sa = key_file e True b"
    and r: "\<exists>fs1. store_key e sa b fs = (True, fs1) \<and> append_cloud_file e add (read_clouds e fs) fs1 = (True, fs')"
    using assms(1,2,3) unfolding add_def
    by (auto simp: run_cloud_enroll_def record_cloud_def Let_def split: if_splits prod.splits bool.splits option.splits)
  then obtain fs1 where k: "store_key e sa b fs = (True, fs1)" and a: "append_cloud_file e add (read_clouds e fs) fs1 = (True, fs')"
    by blast
  have o1: "fs1 q = fs q" if "q \<noteq> sa" for q
    using k that write_file_other [of e sa "er_sa b" fs True fs1] by (auto simp: store_key_def split: if_splits)
  have d: "fs1 f = fs f" using o1 enroll_paths [OF assms(4,5)] by (auto simp: sa f_def)
  note ef = append_cloud_file_effect [OF a, folded f_def]
  show ?thesis using relay sa ef d o1 by auto
qed

section \<open>Claims\<close>


text \<open>A coding of lists of clouds, for the example.\<close>

definition demo_str :: "bytes \<Rightarrow> bytes" where
  "demo_str s = concat (map (\<lambda>c. [CHR ''x'', c]) s) @ ''.''"

fun demo_unstr :: "bytes \<Rightarrow> bytes \<times> bytes" where
  "demo_unstr (a # b # r) =
     (if a = CHR ''x'' then (b # fst (demo_unstr r), snd (demo_unstr r)) else ([], b # r))"
| "demo_unstr t = ([], [])"

definition demo_cloud :: "cloud \<Rightarrow> bytes" where
  "demo_cloud c = demo_str (cl_project c) @ demo_str (cl_relay_url c) @ demo_str (cl_sa_key_path c) @ demo_str (cl_pc_name c)"

fun demo_clouds :: "nat \<Rightarrow> bytes \<Rightarrow> cloud list" where
  "demo_clouds 0 t = []"
| "demo_clouds (Suc n) t =
     (if t = [] then []
      else case demo_unstr t of (p, t) \<Rightarrow> case demo_unstr t of (r, t) \<Rightarrow> case demo_unstr t of (k, t) \<Rightarrow>
        case demo_unstr t of (m, t) \<Rightarrow>
          \<lparr>cl_project = p, cl_relay_url = r, cl_sa_key_path = k, cl_pc_name = m\<rparr> # demo_clouds n t)"

lemma demo_unstr_str: "demo_unstr (demo_str s @ r) = (s, r)"
proof (induction s)
  case Nil
  then show ?case by (cases r) (simp_all add: demo_str_def)
qed (simp add: demo_str_def)

lemma demo_clouds_cloud: "length cs \<le> n \<Longrightarrow> demo_clouds n (concat (map demo_cloud cs)) = cs"
proof (induction cs arbitrary: n)
  case Nil
  then show ?case by (cases n) simp_all
next
  case (Cons c cs)
  then obtain m where n: "n = Suc m" "length cs \<le> m" by (cases n) auto
  have ne: "demo_str s \<noteq> []" for s by (simp add: demo_str_def)
  have "demo_unstr (demo_str s @ r @ t) = (s, r @ t)" for s r t using demo_unstr_str [of s "r @ t"] by simp
  then show ?case using Cons.IH [OF n(2)] ne by (simp add: n demo_cloud_def demo_unstr_str)
qed

lemma demo_clouds_length: "length cs \<le> length (concat (map demo_cloud cs))"
  by (induction cs) (auto simp: demo_cloud_def demo_str_def)

definition demo_enroll :: "unit enroll_env" where
  "demo_enroll = \<lparr>en_home = ''/h'', en_cfg = load id id (\<lambda>_. None) (\<lambda>_. None) id None False, en_sa_default = (\<lambda>_. []),
     en_post = (\<lambda>url code. Some (200, Some \<lparr>er_project = ''b'', er_relay = ''wss://b'', er_sa = ''key''\<rparr>)),
     en_decode = (\<lambda>t. (True, demo_clouds (length t) t)), en_encode = (\<lambda>cs. concat (map demo_cloud cs)),
     en_quote = id, en_order = rev, en_left = (\<lambda>_. None), en_rename = True, en_store = (\<lambda>_ _. None)\<rparr>"


text \<open>Writing settings replaces lines and keeps the rest: the file written consists of the old lines, in their order, that
  are not blank and do not set one of the keys, followed by one line for each key; writing other values afterwards gives
  what writing them at once would have given.\<close>
theorem settings_rewritten:
  assumes "quoting q" "list_all (\<lambda>kv. plain_key (fst kv)) kvs" "kvs \<noteq> []"
  shows "split_on (CHR 0x0A) (write_toml_keys q kvs old) = toml_kept (map fst kvs) old @ map (toml_line q) kvs @ [[]]
    \<and> (\<forall>kvs'. fst ` set kvs' = fst ` set kvs \<longrightarrow>
         write_toml_keys q kvs' (Some (write_toml_keys q kvs old)) = write_toml_keys q kvs' old)"
proof (intro conjI allI impI)
  show "split_on (CHR 0x0A) (write_toml_keys q kvs old) = toml_kept (map fst kvs) old @ map (toml_line q) kvs @ [[]]"
    by (rule toml_lines [OF assms])
  fix kvs' :: "(bytes \<times> bytes) list" assume "fst ` set kvs' = fst ` set kvs"
  then have "toml_kept (map fst kvs') (Some (write_toml_keys q kvs old)) = toml_kept (map fst kvs') old"
    by (intro toml_kept_again [OF assms]) simp
  then show "write_toml_keys q kvs' (Some (write_toml_keys q kvs old)) = write_toml_keys q kvs' old"
    by (simp add: write_toml_keys_def [of q kvs'])
qed

definition demo_quote :: "bytes \<Rightarrow> bytes" where
  "demo_quote v = CHR 0x22 # filter (\<lambda>c. c \<noteq> CHR 0x0A) v @ [CHR 0x22]"

theorem settings_rewritten_witness:
  "write_toml_keys demo_quote [(''GCP_PROJECT'', ''p'')] (Some (write_toml_keys demo_quote [(''GCP_PROJECT'', ''q'')] None))
     = write_toml_keys demo_quote [(''GCP_PROJECT'', ''p'')] None"
  using settings_rewritten [of demo_quote "[(''GCP_PROJECT'', ''q'')]" None]
  by (simp add: quoting_def demo_quote_def plain_key_def plain_char_def)

end
