(* ===== verification/StartCmd.thy ===== *)
theory StartCmd
  imports GoPath CloudAgent
begin

text \<open>
  \<open>cmd/claude-master/start.go\<close>: the command that attaches to a live session of the current directory, offers the ones
  below it, or starts a new proxy, resuming the directory's last conversation. A reading of the status file is the list of
  its sessions, empty when it cannot be read. Parameters: the readings, scans, the prompt's answer, processes.
\<close>

section \<open>Finding sessions\<close>

definition obj_pid :: "(64 word \<Rightarrow> int) \<Rightarrow> obj \<Rightarrow> int option" where
  "obj_pid trunc s = (case s ''pid'' of Some (AFloat f) \<Rightarrow> Some (trunc f) | _ \<Rightarrow> None)"

text \<open>The best entry so far: key, time and process id. Times are compared as texts.\<close>

definition live_step :: "(64 word \<Rightarrow> int) \<Rightarrow> bytes \<Rightarrow> bytes \<times> bytes \<times> int \<Rightarrow> obj \<Rightarrow> bytes \<times> bytes \<times> int" where
  "live_step trunc cwd b s =
     (case b of (bk, bt, bp) \<Rightarrow>
        if status_str s ''cwd'' \<noteq> cwd then b
        else let key = status_str s ''key''; ts = status_str s ''updated_at'' in
          if key = [] then b
          else if bt < ts then (key, ts, case obj_pid trunc s of Some p \<Rightarrow> p | None \<Rightarrow> bp) else b)"

definition find_live_session_by_cwd :: "(64 word \<Rightarrow> int) \<Rightarrow> obj list \<Rightarrow> bytes \<Rightarrow> bytes \<times> int" where
  "find_live_session_by_cwd trunc ss cwd =
     (case foldl (live_step trunc cwd) ([], [], 0) ss of (k, _, p) \<Rightarrow> (k, p))"

definition find_live_key_by_cwd :: "(64 word \<Rightarrow> int) \<Rightarrow> obj list \<Rightarrow> bytes \<Rightarrow> bytes" where
  "find_live_key_by_cwd trunc ss cwd = fst (find_live_session_by_cwd trunc ss cwd)"

record candidate =
  ca_key :: bytes
  ca_cwd :: bytes
  ca_updated :: bytes
  ca_pid :: int

text \<open>\<open>srt\<close> is \<open>sort.Slice\<close> by descending time, which is not stable.\<close>

definition subtree_candidate :: "(64 word \<Rightarrow> int) \<Rightarrow> bytes \<Rightarrow> obj \<Rightarrow> candidate option" where
  "subtree_candidate trunc cwd s =
     (let root = path_clean cwd; prefix = (if root \<noteq> ''/'' then root @ ''/'' else root);
          c = status_str s ''cwd''; key = status_str s ''key'' in
      if c = [] then None
      else if path_clean c = root then None
      else if \<not> has_prefix (path_clean c) prefix then None
      else if key = [] then None
      else Some \<lparr>ca_key = key, ca_cwd = path_clean c, ca_updated = status_str s ''updated_at'',
        ca_pid = (case obj_pid trunc s of Some p \<Rightarrow> p | None \<Rightarrow> 0)\<rparr>)"

definition find_live_sessions_in_subtree ::
  "(candidate list \<Rightarrow> candidate list) \<Rightarrow> (64 word \<Rightarrow> int) \<Rightarrow> obj list \<Rightarrow> bytes \<Rightarrow> candidate list" where
  "find_live_sessions_in_subtree srt trunc ss cwd = srt (List.map_filter (subtree_candidate trunc cwd) ss)"

definition pick_subtree_candidate :: "bytes \<Rightarrow> nat \<Rightarrow> int" where
  "pick_subtree_candidate input count =
     (let s = trim_space input in
      if s = [] then 0
      else if s = ''0'' \<or> s = ''n'' \<or> s = ''N'' then - 1
      else case atoi s of
          None \<Rightarrow> - 1
        | Some n \<Rightarrow> if n < 1 \<or> int count < n then - 1 else n - 1)"

text \<open>The answer: whether the input is a terminal, the line read and whether reading it ended with an error.\<close>

definition prompt_subtree_pick :: "bool \<Rightarrow> bytes \<Rightarrow> bool \<Rightarrow> nat \<Rightarrow> int" where
  "prompt_subtree_pick tty line err count =
     (if \<not> tty then - 1 else if err \<and> line = [] then - 1 else pick_subtree_candidate line count)"

text \<open>\<open>scan\<close> is \<open>None\<close> when the scan fails; \<open>has_sock\<close> tells whether the socket of a process exists.\<close>

definition find_live_managed_by_uuid :: "claude_session list option \<Rightarrow> (int \<Rightarrow> bool) \<Rightarrow> bytes \<Rightarrow> int option" where
  "find_live_managed_by_uuid scan has_sock uuid =
     (if uuid = [] then None
      else case scan of
          None \<Rightarrow> None
        | Some ss \<Rightarrow> map_option cs_pid (find (\<lambda>s. cs_sid s = uuid \<and> has_sock (cs_pid s)) ss))"

definition resolve_resume_args :: "bytes option \<Rightarrow> bytes list \<Rightarrow> bytes list \<times> bytes" where
  "resolve_resume_args resolved args =
     (if args \<noteq> [] then (args, [])
      else case resolved of Some uuid \<Rightarrow> ([''--resume'', uuid], uuid) | None \<Rightarrow> (args, []))"

text \<open>\<open>snap\<close> is the directory recorded in the snapshot file of a process, empty when there is none.\<close>

definition read_snap_start_cwd :: "(int \<Rightarrow> bytes) \<Rightarrow> int \<Rightarrow> bytes" where
  "read_snap_start_cwd snap pid = (if pid \<le> 0 then [] else snap pid)"

text \<open>The polls of the status file until the time is over, half a second apart.\<close>

fun wait_key_for_cwd :: "(64 word \<Rightarrow> int) \<Rightarrow> bytes \<Rightarrow> obj list list \<Rightarrow> bytes" where
  "wait_key_for_cwd trunc cwd [] = []"
| "wait_key_for_cwd trunc cwd (ss # polls) =
     (let k = find_live_key_by_cwd trunc ss cwd in if k \<noteq> [] then k else wait_key_for_cwd trunc cwd polls)"

definition lookup_status :: "(64 word \<Rightarrow> int) \<Rightarrow> obj list \<Rightarrow> bytes \<Rightarrow> (int \<times> bytes) option" where
  "lookup_status trunc ss sid =
     map_option (\<lambda>s. (case obj_pid trunc s of Some p \<Rightarrow> p | None \<Rightarrow> 0, status_str s ''cwd''))
       (find (\<lambda>s. status_str s ''key'' = sid) ss)"

section \<open>The command\<close>

text \<open>The successive readings of the status file and scans, in the order in which the command makes them.\<close>

record start_env =
  sn_args :: "bytes list"
  sn_cwd :: bytes
  sn_trunc :: "64 word \<Rightarrow> int"
  sn_srt :: "candidate list \<Rightarrow> candidate list"
  sn_status :: "obj list"
  sn_snap :: "int \<Rightarrow> bytes"
  sn_status_restart :: "obj list"
  sn_resolve :: "bytes \<Rightarrow> bytes option"
  sn_kill :: "int \<Rightarrow> bool"
  sn_spawn_resume :: "bytes \<Rightarrow> bytes \<Rightarrow> bool"
  sn_polls_restart :: "obj list list"
  sn_status_subtree :: "obj list"
  sn_tty :: bool
  sn_line :: bytes
  sn_line_err :: bool
  sn_scan :: "claude_session list option"
  sn_scan_late :: "claude_session list option"
  sn_has_sock :: "int \<Rightarrow> bool"
  sn_sock_ok :: "int \<Rightarrow> bool"
  sn_spawn :: "bytes list \<Rightarrow> bool"
  sn_polls :: "obj list list"

datatype start_act = RestartProxy "restart_act list" | SpawnProxy "bytes list" | AttachKey bytes | AttachSock int | GiveUp

definition restart_proxy_by_key :: "start_env \<Rightarrow> bytes \<Rightarrow> restart_act list \<times> restart_error option" where
  "restart_proxy_by_key e key =
     restart_proxy \<lparr>pr_lookup = Some (lookup_status (sn_trunc e) (sn_status_restart e)), pr_resolve = Some (sn_resolve e),
       pr_kill = Some (sn_kill e), pr_spawn = Some (sn_spawn_resume e)\<rparr> key"

text \<open>First the socket itself, then the key.\<close>

definition attach_live :: "start_env \<Rightarrow> int \<Rightarrow> bytes \<Rightarrow> start_act list" where
  "attach_live e pid uuid = AttachSock pid # (if sn_sock_ok e pid then [] else [AttachKey uuid])"

definition start_existing :: "start_env \<Rightarrow> bytes \<Rightarrow> int \<Rightarrow> start_act list" where
  "start_existing e key pid =
     (let snap = read_snap_start_cwd (sn_snap e) pid in
      if snap \<noteq> [] \<and> snap \<noteq> sn_cwd e then
        (case restart_proxy_by_key e key of
           (acts, Some _) \<Rightarrow> [RestartProxy acts, AttachKey key]
         | (acts, None) \<Rightarrow>
             (let k = wait_key_for_cwd (sn_trunc e) (sn_cwd e) (sn_polls_restart e)
              in [RestartProxy acts, AttachKey (if k \<noteq> [] then k else key)]))
      else [AttachKey key])"

definition picked_session :: "start_env \<Rightarrow> bytes option" where
  "picked_session e =
     (if sn_args e \<noteq> [] then None
      else let subs = find_live_sessions_in_subtree (sn_srt e) (sn_trunc e) (sn_status_subtree e) (sn_cwd e) in
        if subs = [] then None
        else let i = prompt_subtree_pick (sn_tty e) (sn_line e) (sn_line_err e) (length subs) in
          if 0 \<le> i then Some (ca_key (subs ! nat i)) else None)"

definition start_new :: "start_env \<Rightarrow> start_act list" where
  "start_new e =
     (let (args, uuid) = resolve_resume_args (sn_resolve e (sn_cwd e)) (sn_args e) in
      case find_live_managed_by_uuid (sn_scan e) (sn_has_sock e) uuid of
        Some pid \<Rightarrow> attach_live e pid uuid
      | None \<Rightarrow>
          if \<not> sn_spawn e args then [SpawnProxy args, GiveUp]
          else
            (let key = wait_key_for_cwd (sn_trunc e) (sn_cwd e) (sn_polls e) in
             if key \<noteq> [] then [SpawnProxy args, AttachKey key]
             else case find_live_managed_by_uuid (sn_scan_late e) (sn_has_sock e) uuid of
                 Some pid \<Rightarrow> SpawnProxy args # attach_live e pid uuid
               | None \<Rightarrow> [SpawnProxy args, GiveUp]))"

definition run_start :: "start_env \<Rightarrow> start_act list" where
  "run_start e =
     (let (key, pid) = find_live_session_by_cwd (sn_trunc e) (sn_status e) (sn_cwd e) in
      if key \<noteq> [] then start_existing e key pid
      else case picked_session e of
          Some k \<Rightarrow> [AttachKey k]
        | None \<Rightarrow> start_new e)"

section \<open>Facts\<close>

lemma live_fold:
  "foldl (live_step trunc cwd) (bk, bt, bp) ss = (k, t, p) \<Longrightarrow>
   (k, t) = (bk, bt) \<and> (\<forall>s \<in> set ss. status_str s ''cwd'' = cwd \<longrightarrow> status_str s ''key'' \<noteq> [] \<longrightarrow> status_str s ''updated_at'' \<le> t)
   \<or> bt < t \<and> k \<noteq> [] \<and> (\<exists>s \<in> set ss. status_str s ''cwd'' = cwd \<and> status_str s ''key'' = k \<and> status_str s ''updated_at'' = t)
     \<and> (\<forall>s \<in> set ss. status_str s ''cwd'' = cwd \<longrightarrow> status_str s ''key'' \<noteq> [] \<longrightarrow> status_str s ''updated_at'' \<le> t)"
proof (induction ss arbitrary: bk bt bp)
  case (Cons s ss)
  let ?c = "status_str s ''cwd''" and ?k = "status_str s ''key''" and ?t = "status_str s ''updated_at''"
  show ?case
  proof (cases "?c = cwd \<and> ?k \<noteq> [] \<and> bt < ?t")
    case True
    then obtain q where "live_step trunc cwd (bk, bt, bp) s = (?k, ?t, q)" by (auto simp: live_step_def Let_def)
    with Cons.prems have f: "foldl (live_step trunc cwd) (?k, ?t, q) ss = (k, t, p)" by simp
    from Cons.IH [OF this] True show ?thesis
    proof (elim disjE conjE)
      assume "(k, t) = (?k, ?t)"
      then show ?thesis using Cons.IH [OF f] True by auto
    next
      assume "?t < t"
      then show ?thesis using Cons.IH [OF f] True by (auto simp: less_imp_le intro: order.strict_trans)
    qed
  next
    case False
    then have "live_step trunc cwd (bk, bt, bp) s = (bk, bt, bp)" by (auto simp: live_step_def Let_def)
    with Cons.prems have f: "foldl (live_step trunc cwd) (bk, bt, bp) ss = (k, t, p)" by simp
    from Cons.IH [OF this] False show ?thesis by (auto simp: not_less intro: order_trans less_imp_le)
  qed
qed simp

text \<open>Among the sessions of the directory that carry a time, the newest is found.\<close>

lemma find_live_newest:
  assumes "find_live_session_by_cwd trunc ss cwd = (k, p)"
  shows "if k = [] then (\<forall>s \<in> set ss. status_str s ''cwd'' = cwd \<longrightarrow> status_str s ''key'' \<noteq> [] \<longrightarrow> status_str s ''updated_at'' = [])
    else \<exists>s \<in> set ss. status_str s ''cwd'' = cwd \<and> status_str s ''key'' = k
      \<and> (\<forall>s' \<in> set ss. status_str s' ''cwd'' = cwd \<longrightarrow> status_str s' ''key'' \<noteq> [] \<longrightarrow>
           status_str s' ''updated_at'' \<le> status_str s ''updated_at'')"
proof -
  obtain t where f: "foldl (live_step trunc cwd) ([], [], 0) ss = (k, t, p)"
    using assms by (auto simp: find_live_session_by_cwd_def split: prod.splits)
  have le: "\<And>u :: bytes. u \<le> [] \<longleftrightarrow> u = []" by (auto simp: list_le_def list_less_def)
  from live_fold [OF f] show ?thesis by (auto simp: le)
qed

text \<open>An entry without a time is not found, even when it is the only one: a second proxy is started for its directory.\<close>

lemma unstamped_session_missed:
  "find_live_session_by_cwd trunc [[''cwd'' \<mapsto> AStr cwd, ''key'' \<mapsto> AStr k, ''pid'' \<mapsto> AFloat f]] cwd = ([], 0)"
  by (simp add: find_live_session_by_cwd_def live_step_def status_str_def)

text \<open>
  After a restart the command waits for the new entry of the directory; a first reading that still shows the old entry
  ends the wait with the old key at once.
\<close>

lemma wait_takes_old_entry:
  "find_live_session_by_cwd trunc ss cwd = (k, p) \<Longrightarrow> k \<noteq> [] \<Longrightarrow> wait_key_for_cwd trunc cwd (ss # polls) = k"
  by (simp add: find_live_key_by_cwd_def)

lemma pick_range: "0 < count \<Longrightarrow> pick_subtree_candidate input count < int count"
  by (auto simp: pick_subtree_candidate_def Let_def split: option.splits)

text \<open>The sessions offered are those whose directory lies strictly below.\<close>

lemma subtree_candidate_iff:
  assumes "rooted cwd" "rooted (status_str s ''cwd'')"
  shows "subtree_candidate trunc cwd s \<noteq> None \<longleftrightarrow>
    status_str s ''key'' \<noteq> [] \<and> strict_prefix (clean_comps cwd) (clean_comps (status_str s ''cwd''))"
proof -
  have "status_str s ''cwd'' \<noteq> []" using assms(2) by (auto simp: rooted_def)
  then show ?thesis using below_iff [OF assms] by (auto simp: subtree_candidate_def Let_def)
qed

lemma no_live_scan:
  "find_live_managed_by_uuid (Some ss) has_sock u = None \<Longrightarrow> u \<noteq> [] \<Longrightarrow> s \<in> set ss \<Longrightarrow> \<not> (cs_sid s = u \<and> has_sock (cs_pid s))"
  by (auto simp: find_live_managed_by_uuid_def find_None_iff)

definition is_spawn :: "start_act \<Rightarrow> bool" where
  "is_spawn a \<longleftrightarrow> (case a of SpawnProxy _ \<Rightarrow> True | _ \<Rightarrow> False)"

lemma attach_live_no_spawn: "filter is_spawn (attach_live e pid uuid) = []"
  by (simp add: attach_live_def is_spawn_def)

lemma start_new_spawns:
  assumes "a \<in> set (start_new e)" "is_spawn a"
  shows "\<exists>args uuid. resolve_resume_args (sn_resolve e (sn_cwd e)) (sn_args e) = (args, uuid) \<and> a = SpawnProxy args
    \<and> find_live_managed_by_uuid (sn_scan e) (sn_has_sock e) uuid = None \<and> filter is_spawn (start_new e) = [a]"
proof -
  obtain args uuid where r: "resolve_resume_args (sn_resolve e (sn_cwd e)) (sn_args e) = (args, uuid)"
    by (cases "resolve_resume_args (sn_resolve e (sn_cwd e)) (sn_args e)")
  then show ?thesis
    using assms
    by (auto simp: start_new_def Let_def attach_live_def is_spawn_def split: option.splits if_splits)
qed

lemma start_existing_no_spawn: "filter is_spawn (start_existing e key pid) = []"
  by (auto simp: start_existing_def Let_def is_spawn_def split: prod.splits option.splits)

lemma run_start_spawns:
  assumes "SpawnProxy args \<in> set (run_start e)"
  shows "fst (find_live_session_by_cwd (sn_trunc e) (sn_status e) (sn_cwd e)) = []
    \<and> picked_session e = None \<and> filter is_spawn (run_start e) = [SpawnProxy args]
    \<and> (\<exists>uuid. resolve_resume_args (sn_resolve e (sn_cwd e)) (sn_args e) = (args, uuid)
         \<and> find_live_managed_by_uuid (sn_scan e) (sn_has_sock e) uuid = None)"
proof -
  obtain k p where f: "find_live_session_by_cwd (sn_trunc e) (sn_status e) (sn_cwd e) = (k, p)"
    by (cases "find_live_session_by_cwd (sn_trunc e) (sn_status e) (sn_cwd e)")
  have s: "is_spawn (SpawnProxy args)" by (simp add: is_spawn_def)
  have k: "k = []"
  proof (rule ccontr)
    assume "k \<noteq> []"
    then have "run_start e = start_existing e k p" using f by (simp add: run_start_def)
    then show False using assms s start_existing_no_spawn [of e k p] by (metis filter_empty_conv)
  qed
  have n: "picked_session e = None"
    using assms f k by (auto simp: run_start_def split: option.splits)
  have r: "run_start e = start_new e" using f k n by (simp add: run_start_def)
  show ?thesis using start_new_spawns [of "SpawnProxy args" e] assms s f k n r by auto
qed

section \<open>Claims\<close>

text \<open>Starting never doubles a session: a proxy is spawned at most once, only when the status file listed no dated session
  of the current directory and none below it was picked, and never to resume a conversation that the scan finds running
  in a live proxy; with arguments of the user nothing is resumed.\<close>
theorem no_duplicate_spawn:
  assumes "SpawnProxy args \<in> set (run_start e)"
  shows "filter is_spawn (run_start e) = [SpawnProxy args]
    \<and> (\<forall>s \<in> set (sn_status e). status_str s ''cwd'' = sn_cwd e \<longrightarrow> status_str s ''key'' \<noteq> [] \<longrightarrow> status_str s ''updated_at'' = [])
    \<and> picked_session e = None
    \<and> (sn_args e \<noteq> [] \<longrightarrow> args = sn_args e)
    \<and> (\<forall>u ss. sn_args e = [] \<longrightarrow> sn_resolve e (sn_cwd e) = Some u \<longrightarrow> u \<noteq> [] \<longrightarrow> sn_scan e = Some ss \<longrightarrow>
         args = [''--resume'', u] \<and> (\<forall>s \<in> set ss. \<not> (cs_sid s = u \<and> sn_has_sock e (cs_pid s))))"
proof -
  note r = run_start_spawns [OF assms]
  then obtain uuid where a: "resolve_resume_args (sn_resolve e (sn_cwd e)) (sn_args e) = (args, uuid)"
    "find_live_managed_by_uuid (sn_scan e) (sn_has_sock e) uuid = None" by blast
  obtain p where f: "find_live_session_by_cwd (sn_trunc e) (sn_status e) (sn_cwd e) = ([], p)"
    using r by (cases "find_live_session_by_cwd (sn_trunc e) (sn_status e) (sn_cwd e)") auto
  have l: "\<forall>s \<in> set (sn_status e). status_str s ''cwd'' = sn_cwd e \<longrightarrow> status_str s ''key'' \<noteq> [] \<longrightarrow> status_str s ''updated_at'' = []"
    using find_live_newest [OF f] by simp
  have g: "sn_args e \<noteq> [] \<longrightarrow> args = sn_args e" using a(1) by (auto simp: resolve_resume_args_def)
  have u: "args = [''--resume'', u] \<and> (\<forall>s \<in> set ss. \<not> (cs_sid s = u \<and> sn_has_sock e (cs_pid s)))"
    if "sn_args e = []" "sn_resolve e (sn_cwd e) = Some u" "u \<noteq> []" "sn_scan e = Some ss" for u ss
    using a that no_live_scan [of ss "sn_has_sock e" u] by (auto simp: resolve_resume_args_def)
  show ?thesis using r l g u by blast
qed

definition demo_start :: start_env where
  "demo_start = \<lparr>sn_args = [], sn_cwd = ''/p'', sn_trunc = (\<lambda>_. 0), sn_srt = (\<lambda>cs. cs), sn_status = [], sn_snap = (\<lambda>_. []),
     sn_status_restart = [], sn_resolve = (\<lambda>_. Some ''u''), sn_kill = (\<lambda>_. True), sn_spawn_resume = (\<lambda>_ _. True),
     sn_polls_restart = [], sn_status_subtree = [], sn_tty = False, sn_line = [], sn_line_err = True, sn_scan = Some [],
     sn_scan_late = None, sn_has_sock = (\<lambda>_. False), sn_sock_ok = (\<lambda>_. False), sn_spawn = (\<lambda>_. True), sn_polls = []\<rparr>"

lemma demo_start_runs: "run_start demo_start = [SpawnProxy [''--resume'', ''u''], GiveUp]"
  by (simp add: run_start_def demo_start_def find_live_session_by_cwd_def picked_session_def
      find_live_sessions_in_subtree_def start_new_def resolve_resume_args_def find_live_managed_by_uuid_def
      find_live_key_by_cwd_def map_filter_simps)

theorem no_duplicate_spawn_witness:
  "filter is_spawn (run_start demo_start) = [SpawnProxy [''--resume'', ''u'']] \<and> picked_session demo_start = None"
  using no_duplicate_spawn [of "[''--resume'', ''u'']" demo_start] by (simp add: demo_start_runs)

end
