(* ===== verification/Commands.thy ===== *)
theory Commands
  imports Enroll StartCmd Pump
begin

text \<open>
  The commands of \<open>cmd/claude-master\<close>: the dispatch and argument parsing of \<open>main.go\<close>, the cloud agent's start and the
  attachment to a remote session, \<open>tmux-wrap\<close>, \<open>sessions\<close>, the command lines run in remote windows and the
  processes killed and spawned on request. Where a command ends the program the model gives the way it ends.
\<close>

section \<open>Dispatch\<close>

datatype command_line =
  CmdVersion | CmdConfig | CmdUpdate | CmdProxy "bytes list" | CmdSocketClient "bytes list" | CmdAttach "bytes list"
| CmdStart "bytes list" | CmdSessions "bytes list" | CmdMonitor "bytes list" | CmdCloud "bytes list"
| CmdTmuxWrap "bytes list" | CmdTmuxRender "bytes list" | CmdUsage

text \<open>The arguments after the name of the program.\<close>

definition dispatch :: "bytes list \<Rightarrow> command_line" where
  "dispatch args =
     (case args of
        [] \<Rightarrow> CmdUsage
      | c # rest \<Rightarrow>
          if c \<in> set [''version'', ''-v'', ''--version''] then CmdVersion
          else if c = ''config'' then CmdConfig
          else if c = ''update'' then CmdUpdate
          else if c = ''proxy'' then CmdProxy rest
          else if c = ''socket-client'' then CmdSocketClient rest
          else if c = ''attach'' then CmdAttach rest
          else if c = ''start'' then CmdStart rest
          else if c = ''sessions'' then CmdSessions rest
          else if c = ''monitor'' then CmdMonitor rest
          else if c = ''cloud'' then CmdCloud rest
          else if c = ''tmux-wrap'' then CmdTmuxWrap rest
          else if c = ''tmux-render'' then CmdTmuxRender rest
          else CmdUsage)"

datatype monitor_command = MonStart | MonStop | MonStatus | MonDashboard | MonRun | MonUsage

definition monitor_command :: "bytes list \<Rightarrow> monitor_command" where
  "monitor_command args =
     (let sub = (if args = [] then [] else hd args) in
      if sub = ''start'' then MonStart
      else if sub = ''stop'' then MonStop
      else if sub = ''status'' then MonStatus
      else if sub = ''--dashboard'' then MonDashboard
      else if sub = [] \<or> sub = ''--daemon'' then MonRun
      else MonUsage)"

fun socket_client_args :: "bytes list \<Rightarrow> bool \<times> bytes \<Rightarrow> bool \<times> bytes" where
  "socket_client_args [] rs = rs"
| "socket_client_args (a # as) (retry, sock) =
     (if a = ''--retry'' then socket_client_args as (True, sock)
      else socket_client_args as (retry, if sock = [] then a else sock))"

fun cloud_attach_args :: "bytes list \<Rightarrow> bytes \<times> bytes \<Rightarrow> bytes \<times> bytes" where
  "cloud_attach_args [] sp = sp"
| "cloud_attach_args [a] (sid, pc) = (if sid = [] then a else sid, pc)"
| "cloud_attach_args (a # b # as) (sid, pc) =
     (if a = ''--pc'' then cloud_attach_args as (sid, b)
      else cloud_attach_args (b # as) (if sid = [] then a else sid, pc))"

datatype cloud_command = CloudEnroll "bytes list" | CloudAgentRun | CloudAttach "bytes list" | CloudDisabled | CloudUsage

text \<open>Enrolling works without a project; everything else requires one.\<close>

definition cloud_command :: "bytes \<Rightarrow> bytes list \<Rightarrow> cloud_command" where
  "cloud_command project args =
     (let sub = (if args = [] then [] else hd args) in
      if sub = ''enroll'' then CloudEnroll (tl args)
      else if project = [] then CloudDisabled
      else if sub = ''agent'' then CloudAgentRun
      else if sub = ''attach'' then CloudAttach (tl args)
      else CloudUsage)"

text \<open>The exit code of the proxy: an error is never reported as success.\<close>

definition proxy_exit :: "int \<Rightarrow> bool \<Rightarrow> int" where
  "proxy_exit code err = (if err \<and> code = 0 then 1 else code)"

definition proxy_argv :: "config \<Rightarrow> bytes list \<Rightarrow> bytes list" where
  "proxy_argv cfg args = cf_real_claude cfg # args"

section \<open>The cloud agent\<close>

definition fan_out :: "cloud list \<Rightarrow> (cloud \<times> bool) list" where
  "fan_out cs = map (\<lambda>i. (cs ! i, i = 0)) [0..<length cs]"

datatype cloud_part = MirrorSessions | SyncWindows | WatchCommands | ServeRelay

text \<open>\<open>store\<close> is \<open>None\<close> when the cloud cannot be reached; \<open>tmux\<close> tells whether there is a tmux.\<close>

definition run_one_cloud ::
  "(int \<Rightarrow> bytes) \<Rightarrow> 'w store option \<Rightarrow> int \<Rightarrow> bytes \<Rightarrow> cloud \<Rightarrow> bool \<Rightarrow> bool \<Rightarrow> 'w \<Rightarrow> cloud_part list \<times> 'w" where
  "run_one_cloud fmt store now version cl primary tmux w =
     (case store of
        None \<Rightarrow> ([], w)
      | Some st \<Rightarrow>
          (case (if is_revoked st w (cl_pc_name cl) then (True, w)
                 else register_pc_version fmt st now (cl_pc_name cl) version w) of
             (False, w) \<Rightarrow> ([], w)
           | (True, w) \<Rightarrow> (MirrorSessions # (if primary \<and> tmux then [SyncWindows] else []) @ [WatchCommands, ServeRelay], w)))"

datatype attach_end = AttachUsage | NoRelayUrl | NoStore | WakeFailed | DialFailed bytes | AttachRan bytes

definition viewer_ttl :: int where "viewer_ttl = 60000000000"

definition run_cloud_attach ::
  "(int \<Rightarrow> bytes) \<Rightarrow> 'w store option \<Rightarrow> config \<Rightarrow> (bytes \<Rightarrow> bool) \<Rightarrow> int \<Rightarrow> bytes list \<Rightarrow> 'w \<Rightarrow> attach_end \<times> 'w" where
  "run_cloud_attach fmt store cfg dial now args w =
     (case cloud_attach_args args ([], []) of (sid, pc) \<Rightarrow>
        if sid = [] then (AttachUsage, w)
        else if cf_relay_url cfg = [] then (NoRelayUrl, w)
        else case store of
            None \<Rightarrow> (NoStore, w)
          | Some st \<Rightarrow>
              (case wake fmt st now (if pc = [] then cf_pc_id cfg else pc) sid w of
                 (False, w) \<Rightarrow> (WakeFailed, w)
               | (True, w) \<Rightarrow>
                   (let w = snd (put_relay_grant fmt st now (cf_pc_id cfg) sid ''viewer'' viewer_ttl w);
                        url = dial_url (cf_relay_url cfg) sid ''viewer''
                    in (if dial url then AttachRan url else DialFailed url, w))))"

section \<open>\<open>tmux-wrap\<close>\<close>

record wrap_opts =
  wo_idle :: int
  wo_hold :: int
  wo_max_hold :: int
  wo_sync :: bool

datatype wrap_parse = WrapUsage | WrapHelp | WrapBad bytes | WrapRun wrap_opts "bytes list"

fun tmux_wrap_args :: "bytes list \<Rightarrow> wrap_opts \<Rightarrow> wrap_parse" where
  "tmux_wrap_args [] o' = WrapUsage"
| "tmux_wrap_args (a # rest) o' =
     (if a \<in> {''--idle-ms'', ''--hold-ms'', ''--max-hold-ms''} then
        (case rest of
           [] \<Rightarrow> WrapUsage
         | v # rest \<Rightarrow>
             (case atoi v of
                None \<Rightarrow> WrapBad a
              | Some n \<Rightarrow>
                  if a = ''--idle-ms'' then (if n < 0 then WrapBad a else tmux_wrap_args rest (o'\<lparr>wo_idle := n\<rparr>))
                  else if a = ''--hold-ms'' then tmux_wrap_args rest (o'\<lparr>wo_hold := if n = 0 then - 1 else n\<rparr>)
                  else tmux_wrap_args rest (o'\<lparr>wo_max_hold := if n = 0 then - 1 else n\<rparr>)))
      else if a = ''--no-sync-wrap'' then tmux_wrap_args rest (o'\<lparr>wo_sync := False\<rparr>)
      else if a = ''--'' then (if rest = [] then WrapUsage else WrapRun o' rest)
      else if a = ''-h'' \<or> a = ''--help'' then WrapHelp
      else WrapRun o' (a # rest))"

definition wrap_defaults :: wrap_opts where
  "wrap_defaults = \<lparr>wo_idle = 4, wo_hold = 0, wo_max_hold = 0, wo_sync = True\<rparr>"

text \<open>Durations in nanoseconds, as \<open>int64\<close>.\<close>

definition ms :: "int \<Rightarrow> int" where
  "ms n = i64 (i64 n * 1000000)"

definition wrap_cfg :: "wrap_opts \<Rightarrow> pump_cfg" where
  "wrap_cfg o' =
     \<lparr>k_idle = nat (if ms (wo_idle o') \<le> 0 then ms 4 else ms (wo_idle o')),
      k_hold_destructive = nat (if wo_hold o' = 0 then ms 32 else if wo_hold o' < 0 then 0 else ms (wo_hold o')),
      k_sync_wrap = wo_sync o',
      k_max_hold = nat (if wo_max_hold o' = 0 then ms 50 else if wo_max_hold o' < 0 then 0 else ms (wo_max_hold o')),
      k_max_buffer = 512 * 1024\<rparr>"

section \<open>\<open>sessions\<close>\<close>

datatype sessions_parse = SessHelp | SessBad bytes | SessRun bool

fun sessions_args :: "bytes list \<Rightarrow> bool \<Rightarrow> sessions_parse" where
  "sessions_args [] json = SessRun json"
| "sessions_args (a # as) json =
     (if a = ''--json'' then sessions_args as True
      else if a = ''-h'' \<or> a = ''--help'' then SessHelp
      else SessBad a)"

text \<open>Division of a non-negative number; smaller ones are shown as they are.\<close>

definition fmt_uptime :: "int \<Rightarrow> bytes" where
  "fmt_uptime secs =
     (if secs < 60 then show_int secs @ ''s''
      else let d = secs div 86400; h = (secs mod 86400) div 3600; m = (secs mod 3600) div 60 in
        if 0 < d then show_int d @ ''d'' @ show_int h @ ''h''
        else if 0 < h then show_int h @ ''h'' @ show_int m @ ''m''
        else show_int m @ ''m'')"

section \<open>Remote windows and processes\<close>

definition remote_attach_unix :: "bytes \<Rightarrow> bytes \<Rightarrow> bytes \<Rightarrow> bytes \<Rightarrow> bytes \<Rightarrow> bytes \<Rightarrow> bytes" where
  "remote_attach_unix self gcp relay sa sid pc =
     ''while true; do env GCP_PROJECT='' @ gcp @ '' CLOUD_RELAY_URL='' @ relay @ '' GOOGLE_APPLICATION_CREDENTIALS='' @ sa
     @ '' '' @ self @ '' cloud attach '' @ sid @ '' --pc '' @ pc @ ''; sleep 30; done''"

definition ps_quote :: "bytes \<Rightarrow> bytes" where
  "ps_quote s = [CHR 0x27] @ replace_all s [CHR 0x27] [CHR 0x27, CHR 0x27] @ [CHR 0x27]"

definition remote_attach_windows :: "bytes \<Rightarrow> bytes \<Rightarrow> bytes \<Rightarrow> bytes \<Rightarrow> bytes \<Rightarrow> bytes \<Rightarrow> bytes" where
  "remote_attach_windows self gcp relay sa sid pc =
     ''while ($true) { $env:GCP_PROJECT='' @ ps_quote gcp @ ''; $env:CLOUD_RELAY_URL='' @ ps_quote relay
     @ ''; $env:GOOGLE_APPLICATION_CREDENTIALS='' @ ps_quote sa @ ''; & '' @ ps_quote self @ '' cloud attach '' @ ps_quote sid
     @ '' --pc '' @ ps_quote pc @ ''; Start-Sleep -Seconds 30 }''"

datatype kill_result = KillOk | KillGone | KillError

datatype signal_act = SigTerm | Probe | SigKill

text \<open>\<open>gone i\<close>: the process has vanished at the \<open>i\<close>-th of the 30 polls.\<close>

definition kill_proxy_unix :: "int \<Rightarrow> kill_result \<Rightarrow> (nat \<Rightarrow> bool) \<Rightarrow> signal_act list \<times> bool" where
  "kill_proxy_unix pid term gone =
     (if pid \<le> 0 then ([], False)
      else case term of
          KillGone \<Rightarrow> ([SigTerm], True)
        | KillError \<Rightarrow> ([SigTerm], False)
        | KillOk \<Rightarrow>
            (case find gone [0..<30] of
               Some i \<Rightarrow> (SigTerm # replicate (Suc i) Probe, True)
             | None \<Rightarrow> (SigTerm # replicate 30 Probe @ [SigKill], True)))"

text \<open>\<open>handle\<close>: whether the process can be opened; \<open>terminated\<close>: whether terminating it succeeds.\<close>

definition kill_proxy_windows :: "int \<Rightarrow> bool \<Rightarrow> bool \<Rightarrow> bool" where
  "kill_proxy_windows pid handle terminated = (if pid \<le> 0 then False else if \<not> handle then True else terminated)"

text \<open>The argument list and directory of the spawned process; \<open>None\<close> for the directory inherits that of the caller.\<close>

definition spawn_detached_proxy :: "bytes option \<Rightarrow> bytes list \<Rightarrow> bytes \<Rightarrow> (bytes list \<times> bytes option) option" where
  "spawn_detached_proxy self args cwd =
     map_option (\<lambda>s. (s # ''proxy'' # args, if cwd = [] then None else Some cwd)) self"

definition spawn_resume_proxy :: "bytes option \<Rightarrow> bytes \<Rightarrow> bytes \<Rightarrow> (bytes list \<times> bytes option) option" where
  "spawn_resume_proxy self sid cwd = spawn_detached_proxy self [''--resume'', sid] cwd"

text \<open>\<open>run\<close> executes a command and tells whether it succeeded. The monitor is restarted first, for the second may be this process.\<close>

definition restart_daemons_unix :: "int \<Rightarrow> (bytes list \<Rightarrow> bool) \<Rightarrow> bytes list list \<times> bool" where
  "restart_daemons_unix uid run =
     (let kick = (\<lambda>l. [''launchctl'', ''kickstart'', ''-k'', ''gui/'' @ show_int uid @ ''/'' @ l]);
          a = kick ''com.4noha.claude-master''; b = kick ''com.4noha.claude-master-cloud''
      in ([a, b], run b))"

fun restart_tasks :: "(bytes list \<Rightarrow> bool) \<Rightarrow> bytes list \<Rightarrow> bytes list list \<times> bool" where
  "restart_tasks run [] = ([], True)"
| "restart_tasks run (t # ts) =
     (let stop = [''schtasks'', ''/End'', ''/TN'', t]; start = [''schtasks'', ''/Run'', ''/TN'', t] in
      if \<not> run start then ([stop, start], False)
      else case restart_tasks run ts of (cs, ok) \<Rightarrow> (stop # start # cs, ok))"

definition restart_daemons_windows :: "(bytes list \<Rightarrow> bool) \<Rightarrow> bytes list list \<times> bool" where
  "restart_daemons_windows run = restart_tasks run [''claude-master-monitor'', ''claude-master-cloud'']"

end
