(* ===== verification/Producer.thy ===== *)
theory Producer
  imports GoPath CloudAgent CloudProps
begin

text \<open>
  \<open>cmd/claude-master/main.go\<close>: the cloud agent of one machine. Reading the session list the monitor writes, finding the
  socket and the process of a session, and the loop that mirrors the sessions into the cloud every five seconds. A reading
  of the status file is \<open>None\<close> when it is missing or does not decode. \<open>trunc\<close> converts a JSON number.
\<close>

section \<open>The session list\<close>

definition status_sessions :: "doc list option \<Rightarrow> doc list" where
  "status_sessions reading = (case reading of None \<Rightarrow> [] | Some ss \<Rightarrow> ss)"

definition doc_pid :: "(64 word \<Rightarrow> int) \<Rightarrow> doc \<Rightarrow> int" where
  "doc_pid trunc s = (case map_of s ''pid'' of Some (AFloat f) \<Rightarrow> trunc f | _ \<Rightarrow> 0)"

text \<open>\<open>stat\<close> tells whether a file exists. The first entry with the key decides.\<close>

definition resolve_sock :: "(64 word \<Rightarrow> int) \<Rightarrow> bytes \<Rightarrow> (bytes \<Rightarrow> bool) \<Rightarrow> doc list option \<Rightarrow> bytes \<Rightarrow> bytes option" where
  "resolve_sock trunc dir stat reading sid =
     (case find (\<lambda>s. fld s ''key'' = sid) (status_sessions reading) of
        None \<Rightarrow> None
      | Some s \<Rightarrow>
          (let sock = path_join [dir, show_int (doc_pid trunc s) @ ''.sock'']
           in if stat sock then Some sock else None))"

text \<open>\<open>Lookup\<close> of the proxy restarter skips entries without a process.\<close>

definition restart_lookup :: "(64 word \<Rightarrow> int) \<Rightarrow> doc list option \<Rightarrow> bytes \<Rightarrow> (int \<times> bytes) option" where
  "restart_lookup trunc reading sid =
     map_option (\<lambda>s. (doc_pid trunc s, fld s ''cwd''))
       (find (\<lambda>s. fld s ''key'' = sid \<and> 0 < doc_pid trunc s) (status_sessions reading))"

section \<open>Mirroring the sessions\<close>

text \<open>\<open>pd_prev\<close> holds the keys of the tick before; \<open>pe_order\<close> is the order in which they are visited.\<close>

record 'w producer =
  pd_prev :: "bytes list"
  pd_store :: 'w

record 'w producer_env =
  pe_store :: "'w store"
  pe_pc :: bytes
  pe_sha :: "bytes \<Rightarrow> bytes"
  pe_json :: "doc \<Rightarrow> bytes"
  pe_fmt :: "int \<Rightarrow> bytes"
  pe_order :: "bytes list \<Rightarrow> bytes list"

definition producer_start :: "'w producer_env \<Rightarrow> 'w \<Rightarrow> 'w producer" where
  "producer_start e w =
     \<lparr>pd_prev = (case own_session_keys (pe_store e) w (pe_pc e) of None \<Rightarrow> [] | Some ks \<Rightarrow> ks), pd_store = w\<rparr>"

definition push_all :: "'w producer_env \<Rightarrow> int \<Rightarrow> doc list \<Rightarrow> 'w \<Rightarrow> 'w" where
  "push_all e now ss w =
     (if ss = [] then w else snd (snd (push_status (pe_sha e) (pe_json e) (pe_fmt e) (pe_store e) now (pe_pc e) ss w)))"

definition delete_gone :: "'w producer_env \<Rightarrow> bytes list \<Rightarrow> bytes list \<Rightarrow> 'w \<Rightarrow> 'w" where
  "delete_gone e cur prev w =
     foldl (\<lambda>w k. snd (delete_session (pe_store e) (pe_pc e) k w)) w (filter (\<lambda>k. k \<notin> set cur) (pe_order e prev))"

definition producer_tick :: "'w producer_env \<Rightarrow> int \<Rightarrow> doc list option \<Rightarrow> 'w producer \<Rightarrow> 'w producer" where
  "producer_tick e now reading p =
     (if is_revoked (pe_store e) (pd_store p) (pe_pc e) then p
      else let ss = status_sessions reading; cur = remdups (map session_doc_key ss)
        in \<lparr>pd_prev = cur, pd_store = delete_gone e cur (pd_prev p) (push_all e now ss (pd_store p))\<rparr>)"

text \<open>A run: before each tick others may have changed the store.\<close>

definition producer_run :: "'w producer_env \<Rightarrow> (('w \<Rightarrow> 'w) \<times> int \<times> doc list option) list \<Rightarrow> 'w producer \<Rightarrow> 'w producer" where
  "producer_run e ticks p =
     foldl (\<lambda>p (others, now, reading). producer_tick e now reading (p\<lparr>pd_store := others (pd_store p)\<rparr>)) p ticks"

section \<open>What is in the cloud\<close>

definition has_key :: "'w producer_env \<Rightarrow> 'w \<Rightarrow> bytes \<Rightarrow> bool" where
  "has_key e w k \<longleftrightarrow> st_get (pe_store e) w (sessions_path (pe_pc e) @ [k]) \<noteq> None"

definition cloud_keys :: "'w producer_env \<Rightarrow> 'w \<Rightarrow> bytes set" where
  "cloud_keys e w = {k. k \<noteq> [] \<and> has_key e w k}"

text \<open>A store whose calls succeed.\<close>

definition reliable :: "'w store \<Rightarrow> bool" where
  "reliable st \<longleftrightarrow> store_laws st \<and> (\<forall>mrg p d w. fst (st_set st mrg p d w)) \<and> (\<forall>p w. fst (st_del st p w))"

lemma reliable_laws: "reliable st \<Longrightarrow> store_laws st"
  by (simp add: reliable_def)

lemma session_doc_key_not_Nil: "session_doc_key s \<noteq> []"
  by (simp add: session_doc_key_def)

lemma set_keys:
  assumes "reliable (pe_store e)"
  shows "cloud_keys e (snd (st_set (pe_store e) mrg (sessions_path (pe_pc e) @ [k]) d w))
    = cloud_keys e w \<union> (if k = [] then {} else {k})"
proof -
  let ?st = "pe_store e" and ?p = "sessions_path (pe_pc e) @ [k]"
  have l: "store_laws ?st" and f: "fst (st_set ?st mrg ?p d w)" using assms by (auto simp: reliable_def)
  have "has_key e (snd (st_set ?st mrg ?p d w)) j \<longleftrightarrow> j = k \<or> has_key e w j" for j
    using set_same [OF l f] set_other [OF l, of "sessions_path (pe_pc e) @ [j]" ?p]
    by (cases "j = k") (auto simp: has_key_def)
  then show ?thesis by (auto simp: cloud_keys_def)
qed

lemma other_set_keys:
  assumes "store_laws (pe_store e)" "\<And>k. p \<noteq> sessions_path (pe_pc e) @ [k]"
  shows "cloud_keys e (snd (st_set (pe_store e) mrg p d w)) = cloud_keys e w"
proof -
  have "has_key e (snd (st_set (pe_store e) mrg p d w)) k = has_key e w k" for k
    using set_other [OF assms(1), of "sessions_path (pe_pc e) @ [k]" p] assms(2) [of k, symmetric] by (simp add: has_key_def)
  then show ?thesis by (simp add: cloud_keys_def)
qed

lemma push_sessions_keys:
  assumes st: "reliable (pe_store e)" and chg: "\<And>s. chg None s \<noteq> None"
  shows "push_sessions (pe_store e) chg (pe_pc e) ss n w = (ok, m, w') \<Longrightarrow>
    cloud_keys e w' = cloud_keys e w \<union> session_doc_key ` set ss"
proof (induction ss arbitrary: n w)
  case (Cons s ss)
  let ?p = "sessions_path (pe_pc e) @ [session_doc_key s]"
  show ?case
  proof (cases "chg (st_get (pe_store e) w ?p) s")
    case None
    then have "st_get (pe_store e) w ?p \<noteq> None" using chg by (cases "st_get (pe_store e) w ?p") auto
    then have "session_doc_key s \<in> cloud_keys e w" by (simp add: cloud_keys_def has_key_def session_doc_key_not_Nil)
    moreover have "push_sessions (pe_store e) chg (pe_pc e) ss n w = (ok, m, w')" using Cons.prems None by simp
    ultimately show ?thesis using Cons.IH by fastforce
  next
    case (Some d)
    have "fst (st_set (pe_store e) False ?p d w)" using st by (simp add: reliable_def)
    then obtain w1 where x: "st_set (pe_store e) False ?p d w = (True, w1)"
      by (cases "st_set (pe_store e) False ?p d w") simp
    then have "push_sessions (pe_store e) chg (pe_pc e) ss (Suc n) w1 = (ok, m, w')" using Cons.prems Some by simp
    from Cons.IH [OF this] show ?thesis
      using set_keys [OF st, of False "session_doc_key s" d w] x by (simp add: session_doc_key_not_Nil)
  qed
qed simp

lemma push_doc_new: "push_doc sha json fmt now None s \<noteq> None"
  by (simp add: push_doc_def Let_def)

lemma push_all_keys:
  assumes st: "reliable (pe_store e)"
  shows "cloud_keys e (push_all e now ss w) = cloud_keys e w \<union> session_doc_key ` set ss"
proof -
  obtain ok n w1 where p: "push_sessions (pe_store e) (push_doc (pe_sha e) (pe_json e) (pe_fmt e) now) (pe_pc e) ss 0 w = (ok, n, w1)"
    using prod_cases3 by blast
  have k: "cloud_keys e w1 = cloud_keys e w \<union> session_doc_key ` set ss"
    by (rule push_sessions_keys [OF st push_doc_new p])
  have o': "cloud_keys e (snd (st_set (pe_store e) True [''pcs'', pe_pc e] d w1)) = cloud_keys e w1" for d
    using st by (intro other_set_keys reliable_laws) (simp_all add: sessions_path_def)
  show ?thesis using k o' by (simp add: push_all_def push_status_def p)
qed

lemma delete_gone_get:
  assumes st: "store_laws (pe_store e)" and q: "\<And>k. k \<in> set (pe_order e prev) \<Longrightarrow> k \<notin> set cur \<Longrightarrow> k \<noteq> [] \<Longrightarrow> q \<noteq> sessions_path (pe_pc e) @ [k]"
  shows "st_get (pe_store e) (delete_gone e cur prev w) q = st_get (pe_store e) w q"
proof -
  have "\<forall>k \<in> set ks. k \<noteq> [] \<longrightarrow> q \<noteq> sessions_path (pe_pc e) @ [k] \<Longrightarrow>
    st_get (pe_store e) (foldl (\<lambda>w k. snd (delete_session (pe_store e) (pe_pc e) k w)) w ks) q = st_get (pe_store e) w q" for ks
    by (induction ks arbitrary: w) (simp_all add: delete_session_def del_other [OF st])
  then show ?thesis using q by (simp add: delete_gone_def)
qed

lemma delete_gone_keys:
  assumes st: "reliable (pe_store e)" and ord: "set (pe_order e prev) = set prev"
  shows "cloud_keys e (delete_gone e cur prev w) = cloud_keys e w - (set prev - set cur)"
proof -
  have d: "cloud_keys e (snd (delete_session (pe_store e) (pe_pc e) k w)) = cloud_keys e w - {k}" for k w
  proof (cases "k = []")
    case False
    let ?p = "sessions_path (pe_pc e) @ [k]"
    have l: "store_laws (pe_store e)" and f: "fst (st_del (pe_store e) ?p w)" using st by (auto simp: reliable_def)
    have "has_key e (snd (st_del (pe_store e) ?p w)) j \<longleftrightarrow> j \<noteq> k \<and> has_key e w j" for j
      using del_same [OF l f] del_other [OF l, of "sessions_path (pe_pc e) @ [j]" ?p]
      by (cases "j = k") (auto simp: has_key_def)
    then show ?thesis using False by (auto simp: cloud_keys_def delete_session_def)
  qed (simp add: delete_session_def cloud_keys_def)
  have "cloud_keys e (foldl (\<lambda>w k. snd (delete_session (pe_store e) (pe_pc e) k w)) w ks) = cloud_keys e w - set ks" for ks
    by (induction ks arbitrary: w) (auto simp: d)
  then show ?thesis using ord by (auto simp: delete_gone_def)
qed

lemma tick_mirrors:
  assumes st: "reliable (pe_store e)" and ord: "\<And>ks. set (pe_order e ks) = set ks"
    and p: "cloud_keys e (pd_store p) \<subseteq> set (pd_prev p)"
  shows "cloud_keys e (pd_store (producer_tick e now reading p)) \<subseteq> set (pd_prev (producer_tick e now reading p))"
    and "\<not> is_revoked (pe_store e) (pd_store p) (pe_pc e) \<Longrightarrow>
      cloud_keys e (pd_store (producer_tick e now reading p)) = session_doc_key ` set (status_sessions reading)"
proof -
  let ?ss = "status_sessions reading"
  let ?cur = "remdups (map session_doc_key ?ss)"
  have "cloud_keys e (delete_gone e ?cur (pd_prev p) (push_all e now ?ss (pd_store p))) = session_doc_key ` set ?ss"
    using p by (auto simp: delete_gone_keys [OF st ord] push_all_keys [OF st])
  then show "\<not> is_revoked (pe_store e) (pd_store p) (pe_pc e) \<Longrightarrow>
      cloud_keys e (pd_store (producer_tick e now reading p)) = session_doc_key ` set ?ss"
    and "cloud_keys e (pd_store (producer_tick e now reading p)) \<subseteq> set (pd_prev (producer_tick e now reading p))"
    using p by (simp_all add: producer_tick_def Let_def)
qed

definition spares_sessions :: "'w producer_env \<Rightarrow> ('w \<Rightarrow> 'w) \<Rightarrow> bool" where
  "spares_sessions e others \<longleftrightarrow> (\<forall>w. cloud_keys e (others w) = cloud_keys e w)"

lemma run_mirrors:
  assumes st: "reliable (pe_store e)" and ord: "\<And>ks. set (pe_order e ks) = set ks"
  shows "cloud_keys e (pd_store p) \<subseteq> set (pd_prev p) \<Longrightarrow> list_all (\<lambda>(others, _). spares_sessions e others) ticks \<Longrightarrow>
    cloud_keys e (pd_store (producer_run e ticks p)) \<subseteq> set (pd_prev (producer_run e ticks p))"
proof (induction ticks arbitrary: p)
  case (Cons t ticks)
  obtain others now reading where t: "t = (others, now, reading)" by (cases t)
  let ?p = "producer_tick e now reading (p\<lparr>pd_store := others (pd_store p)\<rparr>)"
  have "cloud_keys e (pd_store ?p) \<subseteq> set (pd_prev ?p)"
    by (rule tick_mirrors(1) [OF st ord]) (use Cons.prems t in \<open>simp add: spares_sessions_def\<close>)
  from Cons.IH [OF this] Cons.prems t show ?case by (simp add: producer_run_def)
qed (simp add: producer_run_def)

section \<open>A deletion that failed\<close>

lemma push_sessions_spares:
  assumes "store_laws (pe_store e)" "k \<notin> session_doc_key ` set ss"
  shows "push_sessions (pe_store e) chg (pe_pc e) ss n w = (ok, m, w') \<Longrightarrow> has_key e w' k = has_key e w k"
  using assms(2)
proof (induction ss arbitrary: n w)
  case (Cons s ss)
  let ?p = "sessions_path (pe_pc e) @ [session_doc_key s]"
  show ?case
  proof (cases "chg (st_get (pe_store e) w ?p) s")
    case None
    then show ?thesis using Cons by simp
  next
    case (Some d)
    obtain b w1 where x: "st_set (pe_store e) False ?p d w = (b, w1)" by (cases "st_set (pe_store e) False ?p d w")
    have h: "has_key e w1 k = has_key e w k"
      using set_other [OF assms(1), of "sessions_path (pe_pc e) @ [k]" ?p False d w] Cons.prems x by (auto simp: has_key_def)
    show ?thesis using Cons x Some h by (cases b) auto
  qed
qed simp

lemma push_all_spares:
  assumes l: "store_laws (pe_store e)" and k: "k \<notin> session_doc_key ` set ss"
  shows "has_key e (push_all e now ss w) k = has_key e w k"
proof -
  obtain ok n w1 where p: "push_sessions (pe_store e) (push_doc (pe_sha e) (pe_json e) (pe_fmt e) now) (pe_pc e) ss 0 w = (ok, n, w1)"
    using prod_cases3 by blast
  have "has_key e (snd (st_set (pe_store e) True [''pcs'', pe_pc e] d w1)) k = has_key e w1 k" for d
    using set_other [OF l, of "sessions_path (pe_pc e) @ [k]" "[''pcs'', pe_pc e]"] by (simp add: has_key_def sessions_path_def)
  then show ?thesis using push_sessions_spares [OF l k p] by (simp add: push_all_def push_status_def p)
qed

lemma forgotten_tick:
  assumes "store_laws (pe_store e)" "\<And>ks. set (pe_order e ks) = set ks"
    and "k \<notin> set (pd_prev p)" "k \<notin> session_doc_key ` set (status_sessions reading)"
  shows "has_key e (pd_store (producer_tick e now reading p)) k = has_key e (pd_store p) k
    \<and> k \<notin> set (pd_prev (producer_tick e now reading p))"
proof -
  have "has_key e (delete_gone e cur (pd_prev p) w) k = has_key e w k" for cur w
    unfolding has_key_def by (subst delete_gone_get [OF assms(1)]) (use assms(2,3) in auto)
  then show ?thesis using assms(3,4) push_all_spares [OF assms(1,4)] by (simp add: producer_tick_def Let_def)
qed

lemma forgotten_run:
  assumes "store_laws (pe_store e)" "\<And>ks. set (pe_order e ks) = set ks"
  shows "k \<notin> set (pd_prev p) \<Longrightarrow>
    list_all (\<lambda>(others, _, reading). (\<forall>w. has_key e (others w) k = has_key e w k)
      \<and> k \<notin> session_doc_key ` set (status_sessions reading)) ticks \<Longrightarrow>
    has_key e (pd_store (producer_run e ticks p)) k = has_key e (pd_store p) k"
proof (induction ticks arbitrary: p)
  case (Cons t ticks)
  obtain others now reading where t: "t = (others, now, reading)" by (cases t)
  let ?q = "p\<lparr>pd_store := others (pd_store p)\<rparr>"
  have h: "has_key e (pd_store (producer_tick e now reading ?q)) k = has_key e (pd_store ?q) k
      \<and> k \<notin> set (pd_prev (producer_tick e now reading ?q))"
    by (rule forgotten_tick [OF assms]) (use Cons.prems t in auto)
  then have "has_key e (pd_store (producer_run e ticks (producer_tick e now reading ?q))) k
      = has_key e (pd_store (producer_tick e now reading ?q)) k"
    using Cons t by auto
  then show ?case using h Cons.prems t by (simp add: producer_run_def)
qed (simp add: producer_run_def)

text \<open>
  A tick forgets the keys it deletes even when the deletion fails: the document of a session that has ended then stays in
  the cloud for as long as the agent runs and the session does not come back.
\<close>

lemma failed_delete_never_retried:
  assumes "store_laws (pe_store e)" "\<And>ks. set (pe_order e ks) = set ks"
    and "\<not> is_revoked (pe_store e) (pd_store p) (pe_pc e)"
    and "k \<notin> session_doc_key ` set (status_sessions reading)" "has_key e (pd_store (producer_tick e now reading p)) k"
    and "list_all (\<lambda>(others, _, reading). (\<forall>w. has_key e (others w) k = has_key e w k)
      \<and> k \<notin> session_doc_key ` set (status_sessions reading)) ticks"
  shows "has_key e (pd_store (producer_run e ticks (producer_tick e now reading p))) k"
proof -
  have "k \<notin> set (pd_prev (producer_tick e now reading p))"
    using assms(3,4) by (simp add: producer_tick_def Let_def)
  from forgotten_run [OF assms(1,2) this assms(6)] assms(5) show ?thesis by simp
qed

section \<open>Claims\<close>


definition demo_producer :: "(path \<Rightarrow> doc option) producer_env" where
  "demo_producer = \<lparr>pe_store = demo_store\<lparr>st_list := \<lambda>w p. Some [(''old'', [])]\<rparr>, pe_pc = ''pc'', pe_sha = id,
     pe_json = (\<lambda>d. concat (map fst d)), pe_fmt = demo_fmt, pe_order = rev\<rparr>"


end
