(* ===== verification/CommandProps.thy ===== *)
theory CommandProps
  imports Commands Producer TmuxProps
begin

text \<open>
  Properties of the commands: the values in the command lines of remote windows, the conversation a started proxy is
  recognised by, the admission of an attachment, and the options of \<open>tmux-wrap\<close>.
\<close>

section \<open>Command lines of remote windows\<close>

text \<open>
  What PowerShell makes of a command line: text and single-quoted literals, in which a doubled quote stands for one. The
  typographic single quotes (U+2018 to U+201B) count as quotes there too; a line with one of them is given no reading.
\<close>

definition typographic :: "bytes \<Rightarrow> bool" where
  "typographic s \<longleftrightarrow> list_ex (\<lambda>c. has_prefix s [CHR 0xE2, CHR 0x80, c]) [CHR 0x98, CHR 0x99, CHR 0x9A, CHR 0x9B]"

datatype ps_part = PsText bytes | PsLit bytes

fun ps_read :: "bool \<Rightarrow> bytes \<Rightarrow> bytes \<Rightarrow> ps_part list option" where
  "ps_read lit acc [] = (if lit then None else Some [PsText acc])"
| "ps_read lit acc (c # s) =
     (if typographic (c # s) then None
      else if c \<noteq> CHR 0x27 then ps_read lit (acc @ [c]) s
      else if \<not> lit then map_option ((#) (PsText acc)) (ps_read True [] s)
      else (case s of
          [] \<Rightarrow> Some [PsLit acc, PsText []]
        | d # r \<Rightarrow> if d = CHR 0x27 then ps_read True (acc @ [CHR 0x27]) r
                  else map_option ((#) (PsLit acc)) (ps_read False [] (d # r))))"

text \<open>No typographic quote in a value.\<close>

fun plain_value :: "bytes \<Rightarrow> bool" where
  "plain_value [] = True"
| "plain_value (c # s) = (\<not> typographic (c # s) \<and> plain_value s)"

definition doubled :: "bytes \<Rightarrow> bytes" where
  "doubled v = concat (map (\<lambda>c. if c = CHR 0x27 then [CHR 0x27, CHR 0x27] else [c]) v)"

lemma ps_quote_doubled: "ps_quote v = CHR 0x27 # doubled v @ [CHR 0x27]"
  by (simp add: ps_quote_def doubled_def replace_all_single)

lemma typographic_ascii [simp]: "c \<noteq> CHR 0xE2 \<Longrightarrow> \<not> typographic (c # s)"
  by (auto simp: typographic_def has_prefix_def)

lemma typographic_doubled:
  assumes "typographic (doubled v @ CHR 0x27 # r)" shows "typographic v"
proof (cases v)
  case Nil
  then show ?thesis using assms by (simp add: doubled_def)
next
  case v: (Cons a v1)
  then have a: "a = CHR 0xE2" using assms by (cases "a = CHR 0xE2") (auto simp: doubled_def split: if_splits)
  show ?thesis
  proof (cases v1)
    case Nil
    then show ?thesis using assms v a by (simp add: doubled_def typographic_def has_prefix_def)
  next
    case v1: (Cons b v2)
    then have b: "b = CHR 0x80" using assms v a
      by (cases "b = CHR 0x80") (auto simp: doubled_def typographic_def has_prefix_def split: if_splits)
    show ?thesis using assms v v1 a b
      by (cases v2) (auto simp: doubled_def typographic_def has_prefix_def split: if_splits)
  qed
qed

lemma ps_literal:
  assumes "r = [] \<or> hd r \<noteq> CHR 0x27"
  shows "plain_value v \<Longrightarrow>
    ps_read True acc (doubled v @ CHR 0x27 # r) = map_option ((#) (PsLit (acc @ v))) (ps_read False [] r)"
proof (induction v arbitrary: acc)
  case Nil
  then show ?case using assms by (cases r) (simp_all add: doubled_def)
next
  case (Cons c v)
  have d: "doubled (c # v) = (if c = CHR 0x27 then [CHR 0x27, CHR 0x27] else [c]) @ doubled v" by (simp add: doubled_def)
  show ?case
  proof (cases "c = CHR 0x27")
    case True
    then show ?thesis using Cons d by simp
  next
    case False
    then have "\<not> typographic (c # doubled v @ CHR 0x27 # r)"
      using typographic_doubled [of "c # v" r] Cons.prems d by auto
    then show ?thesis using Cons d False by simp
  qed
qed

lemma ps_text:
  "list_all (\<lambda>c. c \<noteq> CHR 0x27 \<and> c \<noteq> CHR 0xE2) t \<Longrightarrow> ps_read False acc (t @ s) = ps_read False (acc @ t) s"
  by (induction t arbitrary: acc) auto

lemma ps_quoted:
  assumes "list_all (\<lambda>c. c \<noteq> CHR 0x27 \<and> c \<noteq> CHR 0xE2) t" "plain_value v" "r = [] \<or> hd r \<noteq> CHR 0x27"
  shows "ps_read False [] (t @ ps_quote v @ r)
    = map_option (\<lambda>ps. PsText t # PsLit v # ps) (ps_read False [] r)"
proof -
  have "ps_read False [] (t @ ps_quote v @ r) = ps_read False t (ps_quote v @ r)" using ps_text [OF assms(1)] by simp
  then show ?thesis
    using ps_literal [OF assms(3,2), of "[]"] by (simp add: ps_quote_doubled option.map_comp comp_def)
qed

text \<open>On unix the values stand in the line as they are: it is read back as intended when they are plain words.\<close>

definition attach_line :: "bytes \<Rightarrow> bytes \<Rightarrow> bytes \<Rightarrow> bytes" where
  "attach_line self sid pc = self @ '' cloud attach '' @ sid @ '' --pc '' @ pc"

lemma remote_attach_unix_line:
  "remote_attach_unix self gcp relay sa sid pc =
     ''while true; do env GCP_PROJECT='' @ gcp @ '' CLOUD_RELAY_URL='' @ relay @ '' GOOGLE_APPLICATION_CREDENTIALS='' @ sa
     @ '' '' @ attach_line self sid pc @ ''; sleep 30; done''"
  by (simp add: remote_attach_unix_def attach_line_def)

text \<open>With a blank in the name of the machine the rest of it is a further word, with a semicolon it is a further command.\<close>

lemma attach_line_splits:
  "sh_words (attach_line ''cm'' ''s'' ''my pc'') = Some [''cm'', ''cloud'', ''attach'', ''s'', ''--pc'', ''my'', ''pc'']"
  "sh_words (attach_line ''cm'' ''s'' ''a;reboot'') = None"
  by (simp_all add: attach_line_def sh_words_def sh_text_def sh_push_def sh_emit_def is_digit_def)

section \<open>Words\<close>

lemma fields_word:
  assumes "list_all plain_char w" "w \<noteq> []"
  shows "GoStrings.fields w = [w]"
proof -
  have z: "space_len w = 0" using assms space_len_plain by (cases w) (auto simp del: space_len.simps)
  have t: "trim_left [] = []" by (simp add: trim_left.simps)
  show ?thesis
    using assms take_word_plain [OF assms(1), of "[]"] z
    by (simp add: GoStrings.fields.simps [of w] trim_left_id) (simp add: GoStrings.fields.simps t)
qed

lemma fields_words:
  "list_all (\<lambda>w. list_all plain_char w \<and> w \<noteq> []) ws \<Longrightarrow> GoStrings.fields (join '' '' ws) = ws"
proof (induction ws)
  case Nil
  then show ?case by (simp add: GoStrings.fields.simps trim_left.simps)
next
  case (Cons w ws)
  have w: "list_all plain_char w" "w \<noteq> []" using Cons.prems by auto
  show ?case
  proof (cases "ws = []")
    case True
    then show ?thesis using fields_word [OF w] by simp
  next
    case False
    let ?r = "CHR '' '' # join '' '' ws"
    have sp: "space_len ?r = 1" by (simp add: ascii_space_def)
    have z: "space_len (w @ ?r) = 0" using w space_len_plain by (cases w) (auto simp del: space_len.simps)
    have f: "GoStrings.fields ?r = GoStrings.fields (join '' '' ws)"
      using sp by (simp add: GoStrings.fields.simps [of ?r] GoStrings.fields.simps [of "join '' '' ws"] trim_left.simps [of ?r]
          del: space_len.simps)
    have "GoStrings.fields (w @ ?r) = w # GoStrings.fields ?r"
      using w z take_word_plain [OF w(1), of ?r] sp by (simp add: GoStrings.fields.simps [of "w @ ?r"] trim_left_id del: space_len.simps)
    then show ?thesis using Cons False f by (simp add: join_Cons)
  qed
qed

lemma attach_line_words:
  assumes "list_all (\<lambda>v. v \<noteq> [] \<and> list_all sh_text v) [self, sid, pc]"
  shows "sh_words (attach_line self sid pc) = Some [self, ''cloud'', ''attach'', sid, ''--pc'', pc]"
proof -
  have t: "sh_text c" if "c \<in> set ''cloudattach--pc''" for c using that by (auto simp: sh_text_def)
  have w: "sh_read Plain None (v @ CHR '' '' # r) = map_option ((#) v) (sh_read Plain None r)"
    if "v \<noteq> []" "list_all sh_text v" for v r
    using sh_read_text_start [OF that, of "CHR '' '' # r"] by (simp add: sh_emit_def)
  have l: "attach_line self sid pc
      = self @ CHR '' '' # (''cloud'' @ CHR '' '' # (''attach'' @ CHR '' '' # (sid @ CHR '' '' # (''--pc'' @ CHR '' '' # pc))))"
    by (simp add: attach_line_def)
  have "sh_read Plain None pc = Some [pc]" using sh_read_text_start [of pc "[]"] assms by (simp add: sh_emit_def)
  moreover have "list_all sh_text ''cloud''" "list_all sh_text ''attach''" "list_all sh_text ''--pc''"
    using t by (simp_all add: sh_text_def)
  ultimately show ?thesis unfolding sh_words_def l using assms w [of self] w [of "''cloud''"] w [of "''attach''"] w [of sid] w [of "''--pc''"]
    by (simp del: append_Cons sh_read.simps)
qed

section \<open>Recognising a started proxy\<close>

lemma claude_not_flag: "is_claude_cmd_base b \<Longrightarrow> b \<noteq> ''--resume''"
  by (auto simp: is_claude_cmd_base_def has_suffix_def)

text \<open>The line of \<open>ps\<close> for the child of a proxy that resumes a conversation shows that conversation.\<close>

lemma resumed_row:
  assumes c: "is_claude_cmd_base (cf_real_claude cfg)" "list_all plain_char (cf_real_claude cfg)"
    and u: "session_id_re u" "list_all plain_char u"
    and v: "\<not> is_vscode_session (proxy_argv cfg [''--resume'', u])"
    and r: "length cols = 10" "list_all (\<lambda>(w, g). word w \<and> gap g) cols" "fst (cols ! 1) = show_nat n" "n < 2 ^ 63"
  shows "\<exists>s. parse_ps_line pf (row cols (join '' '' (proxy_argv cfg [''--resume'', u]))) False = Some s
    \<and> cs_pid s = int n \<and> cs_sid s = u"
proof -
  let ?argv = "proxy_argv cfg [''--resume'', u]"
  have ne: "cf_real_claude cfg \<noteq> []" "u \<noteq> []" using c u by (auto simp: is_claude_cmd_base_def has_suffix_def session_id_re_def)
  have f: "GoStrings.fields (join '' '' ?argv) = ?argv"
    by (rule fields_words) (use c u ne in \<open>simp add: proxy_argv_def plain_char_def\<close>)
  have b: "\<not> blank (hd (join '' '' ?argv))"
    using c ne by (cases "cf_real_claude cfg") (auto simp: proxy_argv_def blank_def plain_char_def)
  have "join '' '' ?argv \<noteq> []" using ne by (simp add: proxy_argv_def)
  from ps_row_parsed [OF r(1,2) this b r(3,4)] f c v u claude_not_flag [OF c(1)] show ?thesis
    by (simp add: proxy_argv_def Let_def)
qed

lemma live_found:
  assumes "sn_scan e = Some ss" "s \<in> set ss" "cs_sid s = u" "u \<noteq> []" "sn_has_sock e (cs_pid s)"
  shows "\<exists>pid. find_live_managed_by_uuid (sn_scan e) (sn_has_sock e) u = Some pid"
proof -
  have "find (\<lambda>s. cs_sid s = u \<and> sn_has_sock e (cs_pid s)) ss \<noteq> None" using assms by (auto simp: find_None_iff)
  then show ?thesis using assms by (auto simp: find_live_managed_by_uuid_def)
qed

lemma live_no_spawn:
  assumes "sn_args e = []" "sn_resolve e (sn_cwd e) = Some u"
    and "find_live_managed_by_uuid (sn_scan e) (sn_has_sock e) u = Some pid"
  shows "filter is_spawn (run_start e) = []"
proof -
  have "start_new e = attach_live e pid u" using assms by (simp add: start_new_def resolve_resume_args_def)
  then show ?thesis using start_existing_no_spawn attach_live_no_spawn
    by (auto simp: run_start_def is_spawn_def split: prod.split option.split)
qed

section \<open>The options of \<open>tmux-wrap\<close>\<close>

text \<open>The relay never waits without bound for a pause: its idle time is positive whatever the options are.\<close>

lemma wrap_idle_positive: "0 < k_idle (wrap_cfg o')"
  by (simp add: wrap_cfg_def ms_def)

lemma wrap_default_cfg:
  "wrap_cfg wrap_defaults = \<lparr>k_idle = 4000000, k_hold_destructive = 32000000, k_sync_wrap = True,
     k_max_hold = 50000000, k_max_buffer = 524288\<rparr>"
  by (simp add: wrap_cfg_def wrap_defaults_def ms_def)

text \<open>The command that is run is the end of the arguments, unchanged.\<close>

lemma wrap_command:
  "tmux_wrap_args args o' = WrapRun o'' cmd \<Longrightarrow> cmd \<noteq> [] \<and> (\<exists>flags. args = flags @ cmd)"
proof (induction args o' rule: tmux_wrap_args.induct)
  case (2 a rest o')
  show ?case
  proof (cases "a \<in> {''--idle-ms'', ''--hold-ms'', ''--max-hold-ms''}")
    case True
    then obtain v r n where v: "rest = v # r" "atoi v = Some n" using "2.prems" by (auto split: list.splits option.splits)
    then obtain q where "tmux_wrap_args r q = WrapRun o'' cmd" "cmd \<noteq> [] \<and> (\<exists>flags. r = flags @ cmd)"
      using "2.prems" "2.IH"(1-3) [OF True v(1) v(2)] True by (auto split: if_splits)
    then show ?thesis using v by (metis append_Cons)
  next
    case False
    then show ?thesis using "2.prems" "2.IH"(4) by (auto split: if_splits intro: exI [of _ "[]"])
  qed
qed simp

section \<open>Claims\<close>





text \<open>C26: Attaching to a remote session wakes its machine and admits the viewer: when the relay is dialled on a working store,
  the watcher of the machine is told the session, and the relay admits a viewer of it for a minute, unless the
  attaching machine is revoked.\<close>
theorem attach_wakes_and_is_admitted:
  assumes "reliable st" "\<And>t. parse (fmt t) = Some t"
    and "run_cloud_attach fmt (Some st) cfg dial now args w = (r, w')" "r \<in> {AttachRan url, DialFailed url}"
    and "cloud_attach_args args ([], []) = (sid, pc)" "now \<le> t" "t < now + 60000000000"
  shows "woken (st_get st w' [''wake'', if pc = [] then cf_pc_id cfg else pc]) = Some sid
    \<and> url = dial_url (cf_relay_url cfg) sid ''viewer''
    \<and> check_relay_grant parse st t sid ''viewer'' w' = (\<not> is_revoked st w (cf_pc_id cfg))"
proof -
  let ?target = "if pc = [] then cf_pc_id cfg else pc" and ?me = "cf_pc_id cfg"
  have l: "store_laws st" and ok: "\<And>m p d w. fst (st_set st m p d w)" using assms(1) by (auto simp: reliable_def)
  have sid: "sid \<noteq> []" using assms(3,4,5) by (auto simp: run_cloud_attach_def)
  obtain w1 where w1: "wake fmt st now ?target sid w = (True, w1)"
    using ok [of False "[''wake'', ?target]" "[(''sid'', AStr sid), (''ts'', AStr (fmt now))]" w]
    by (cases "wake fmt st now ?target sid w") (simp add: wake_def)
  let ?gp = "[''relaygrants'', relay_grant_id sid ''viewer'']"
  let ?gd = "[(''sid'', AStr sid), (''role'', AStr ''viewer''), (''pc'', AStr ?me), (''exp'', AStr (fmt (now + viewer_ttl)))]"
  have w': "w' = snd (st_set st False ?gp ?gd w1)" and url: "url = dial_url (cf_relay_url cfg) sid ''viewer''"
    using assms(3-5) w1 sid
    by (auto simp: run_cloud_attach_def put_relay_grant_def good_role_def Let_def split: if_splits)
  have k1: "st_get st w' q = st_get st w1 q" if "q \<noteq> ?gp" for q using set_other [OF l that] w' by simp
  have wd: "snd (st_set st False [''wake'', ?target] [(''sid'', AStr sid), (''ts'', AStr (fmt now))] w) = w1"
    using w1 by (simp add: wake_def)
  have k0: "st_get st w1 q = st_get st w q" if "q \<noteq> [''wake'', ?target]" for q using set_other [OF l that] wd by metis
  obtain d where d: "st_get st w1 [''wake'', ?target] = Some d" "fld d ''sid'' = sid"
    using set_same [OF l ok, of False "[''wake'', ?target]" "[(''sid'', AStr sid), (''ts'', AStr (fmt now))]" w] wd
    by (auto simp: fld_written) (simp add: fld_def)
  obtain g where g: "st_get st w' ?gp = Some g" "written False ?gd (st_get st w1 ?gp) g"
    using set_same [OF l ok, of False ?gp ?gd w1] w' by auto
  have gf: "fld g ''pc'' = ?me" "fld g ''exp'' = fmt (now + viewer_ttl)"
    using g(2) by (simp_all add: fld_written) (simp_all add: fld_def)
  have rv: "is_revoked st w' ?me = is_revoked st w ?me" by (simp add: is_revoked_def k1 k0)
  have "check_relay_grant parse st t sid ''viewer'' w' = (\<not> is_revoked st w ?me)"
    using sid g gf rv assms(2,6,7) by (simp add: check_relay_grant_def good_role_def viewer_ttl_def is_revoked_def)
  then show ?thesis using d k1 [of "[''wake'', ?target]"] sid url by (simp add: woken_def)
qed

theorem attach_wakes_and_is_admitted_witness:
  "case run_cloud_attach demo_fmt (Some demo_store) (load id id (\<lambda>k. if k = ''CLOUD_RELAY_URL'' then Some ''wss://r'' else None)
       (\<lambda>_. None) id (Some ''me'') False) (\<lambda>_. True) 0 [''s'', ''--pc'', ''box''] Map.empty of
     (r, w') \<Rightarrow> woken (st_get demo_store w' [''wake'', ''box'']) = Some ''s''
       \<and> check_relay_grant demo_parse demo_store 5 ''s'' ''viewer'' w'"
proof -
  let ?cfg = "load id id (\<lambda>k. if k = ''CLOUD_RELAY_URL'' then Some ''wss://r'' else None) (\<lambda>_. None) id (Some ''me'') False"
  have url: "cf_relay_url ?cfg = ''wss://r''" by (simp add: load_def Let_def cfg_str_def cfg_get_def upper_byte_def)
  obtain r w' where r: "run_cloud_attach demo_fmt (Some demo_store) ?cfg (\<lambda>_. True) 0 [''s'', ''--pc'', ''box''] Map.empty = (r, w')"
    by (cases "run_cloud_attach demo_fmt (Some demo_store) ?cfg (\<lambda>_. True) 0 [''s'', ''--pc'', ''box''] Map.empty")
  have rel: "reliable demo_store" using demo_store_laws by (simp add: reliable_def) (simp add: demo_store_def)
  let ?url = "dial_url ''wss://r'' ''s'' ''viewer''"
  have "r = AttachRan ?url"
    using r by (auto simp: run_cloud_attach_def url wake_def demo_store_def Let_def)
  then have "r \<in> {AttachRan ?url, DialFailed ?url}" by simp
  from attach_wakes_and_is_admitted [OF rel demo_parse_fmt r this, of "''s''" "''box''" 5] r show ?thesis
    by (simp add: is_revoked_def demo_store_def)
qed

end
