(* ===== verification/TmuxRender.thy ===== *)
theory TmuxRender
  imports CcProtocol
begin

text \<open>
  \<open>claude-master tmux-render\<close> (\<open>cmd/claude-master/tmuxrender_unix.go\<close>): the output of one pane of a tmux session in control
  mode is written to the terminal as it is. What the client delivers is a list of events; \<open>Deadline\<close> is the timer of the wait
  that is under way, \<open>Closed\<close> the end of the client.
\<close>

datatype cc_event = Msg cc_msg | Deadline | Closed

datatype render_args = RenderUsage | RenderHelp | RenderRun bytes bytes

fun tmux_render_args :: "bytes list \<Rightarrow> bytes \<times> bytes \<Rightarrow> render_args" where
  "tmux_render_args [] (socket, session) = RenderRun socket session"
| "tmux_render_args [a] (socket, session) = (if a = ''-h'' \<or> a = ''--help'' then RenderHelp else RenderUsage)"
| "tmux_render_args (a # v # rest) (socket, session) =
     (if a = ''-L'' then tmux_render_args rest (v, session)
      else if a = ''-t'' then tmux_render_args rest (socket, v)
      else if a = ''-h'' \<or> a = ''--help'' then RenderHelp
      else RenderUsage)"

section \<open>Starting the client\<close>

definition cc_start_args :: "bytes \<Rightarrow> bytes \<Rightarrow> bytes list" where
  "cc_start_args socket session =
     (if socket \<noteq> [] then [''-L'', socket] else []) @ [''-CC'', ''attach''] @ (if session \<noteq> [] then [''-t'', session] else [])"

text \<open>Columns and rows of the pty, 16 bits each.\<close>

definition cc_start_size :: "int \<Rightarrow> int \<Rightarrow> 16 word \<times> 16 word" where
  "cc_start_size cols rows = (word_of_int (if cols \<le> 0 then 80 else cols), word_of_int (if rows \<le> 0 then 24 else rows))"

definition cc_resize :: "int \<Rightarrow> int \<Rightarrow> 16 word \<times> 16 word" where
  "cc_resize cols rows = (word_of_int cols, word_of_int rows)"

section \<open>Before the output\<close>

fun wait_session_changed :: "cc_event list \<Rightarrow> bool \<times> cc_event list" where
  "wait_session_changed [] = (False, [])"
| "wait_session_changed (Msg m # es) =
     (case m of SessionChangedMsg _ _ \<Rightarrow> (True, es) | _ \<Rightarrow> wait_session_changed es)"
| "wait_session_changed (_ # es) = (False, es)"

fun collect_lines :: "bool \<Rightarrow> bytes list \<Rightarrow> cc_event list \<Rightarrow> bytes list \<times> cc_event list" where
  "collect_lines began ls [] = (ls, [])"
| "collect_lines began ls (Msg m # es) =
     (case m of
        BeginMsg _ _ _ \<Rightarrow> collect_lines True ls es
      | ReplyLineMsg t \<Rightarrow> collect_lines began (if began then ls @ [t] else ls) es
      | EndMsg _ _ _ \<Rightarrow> if began then (ls, es) else collect_lines began ls es
      | ErrorMsg _ _ _ \<Rightarrow> if began then (ls, es) else collect_lines began ls es
      | _ \<Rightarrow> collect_lines began ls es)"
| "collect_lines began ls (_ # es) = (ls, es)"

text \<open>\<open>sent\<close> tells whether the command could be sent.\<close>

definition query_lines :: "bool \<Rightarrow> cc_event list \<Rightarrow> bytes list \<times> cc_event list" where
  "query_lines sent es = (if sent then collect_lines False [] es else ([], es))"

definition query_one_line :: "bool \<Rightarrow> cc_event list \<Rightarrow> bytes \<times> cc_event list" where
  "query_one_line sent es = (case query_lines sent es of (ls, es) \<Rightarrow> (if ls = [] then [] else hd ls, es))"

definition catch_up_frame :: "bytes list \<Rightarrow> bytes" where
  "catch_up_frame ls =
     ESC # ''[?2026h'' @ ESC # ''[?25l'' @ ESC # ''[2J'' @ ESC # ''[H'' @ join [CHR 0x0D, CHR 0x0A] ls
     @ ESC # ''[?25h'' @ ESC # ''[?2026l''"

section \<open>The output\<close>

datatype render_end = TmuxExit bytes | ReadError bytes bytes | ClientClosed | StillRunning

fun render_loop :: "forwarder \<Rightarrow> cc_event list \<Rightarrow> bytes list \<times> render_end" where
  "render_loop f [] = ([], StillRunning)"
| "render_loop f (Closed # es) = ([], ClientClosed)"
| "render_loop f (Deadline # es) = render_loop f es"
| "render_loop f (Msg m # es) =
     (case m of
        OutputMsg pane d \<Rightarrow>
          (case handle_output f pane d of (f, w) \<Rightarrow>
             (case render_loop f es of (ws, r) \<Rightarrow> (case w of None \<Rightarrow> ws | Some x \<Rightarrow> x # ws, r)))
      | ExitMsg reason \<Rightarrow> ([], TmuxExit reason)
      | OtherMsg t rest \<Rightarrow> if has_prefix t ''%READ-ERR'' then ([], ReadError t rest) else render_loop f es
      | _ \<Rightarrow> render_loop f es)"

datatype render_result = NoHandshake | NoPane bytes | Rendered "bytes list" render_end

text \<open>What is written to the terminal. \<open>sends\<close>: whether the two queries could be sent.\<close>

definition run_tmux_render :: "bool \<times> bool \<Rightarrow> cc_event list \<Rightarrow> render_result" where
  "run_tmux_render sends es =
     (case wait_session_changed es of (ok, es) \<Rightarrow>
        if \<not> ok then NoHandshake
        else case query_one_line (fst sends) es of (pane, es) \<Rightarrow>
          if pane = [] \<or> \<not> has_prefix pane ''%'' then NoPane pane
          else case query_lines (snd sends) es of (ls, es) \<Rightarrow>
            (case render_loop (set_active \<lparr>fw_active = [], fw_has_out = True\<rparr> pane) es of (ws, r) \<Rightarrow>
               Rendered ((if ls = [] then [] else [catch_up_frame ls]) @ ws) r))"

section \<open>The keyboard and the size\<close>

text \<open>One read of the keyboard: the bytes, whether the command could be sent, whether reading ended. The commands sent.\<close>

fun key_pump :: "bytes \<Rightarrow> (bytes \<times> bool \<times> bool) list \<Rightarrow> bytes list" where
  "key_pump pane [] = []"
| "key_pump pane ((d, sent, err) # rs) =
     (if d = [] then [] else [encode_send_keys_literal pane d])
     @ (if d \<noteq> [] \<and> \<not> sent \<or> err then [] else key_pump pane rs)"

text \<open>\<open>Client.Send\<close>: a command is a line of its own.\<close>

definition cc_send :: "bytes \<Rightarrow> bytes" where
  "cc_send cmd = cmd @ [CHR 0x0A]"

text \<open>After a change of the size: that of the pty and the command that tells tmux, nothing when the size is unknown.\<close>

definition winch_resize :: "(int \<times> int) option \<Rightarrow> ((16 word \<times> 16 word) \<times> bytes) option" where
  "winch_resize got =
     (case got of Some (c, r) \<Rightarrow> if 0 < c \<and> 0 < r then Some (cc_resize c r, resize_command c r) else None | None \<Rightarrow> None)"

text \<open>Whatever is typed, line ends included, tmux reads one command per read of the keyboard.\<close>

lemma encode_no_newline:
  assumes "CHR 0x0A \<notin> set pane"
  shows "CHR 0x0A \<notin> set (encode_send_keys_literal pane d)"
proof -
  have "CHR 0x0A \<notin> set (octal3 c)" for c using octal3_range [of "CHR 0x0A" c] by auto
  then show ?thesis using assms by (auto simp: encode_send_keys_literal_def)
qed

lemma key_pump_lines:
  assumes "CHR 0x0A \<notin> set pane"
  shows "split_on (CHR 0x0A) (concat (map cc_send (key_pump pane rs))) = key_pump pane rs @ [[]]"
proof -
  have n: "list_all (\<lambda>l. CHR 0x0A \<notin> set l) (key_pump pane rs)"
    using encode_no_newline [OF assms] by (induction pane rs rule: key_pump.induct) auto
  have "split_on (CHR 0x0A) (concat (map cc_send ls)) = ls @ [[]]" if "list_all (\<lambda>l. CHR 0x0A \<notin> set l) ls" for ls
    using that by (induction ls) (auto simp: cc_send_def split_on_sep)
  then show ?thesis using n by blast
qed

section \<open>From the wire to the terminal\<close>

text \<open>
  What tmux sends while the pane is shown: output of panes and reply blocks of commands, whose lines may look like anything
  but malformed output and the end of the block.
\<close>

datatype wire = WOutput bytes bytes | WReply "bytes list"

fun wire_lines :: "wire \<Rightarrow> bytes list" where
  "wire_lines (WOutput pane d) = [''%output '' @ pane @ '' '' @ tmux_escape d @ [CHR 0x0A]]"
| "wire_lines (WReply ls) = (''%begin 1 2 0'' @ [CHR 0x0A]) # ls @ [''%end 1 2 0'' @ [CHR 0x0A]]"

fun wire_ok :: "wire \<Rightarrow> bool" where
  "wire_ok (WOutput pane d) \<longleftrightarrow> list_all (\<lambda>c. c \<notin> set pane) [CHR '' '', CHR 0x0A, CHR 0x0D]"
| "wire_ok (WReply ls) \<longleftrightarrow>
     list_all (\<lambda>l. l \<noteq> [] \<and> (case parse_line l of Inl _ \<Rightarrow> False | Inr m \<Rightarrow> \<not> is_terminator m)) ls"

definition shown :: "bytes \<Rightarrow> wire list \<Rightarrow> bytes list" where
  "shown pane ws = List.map_filter (\<lambda>w. case w of WOutput p d \<Rightarrow> if p = pane then Some d else None | WReply _ \<Rightarrow> None) ws"

lemma read_loop_append:
  "read_loop r (a @ b) = (case read_loop r a of (r1, m1) \<Rightarrow> case read_loop r1 b of (r2, m2) \<Rightarrow> (r2, m1 @ m2))"
  by (induction a arbitrary: r) (auto split: prod.splits)

lemma block_lines:
  "\<exists>a b c. parse_line (''%begin 1 2 0'' @ [CHR 0x0A]) = Inr (Some (BeginMsg a b c))"
  "\<exists>a b c. parse_line (''%end 1 2 0'' @ [CHR 0x0A]) = Inr (Some (EndMsg a b c))"
proof -
  have "trim_right_set (''%begin 1 2 0'' @ [CHR 0x0A]) [CHR 0x0D, CHR 0x0A] = ''%begin 1 2 0''"
    "trim_right_set (''%end 1 2 0'' @ [CHR 0x0A]) [CHR 0x0D, CHR 0x0A] = ''%end 1 2 0''"
    by (simp_all add: trim_right_set_def)
  then show "\<exists>a b c. parse_line (''%begin 1 2 0'' @ [CHR 0x0A]) = Inr (Some (BeginMsg a b c))"
    "\<exists>a b c. parse_line (''%end 1 2 0'' @ [CHR 0x0A]) = Inr (Some (EndMsg a b c))"
    by (simp_all add: parse_line_def has_prefix_def split_typ_def Let_def)
qed

text \<open>What the reader makes of one piece of the stream.\<close>

lemma read_wire:
  assumes "wire_ok w"
  shows "\<exists>ms. read_loop False (wire_lines w) = (False, ms)
    \<and> (case w of WOutput p d \<Rightarrow> ms = [OutputMsg p d]
       | WReply ls \<Rightarrow> \<exists>a b c a' b' c' ts. ms = BeginMsg a b c # map ReplyLineMsg ts @ [EndMsg a' b' c'])"
proof (cases w)
  case (WOutput p d)
  then have "parse_line (''%output '' @ p @ '' '' @ tmux_escape d @ [CHR 0x0A]) = Inr (Some (OutputMsg p d))"
    using assms by (intro output_roundtrip) auto
  then show ?thesis by (simp add: WOutput read_line_def is_begin_def)
next
  case (WReply ls)
  obtain a b c where b: "parse_line (''%begin 1 2 0'' @ [CHR 0x0A]) = Inr (Some (BeginMsg a b c))" using block_lines(1) by blast
  obtain a' b' c' where e: "parse_line (''%end 1 2 0'' @ [CHR 0x0A]) = Inr (Some (EndMsg a' b' c'))" using block_lines(2) by blast
  have "read_loop True (ls @ [''%end 1 2 0'' @ [CHR 0x0A]])
      = (False, map (\<lambda>l. ReplyLineMsg (trim_right_set l [CHR 0x0D, CHR 0x0A])) ls @ [EndMsg a' b' c'])"
  proof (rule reply_block)
    fix l assume "l \<in> set ls"
    then show "l \<noteq> [] \<and> (\<exists>m. parse_line l = Inr m \<and> \<not> is_terminator m)"
      using assms WReply by (cases "parse_line l") (auto simp: list_all_iff)
  qed (use e in \<open>simp_all add: is_terminator_def\<close>)
  moreover have "read_line False (''%begin 1 2 0'' @ [CHR 0x0A]) = (True, [BeginMsg a b c])"
    using b by (simp add: read_line_def is_begin_def)
  ultimately have "read_loop False (wire_lines w)
      = (False, BeginMsg a b c # map ReplyLineMsg (map (\<lambda>l. trim_right_set l [CHR 0x0D, CHR 0x0A]) ls) @ [EndMsg a' b' c'])"
    by (simp add: WReply comp_def)
  then show ?thesis unfolding WReply wire.case by (intro exI conjI) (assumption, rule refl)
qed

lemma render_replies: "render_loop f (map (Msg \<circ> ReplyLineMsg) ts @ es) = render_loop f es"
  by (induction ts) auto

text \<open>C29: The terminal shows what the pane wrote: from the lines tmux sends, with the escapes of its protocol, with the output
  of other panes and with the replies to commands in between, whatever those contain, exactly the bytes of the pane that is shown
  are written, unchanged, undivided and in order.\<close>
theorem render_verbatim:
  assumes "list_all wire_ok ws" "pane \<noteq> []"
  shows "render_loop (set_active \<lparr>fw_active = [], fw_has_out = True\<rparr> pane)
      (map Msg (snd (read_loop False (concat (map wire_lines ws))))) = (shown pane ws, StillRunning)"
proof -
  let ?f = "set_active \<lparr>fw_active = [], fw_has_out = True\<rparr> pane"
  have "fst (read_loop False (concat (map wire_lines ws))) = False
    \<and> render_loop ?f (map Msg (snd (read_loop False (concat (map wire_lines ws))))) = (shown pane ws, StillRunning)"
    using assms(1)
  proof (induction ws)
    case (Cons w ws)
    obtain ms where ms: "read_loop False (wire_lines w) = (False, ms)"
      and c: "case w of WOutput p d \<Rightarrow> ms = [OutputMsg p d]
       | WReply ls \<Rightarrow> \<exists>a b c a' b' c' ts. ms = BeginMsg a b c # map ReplyLineMsg ts @ [EndMsg a' b' c']"
      using read_wire [of w] Cons.prems by auto
    obtain ms' where ih: "read_loop False (concat (map wire_lines ws)) = (False, ms')"
      "render_loop ?f (map Msg ms') = (shown pane ws, StillRunning)"
      using Cons by (cases "read_loop False (concat (map wire_lines ws))") auto
    have r: "read_loop False (concat (map wire_lines (w # ws))) = (False, ms @ ms')"
      using ms ih(1) by (simp add: read_loop_append)
    have "render_loop ?f (map Msg (ms @ ms')) = (shown pane (w # ws), StillRunning)"
    proof (cases w)
      case (WOutput p d)
      then show ?thesis using c ih(2) assms(2)
        by (cases "p = pane") (simp_all add: handle_output_def set_active_def shown_def map_filter_simps)
    next
      case (WReply ls)
      then obtain a b c a' b' c' ts where "ms = BeginMsg a b c # map ReplyLineMsg ts @ [EndMsg a' b' c']" using c by auto
      then have "render_loop ?f (map Msg (ms @ ms')) = render_loop ?f (map Msg ms')"
        using render_replies [of ?f ts "Msg (EndMsg a' b' c') # map Msg ms'"] by simp
      then show ?thesis using ih(2) WReply by (simp add: shown_def map_filter_simps)
    qed
    then show ?case using r by simp
  qed (simp add: shown_def map_filter_simps)
  then show ?thesis by simp
qed

theorem render_verbatim_witness:
  "render_loop (set_active \<lparr>fw_active = [], fw_has_out = True\<rparr> ''%1'')
      (map Msg (snd (read_loop False (concat (map wire_lines [WOutput ''%1'' [ESC, CHR 0x5C], WReply [''hi''], WOutput ''%2'' ''x''])))))
    = ([[ESC, CHR 0x5C]], StillRunning)"
  using render_verbatim [of "[WOutput ''%1'' [ESC, CHR 0x5C], WReply [''hi''], WOutput ''%2'' ''x'']" "''%1''"] demo_lines
  by (simp add: shown_def map_filter_simps is_terminator_def)

end
