(* ===== verification/ProxyRun.thy ===== *)
theory ProxyRun
  imports Commands Diag VT "HOL-Library.Multiset"
begin

text \<open>
  The life of a proxy process: \<open>ptyproxy.RunProxy\<close> (\<open>run.go\<close>, \<open>proxy.go\<close>), \<open>runProxy\<close> of \<open>cmd/claude-master/main.go\<close>, the
  snapshot and dump files of \<open>diag.go\<close>, and the listing of the proxies (\<open>sessions.go\<close>). Starting the child, listening, waiting
  and what happens while the child runs are parameters; files are a map from paths to contents.
\<close>

section \<open>Sizes\<close>

text \<open>The size of the host terminal: absent when there is no function for it; unusable values are replaced.\<close>

definition run_size :: "(int \<times> int) option \<Rightarrow> int \<times> int" where
  "run_size win = (case win of Some (c, r) \<Rightarrow> if 0 < c \<and> 0 < r then (c, r) else (80, 24) | None \<Rightarrow> (80, 24))"

definition winch_size :: "int \<times> int \<Rightarrow> (int \<times> int) option \<Rightarrow> int \<times> int" where
  "winch_size start win = (case win of Some (c, r) \<Rightarrow> if 0 < c \<and> 0 < r then (c, r) else start | None \<Rightarrow> start)"

definition host_size :: "(int \<times> int) option \<Rightarrow> int \<times> int" where
  "host_size got = (case got of Some cr \<Rightarrow> cr | None \<Rightarrow> (80, 24))"

section \<open>Running the child\<close>

text \<open>One read of the master: the bytes and, when it ends, whether the error means that the child has closed it.\<close>

fun pump_to_vt :: "(rune \<Rightarrow> nat) \<Rightarrow> (bytes \<times> bool option) list \<Rightarrow> vt \<Rightarrow> (vt \<times> bool) option" where
  "pump_to_vt rw [] v = Some (v, True)"
| "pump_to_vt rw ((bs, end) # rs) v =
     Option.bind (if bs = [] then Some v else feed rw v bs)
       (\<lambda>v. case end of None \<Rightarrow> pump_to_vt rw rs v | Some closed \<Rightarrow> Some (v, closed))"

datatype wait_end = WaitOk | WaitCode int | WaitFailed

definition wait_code :: "wait_end \<Rightarrow> int" where
  "wait_code we = (case we of WaitOk \<Rightarrow> 0 | WaitCode c \<Rightarrow> c | WaitFailed \<Rightarrow> 1)"

text \<open>\<open>re_during\<close>: what becomes of the files from listening on until the child has ended.\<close>

record run_env =
  re_start :: "bytes list \<Rightarrow> int \<times> int \<Rightarrow> int option"
  re_mkdir :: bool
  re_remove :: "bytes \<Rightarrow> bool"
  re_serve :: bool
  re_during :: "files \<Rightarrow> files"
  re_wait :: wait_end

record run_opts =
  ro_argv :: "bytes list"
  ro_sock :: bytes
  ro_win :: "(int \<times> int) option"
  ro_dir :: bytes

definition rm :: "run_env \<Rightarrow> bytes \<Rightarrow> files \<Rightarrow> files" where
  "rm e p fs = (if re_remove e p then fs(p := None) else fs)"

definition sock_path :: "run_opts \<Rightarrow> int \<Rightarrow> bytes" where
  "sock_path o' pid = (if ro_sock o' \<noteq> [] then ro_sock o' else path_join [ro_dir o', show_int pid @ ''.sock''])"

definition status_path :: "run_opts \<Rightarrow> int \<Rightarrow> bytes" where
  "status_path o' pid = path_join [ro_dir o', show_int pid @ ''.status.json'']"

text \<open>The exit code, whether there was an error, and the files.\<close>

definition run_proxy :: "run_env \<Rightarrow> run_opts \<Rightarrow> files \<Rightarrow> int \<times> bool \<times> files" where
  "run_proxy e o' fs =
     (case (if ro_argv o' = [] then None else re_start e (ro_argv o') (run_size (ro_win o'))) of
        None \<Rightarrow> (1, True, fs)
      | Some pid \<Rightarrow>
          if ro_sock o' = [] \<and> \<not> re_mkdir e then (1, True, fs)
          else let sock = sock_path o' pid; fs = rm e sock fs in
            if \<not> re_serve e then (1, True, fs)
            else (wait_code (re_wait e), False, rm e (status_path o' pid) (rm e sock (re_during e (fs(sock \<mapsto> []))))))"

section \<open>Signals\<close>

datatype proxy_event = Fatal bytes | NonFatal bytes | FiveSeconds | ChildGone

datatype proxy_act = Dump bytes | CancelRun | ExitNow int

text \<open>\<open>first\<close> is the fatal signal that was taken; further ones are not read. The timer runs only after it.\<close>

fun proxy_signals :: "bytes option \<Rightarrow> proxy_event list \<Rightarrow> proxy_act list" where
  "proxy_signals first [] = []"
| "proxy_signals first (Fatal s # es) =
     (if first = None then Dump (''signal-'' @ s) # CancelRun # proxy_signals (Some s) es else proxy_signals first es)"
| "proxy_signals first (NonFatal s # es) = Dump (''sig-'' @ s) # proxy_signals first es"
| "proxy_signals first (FiveSeconds # es) =
     (case first of Some s \<Rightarrow> [Dump (''stuck-after-'' @ s), ExitNow 128] | None \<Rightarrow> proxy_signals first es)"
| "proxy_signals first (ChildGone # es) = []"

section \<open>Snapshot and dump files\<close>

definition diag_base :: "bytes \<Rightarrow> bytes" where
  "diag_base home = path_join [if home = [] then ''.'' else home, ''.claude-master'']"

definition snap_path :: "bytes \<Rightarrow> int \<Rightarrow> bytes" where
  "snap_path home pid = path_join [diag_base home, ''diag'', show_int pid @ ''.snap'']"

text \<open>The path from which \<open>start\<close> reads.\<close>

definition start_snap_path :: "bytes \<Rightarrow> int \<Rightarrow> bytes" where
  "start_snap_path home pid = path_join [home, ''.claude-master'', ''diag'', show_int pid @ ''.snap'']"

definition dump_path :: "bytes \<Rightarrow> int \<Rightarrow> bytes \<Rightarrow> bytes \<Rightarrow> bytes" where
  "dump_path dir pid ts reason = path_join [dir, show_int pid @ ''-'' @ ts @ ''-'' @ safe_reason reason @ ''.dump'']"

text \<open>The stacks are read into a buffer that is doubled while it is full; \<open>need\<close> bytes would hold all of them.\<close>

function stack_bytes :: "nat \<Rightarrow> nat \<Rightarrow> nat" where
  "stack_bytes len need =
     (if need < len then need
      else if 8388608 \<le> len \<or> len = 0 then len
      else stack_bytes (len * 2) need)"
  by pat_completeness auto
termination
  by (relation "measure (\<lambda>(len, need). 16777216 - len)") auto

declare stack_bytes.simps [simp del]

definition dump_stacks :: "nat \<Rightarrow> nat" where
  "dump_stacks need = stack_bytes 65536 need"

text \<open>\<open>WriteDump\<close>: the path and the calls; \<open>ts\<close> and \<open>ts'\<close> are the texts of the time, \<open>js\<close> the encoded snapshot.\<close>

definition dump_text :: "int \<Rightarrow> bytes \<Rightarrow> bytes \<Rightarrow> bytes \<Rightarrow> bytes \<Rightarrow> bytes" where
  "dump_text pid reason ts js stacks =
     ''claude-master diagnostic dump'' @ [CHR 0x0A] @ ''pid='' @ show_int pid @ '' reason='' @ reason @ '' ts='' @ ts @ [CHR 0x0A]
     @ ''snapshot='' @ js @ [CHR 0x0A, CHR 0x0A] @ ''=== all goroutines ==='' @ [CHR 0x0A] @ stacks"

definition write_dump ::
  "bool \<Rightarrow> bytes \<Rightarrow> int \<Rightarrow> bytes \<Rightarrow> bytes \<Rightarrow> bytes \<Rightarrow> bytes \<Rightarrow> bytes \<Rightarrow> bytes \<times> file_op list" where
  "write_dump mkdir dir pid reason ts ts' js stacks =
     (if \<not> mkdir then ([], [])
      else (dump_path dir pid ts reason,
        [WriteOp (dump_path dir pid ts reason) (dump_text pid reason ts' js (take (dump_stacks (length stacks)) stacks))]))"

section \<open>The process\<close>

text \<open>
  \<open>runProxy\<close> ends with \<open>os.Exit\<close>, so none of its own deferred calls is made; \<open>ticks\<close> are the snapshots that were written
  every 30 seconds while claude was running.
\<close>

definition snap_interval :: int where "snap_interval = 30000000000"

definition proxy_process :: "run_env \<Rightarrow> run_opts \<Rightarrow> bytes \<Rightarrow> int \<Rightarrow> (write_env \<times> bytes) list \<Rightarrow> files \<Rightarrow> int \<times> files" where
  "proxy_process e o' home self ticks fs =
     (let during = (\<lambda>fs. fold do_op (periodic_snaps snap_interval (snap_path home self) ticks) (re_during e fs))
      in case run_proxy (e\<lparr>re_during := during\<rparr>) o' fs of
           (code, err, fs) \<Rightarrow> (proxy_exit code err, fs))"

section \<open>\<open>sessions\<close>\<close>

datatype sessions_out = SessUsage | SessUnknown bytes | SessFailed | SessJson "snap list" | SessTable "snap list"

text \<open>
  \<open>listing\<close> is \<open>diag.ListSessions\<close>. The order is by directory and then by process id, written as two stable sorts; the cells
  of the table are not modelled.
\<close>

definition sessions_order :: "snap list \<Rightarrow> snap list" where
  "sessions_order ss = sort_key snap.sn_cwd (sort_key snap.sn_pid ss)"

definition run_sessions :: "bytes list \<Rightarrow> snap list option \<Rightarrow> sessions_out" where
  "run_sessions args listing =
     (case sessions_args args False of
        SessHelp \<Rightarrow> SessUsage
      | SessBad a \<Rightarrow> SessUnknown a
      | SessRun json \<Rightarrow>
          (case listing of
             None \<Rightarrow> SessFailed
           | Some ss \<Rightarrow> if json then SessJson (sessions_order ss) else SessTable (sessions_order ss)))"

text \<open>Nothing is lost, and the sessions of a directory stand together, ordered by process id.\<close>

lemma sessions_order_mset: "mset (sessions_order ss) = mset ss"
  by (simp add: sessions_order_def)

lemma sessions_order_cwd: "sorted (map snap.sn_cwd (sessions_order ss))"
  by (simp add: sessions_order_def)

lemma sessions_order_pid: "sorted (map snap.sn_pid (filter (\<lambda>s. snap.sn_cwd s = d) (sessions_order ss)))"
proof -
  have "filter (\<lambda>s. snap.sn_cwd s = d) (sessions_order ss) = filter (\<lambda>s. snap.sn_cwd s = d) (sort_key snap.sn_pid ss)"
    unfolding sessions_order_def by (rule sort_key_stable)
  then show ?thesis by (simp add: sorted_filter)
qed

section \<open>Names\<close>

lemma pid_name_plain: "CHR ''/'' \<notin> set suf \<Longrightarrow> suf \<noteq> [] \<Longrightarrow> plain_name (show_nat n @ suf)"
proof -
  assume s: "CHR ''/'' \<notin> set suf" "suf \<noteq> []"
  have d: "CHR ''/'' \<notin> set (show_nat n)" using show_nat_digits [of "CHR ''/''" n] by (auto simp: is_digit_def)
  have "hd (show_nat n) \<noteq> CHR ''.''"
    using show_nat_digits [of "hd (show_nat n)" n] by (auto simp: is_digit_def)
  then have "show_nat n @ suf \<noteq> ''.''" "show_nat n @ suf \<noteq> ''..''" by (cases "show_nat n"; auto)+
  then show ?thesis using s d by (simp add: plain_name_def path_comp_def)
qed

lemma snap_name: "0 \<le> pid \<Longrightarrow> plain_name (show_int pid @ ''.snap'')"
  using pid_name_plain [of "''.snap''" "nat pid"] by (simp add: show_int_def)

lemma diag_names: "plain_name ''diag''" "plain_name ''.claude-master''"
  by (simp_all add: plain_name_def path_comp_def)

lemma snap_path_join:
  assumes "rooted home" "0 \<le> pid"
  shows "snap_path home pid = path_join [home, ''.claude-master'', ''diag'', show_int pid @ ''.snap'']"
proof -
  have "home \<noteq> []" using assms(1) by (auto simp: rooted_def)
  then show ?thesis
    using path_join_join [OF assms(1), of "[''.claude-master'']" "[''diag'', show_int pid @ ''.snap'']"] snap_name [OF assms(2)] diag_names
    by (simp add: snap_path_def diag_base_def)
qed

text \<open>
  \<open>start\<close> looks for the snapshot of the process in the status file, which is the child, while a proxy writes one under its own id:
  the file that is looked for is that of no proxy whose id is another one.
\<close>

lemma start_reads_other_snap:
  assumes "rooted home" "0 \<le> child" "0 \<le> self" "child \<noteq> self"
  shows "start_snap_path home child \<noteq> snap_path home self"
proof -
  let ?xs = "\<lambda>p. [''.claude-master'', ''diag'', show_int p @ ''.snap'']"
  have "list_all plain_name (?xs child)" "list_all plain_name (?xs self)" using snap_name assms diag_names by auto
  then have "start_snap_path home child = path_join (home # ?xs self) \<longleftrightarrow> ?xs child = ?xs self"
    unfolding start_snap_path_def by (rule path_join_inj [OF assms(1)])
  moreover have "?xs child \<noteq> ?xs self" using assms by (auto simp: show_int_def show_nat_inj)
  ultimately show ?thesis using snap_path_join [OF assms(1,3)] by simp
qed

text \<open>So when the only snapshots are those of proxies, a move of the directory goes unnoticed: the old session is attached to.\<close>

lemma drift_unseen:
  assumes "rooted home" "\<And>p. fs p \<noteq> None \<Longrightarrow> p \<in> snap_path home ` proxies" "\<forall>q \<in> proxies. 0 \<le> q" "0 \<le> child" "child \<notin> proxies"
    and "sn_snap e = (\<lambda>pid. case fs (start_snap_path home pid) of None \<Rightarrow> [] | Some b \<Rightarrow> decode b)"
  shows "start_existing e key child = [AttachKey key]"
proof -
  have "start_snap_path home child \<notin> snap_path home ` proxies"
    using start_reads_other_snap [OF assms(1,4)] assms(3,5) by blast
  then have "fs (start_snap_path home child) = None" using assms(2) by blast
  then show ?thesis by (simp add: start_existing_def read_snap_start_cwd_def assms(6))
qed

section \<open>Ends\<close>

lemma stacks_bounded: "dump_stacks need = min need 8388608"
  by (simp add: dump_stacks_def stack_bytes.simps [of 65536] stack_bytes.simps [of 131072] stack_bytes.simps [of 262144]
      stack_bytes.simps [of 524288] stack_bytes.simps [of 1048576] stack_bytes.simps [of 2097152] stack_bytes.simps [of 4194304]
      stack_bytes.simps [of 8388608])

text \<open>The run is cancelled at most once, however many signals arrive.\<close>

lemma cancelled_once: "length (filter (\<lambda>a. a = CancelRun) (proxy_signals first es)) \<le> (if first = None then 1 else 0)"
proof (induction first es rule: proxy_signals.induct)
  case (4 first es)
  then show ?case by (cases first) auto
qed auto

text \<open>The last snapshot that was written is still there when the process has ended.\<close>

lemma last_snap:
  "we_mkdir w \<Longrightarrow> we_failed w = None \<Longrightarrow> we_rename w \<Longrightarrow>
    fold do_op (periodic_snaps snap_interval path (ts @ [(w, b)])) fs path = Some b"
  using snaps.succeeds [of w path b]
  by (simp add: periodic_snaps_def snap_interval_def publish_def write_snap_def write_and_rename_def)

lemma snap_left_behind:
  assumes "proxy_process e o' home self (ts @ [(w, b)]) fs = (code, fs')"
    and "re_start e (ro_argv o') (run_size (ro_win o')) = Some pid" "ro_argv o' \<noteq> []" "ro_sock o' \<noteq> [] \<or> re_mkdir e" "re_serve e"
    and "snap_path home self \<notin> {sock_path o' pid, status_path o' pid}" "we_mkdir w" "we_failed w = None" "we_rename w"
  shows "fs' (snap_path home self) = Some b"
  using assms(1-6) last_snap [OF assms(7-9), of "snap_path home self" ts b]
  by (auto simp: proxy_process_def run_proxy_def rm_def Let_def split: if_splits)

lemma process_removes:
  assumes "proxy_process e o' home self ticks fs = (code, fs')" "\<And>p. re_remove e p"
    and "re_start e (ro_argv o') (run_size (ro_win o')) = Some pid" "ro_argv o' \<noteq> []" "ro_sock o' \<noteq> [] \<or> re_mkdir e" "re_serve e"
  shows "code = wait_code (re_wait e) \<and> fs' (sock_path o' pid) = None \<and> fs' (status_path o' pid) = None
    \<and> (\<forall>p. p \<notin> {sock_path o' pid, status_path o' pid, snap_path home self, tmp_name (snap_path home self)} \<longrightarrow>
         fs' p = re_during e (fs(sock_path o' pid \<mapsto> [])) p)"
  using assms snaps.publish_others
  by (auto simp: proxy_process_def run_proxy_def rm_def Let_def proxy_exit_def periodic_snaps_def split: if_splits)

lemma swept:
  assumes "\<lparr>de_name = show_nat n @ suf, de_is_dir = False\<rparr> \<in> set ents" "0 < n" "n < 2 ^ 63" "\<not> alive (int n)" "removable (show_nat n @ suf)"
    and "extract_pid (show_nat n @ suf) sufs = Some (int n)"
  shows "show_nat n @ suf \<in> set (sweep_dir alive removable sufs ents)"
  using assms by (force simp: sweep_dir_def List.map_filter_def)

lemma extract_pid_name:
  assumes "0 < n" "n < 2 ^ 63" "(suf, sufs) \<in> {(''.sock'', [''.sock'', ''.status.json'']), (''.status.json'', [''.sock'', ''.status.json'']), (''.snap'', [''.snap''])}"
  shows "extract_pid (show_nat n @ suf) sufs = Some (int n)"
proof -
  have a: "atoi (trim_suffix (show_nat n @ suf) suf) = Some (int n)" using assms(2) by (simp add: atoi_show_nat)
  have "\<not> has_suffix (show_nat n @ ''.status.json'') ''.sock''"
    by (auto simp: has_suffix_def)
  then show ?thesis using assms(1,3) a by auto
qed

text \<open>What a killed process leaves is removed by the sweep of the next one.\<close>

lemma stale_swept:
  assumes "\<lparr>de_name = show_nat n @ suf, de_is_dir = False\<rparr> \<in> set ents" "0 < n" "n < 2 ^ 63" "\<not> alive (int n)" "removable (show_nat n @ suf)"
    and "(suf, sufs) \<in> {(''.sock'', [''.sock'', ''.status.json'']), (''.status.json'', [''.sock'', ''.status.json'']), (''.snap'', [''.snap''])}"
  shows "show_nat n @ suf \<in> set (sweep_dir alive removable sufs ents)"
  by (rule swept [where alive = alive and removable = removable, OF assms(1-5) extract_pid_name [OF assms(2,3,6)]])

section \<open>Claims\<close>


definition demo_run :: run_env where
  "demo_run = \<lparr>re_start = (\<lambda>argv size. Some 7), re_mkdir = True, re_remove = (\<lambda>_. True), re_serve = True,
     re_during = (\<lambda>fs. fs(''x'' \<mapsto> ''y'')), re_wait = WaitCode 3\<rparr>"


end
