(* ===== verification/WrapRun.thy ===== *)
theory WrapRun
  imports ProxyRun
begin

text \<open>
  \<open>claude-master tmux-wrap\<close> around the terminal relay: \<open>WrapStdio\<close> of \<open>internal/ttysync/run_unix.go\<close> and the end of
  \<open>runTmuxWrap\<close>. Opening the pty, starting the child and waiting for it are parameters; the relay is the one of \<open>Pump\<close>.
\<close>

section \<open>How the command ends\<close>

record wrap_env =
  wp_path :: "bytes \<Rightarrow> bool"
  wp_pty :: bool
  wp_start :: bool
  wp_wait :: wait_end

datatype wrap_end = WrapOk | WrapExit int | WrapErr

definition wrap_stdio :: "wrap_env \<Rightarrow> bytes list \<Rightarrow> wrap_end" where
  "wrap_stdio e argv =
     (if argv = [] \<or> \<not> wp_pty e \<or> \<not> wp_start e then WrapErr
      else case wp_wait e of WaitOk \<Rightarrow> WrapOk | WaitCode c \<Rightarrow> WrapExit c | WaitFailed \<Rightarrow> WrapErr)"

definition wrap_status :: "wrap_end \<Rightarrow> int" where
  "wrap_status r = (case r of WrapOk \<Rightarrow> 0 | WrapExit c \<Rightarrow> c | WrapErr \<Rightarrow> 1)"

definition run_tmux_wrap :: "wrap_env \<Rightarrow> bytes list \<Rightarrow> int" where
  "run_tmux_wrap e args =
     (case tmux_wrap_args args wrap_defaults of
        WrapHelp \<Rightarrow> 0
      | WrapRun o' argv \<Rightarrow> if argv = [] \<or> \<not> wp_path e (hd argv) then 2 else wrap_status (wrap_stdio e argv)
      | _ \<Rightarrow> 2)"

section \<open>What the terminal shows\<close>

text \<open>
  The child writes \<open>ds\<close>; when it has ended the pty is closed at once, and of its output the relay has read as many pieces as it
  had come to by then. The next read fails.
\<close>

definition relayed :: "pump_cfg \<Rightarrow> bytes list \<Rightarrow> nat \<Rightarrow> bytes \<Rightarrow> bool" where
  "relayed cfg ds n out \<longleftrightarrow>
     (\<exists>outs p q w. pump_run cfg (concat (take n ds)) outs p Running \<and> pump_step cfg p (EvErr False) True = (q, w, ReadError)
        \<and> out = concat outs @ out_bytes w)"

lemma relayed_run: "relayed cfg ds n out \<Longrightarrow> \<exists>outs q. pump_run cfg (concat (take n ds)) outs q ReadError \<and> out = concat outs"
proof -
  assume "relayed cfg ds n out"
  then obtain outs p q w where r: "pump_run cfg (concat (take n ds)) outs p Running"
      "pump_step cfg p (EvErr False) True = (q, w, ReadError)" "out = concat outs @ out_bytes w"
    unfolding relayed_def by blast
  have "pump_run cfg (concat (take n ds) @ event_data (EvErr False)) (case w of None \<Rightarrow> outs | Some x \<Rightarrow> outs @ [x]) q ReadError"
    by (rule pump_run.step [OF r(1) _ r(2)]) (simp add: enabled_def)
  moreover have "out = concat (case w of None \<Rightarrow> outs | Some x \<Rightarrow> outs @ [x])"
    using r(3) by (simp add: out_bytes_def split: option.split)
  ultimately show ?thesis by (auto simp: event_data_def)
qed

text \<open>Without markers, what the terminal gets is what was read; the rest of the child's output is never shown.\<close>

lemma wrap_shows_read_part:
  "relayed cfg ds n out \<Longrightarrow> \<not> k_sync_wrap cfg \<Longrightarrow> out = concat (take n ds)"
  using relayed_run plain_relay by (metis pump_result.distinct(3))

lemma relayed_exists:
  assumes "list_all (\<lambda>d. d \<noteq> []) ds"
  shows "\<exists>out. relayed cfg ds n out"
proof -
  have "list_all (\<lambda>d. d \<noteq> []) (take n ds)" using assms by (auto simp: list_all_iff dest: in_set_takeD)
  then obtain outs p where "pump_run cfg (concat (take n ds)) outs p Running" using reads_on by blast
  moreover obtain q w where "pump_step cfg p (EvErr False) True = (q, w, ReadError)"
    by (auto simp: pump_step_def split_beta Let_def)
  ultimately show ?thesis unfolding relayed_def by blast
qed

lemma wrap_tail_lost:
  assumes "list_all (\<lambda>d. d \<noteq> []) ds" "n < length ds" "\<not> k_sync_wrap cfg"
  shows "\<exists>out. relayed cfg ds n out \<and> length out < length (concat ds)"
proof -
  obtain out where r: "relayed cfg ds n out" using relayed_exists [OF assms(1)] by blast
  have "concat ds = concat (take n ds) @ concat (drop n ds)" by (metis append_take_drop_id concat_append)
  moreover have "concat (drop n ds) \<noteq> []"
    using assms(1) Cons_nth_drop_Suc [OF assms(2), symmetric] nth_mem [OF assms(2)] by (simp add: list_all_iff)
  ultimately show ?thesis using r wrap_shows_read_part [OF r assms(3)] by (intro exI [of _ out]) simp
qed

end
