(* ===== verification/Clipboard.thy ===== *)
theory Clipboard
  imports Server
begin

text \<open>
  Reading an image from the clipboard of macOS (\<open>internal/client/clipboard.go\<close>): the script that is run and the checks on
  what it has written. Parameters: the outputs of \<open>osascript\<close>, the temporary file, Go's quoting.
\<close>

definition class_name :: "bytes \<Rightarrow> bytes" where
  "class_name c = [CHR 0xC2, CHR 0xAB] @ ''class '' @ c @ [CHR 0xC2, CHR 0xBB]"

text \<open>The class asked for and the code of the format: PNG before JPEG before GIF.\<close>

definition clip_class :: "bytes \<Rightarrow> (bytes \<times> byte) option" where
  "clip_class info =
     (if contains_sub info ''PNGf'' then Some (class_name ''PNGf'', CHR 0x01)
      else if contains_sub info ''JPEG'' then Some (class_name ''JPEG'', CHR 0x02)
      else if contains_sub info ''GIFf'' then Some (class_name ''GIFf'', CHR 0x03)
      else None)"

definition clip_script :: "(bytes \<Rightarrow> bytes) \<Rightarrow> bytes \<Rightarrow> bytes \<Rightarrow> bytes list" where
  "clip_script quote path cls =
     [''-e'', ''set ff to (open for access (POSIX file '' @ quote path @ '') with write permission)'',
      ''-e'', ''set eof ff to 0'',
      ''-e'', ''write (the clipboard as '' @ cls @ '') to ff'',
      ''-e'', ''close access ff'']"

text \<open>\<open>run\<close> gives the content of the file that the script has written, \<open>None\<close> when the script or the reading fails.\<close>

definition read_clipboard_image ::
  "(bytes \<Rightarrow> bytes) \<Rightarrow> bytes option \<Rightarrow> bytes option \<Rightarrow> (bytes list \<Rightarrow> bytes option) \<Rightarrow> (bytes \<times> byte) option" where
  "read_clipboard_image quote info temp run =
     (case info of
        None \<Rightarrow> None
      | Some s \<Rightarrow>
          (case clip_class s of
             None \<Rightarrow> None
           | Some (cls, code) \<Rightarrow>
               (case temp of
                  None \<Rightarrow> None
                | Some path \<Rightarrow>
                    (case run (clip_script quote path cls) of
                       None \<Rightarrow> None
                     | Some b \<Rightarrow> if b = [] \<or> max_image_bytes < length b then None else Some (b, code)))))"

text \<open>The script by which the proxy puts a pasted image into the clipboard; \<open>None\<close> for an unknown extension.\<close>

definition set_clipboard_script :: "(bytes \<Rightarrow> bytes) \<Rightarrow> bytes \<Rightarrow> bytes \<Rightarrow> bytes list option" where
  "set_clipboard_script quote path ext =
     map_option (\<lambda>c. [''-e'', ''set the clipboard to (read (POSIX file '' @ quote path @ '') as '' @ class_name c @ '')''])
       (if ext = ''png'' then Some ''PNGf'' else if ext = ''jpg'' then Some ''JPEG'' else if ext = ''gif'' then Some ''GIFf'' else None)"

text \<open>Every image that is read fits in a frame of the wire format and has a format that the proxy pastes.\<close>

lemma clipboard_image_accepted:
  "read_clipboard_image quote info temp run = Some (b, code) \<Longrightarrow>
   msg_ok (MImage b code) \<and> (\<exists>ext. image_ext_class code = Some ext \<and> set_clipboard_script quote path ext \<noteq> None)"
  by (auto simp: read_clipboard_image_def clip_class_def image_ext_class_def set_clipboard_script_def split: option.splits if_splits)

end
