(* ===== verification/Pipeline.thy ===== *)
theory Pipeline
  imports MonitorProps RemoteProps Producer Server
begin

text \<open>
  From a proxy's status file to the windows of another machine: what a proxy writes (\<open>statuswriter.go\<close>) is merged by the
  monitor into its own status file (\<open>WriteStatus\<close> of \<open>monitor.go\<close>), which the cloud agent mirrors (\<open>runOneCloud\<close>); the
  agent of another machine lists the mirror and reconciles its windows with it (\<open>remotesync.go\<close>). The components meet in JSON
  texts, of which only this is used: decoding gives back the fields that were encoded, and their texts.
\<close>

section \<open>The files between the components\<close>

text \<open>
  The payload of a proxy's status file, encoded; \<open>num\<close> is how a number is encoded. On windows, where a scan cannot see the
  directory of a process, the proxy adds its own: \<open>wd\<close>, when it can be found.
\<close>

definition payload_obj :: "(int \<Rightarrow> bytes) \<Rightarrow> (int \<Rightarrow> any) \<Rightarrow> (bytes \<Rightarrow> nat) \<Rightarrow> os \<Rightarrow> bytes option \<Rightarrow> status_payload \<Rightarrow> obj" where
  "payload_obj fmt num vol_len os wd sp =
     [''pid'' \<mapsto> num (sp_pid sp), ''updated_at'' \<mapsto> AStr (fmt (sp_updated_at sp)), ''is_active'' \<mapsto> ABool (sp_is_active sp)]
     ++ (case wd of
           None \<Rightarrow> Map.empty
         | Some d \<Rightarrow>
             if os = Windows \<and> d \<noteq> [] then [''cwd'' \<mapsto> AStr d, ''short_dir'' \<mapsto> AStr (win_path_base vol_len d)] else Map.empty)
     ++ (case sp_cm_version sp of None \<Rightarrow> Map.empty | Some v \<Rightarrow> [''cm_version'' \<mapsto> AStr v])
     ++ (case sp_usage sp of None \<Rightarrow> Map.empty | Some n \<Rightarrow> [''usage_percent'' \<mapsto> num n])
     ++ (case sp_reset sp of None \<Rightarrow> Map.empty | Some (t, z) \<Rightarrow> [''reset_time'' \<mapsto> AStr t, ''reset_tz'' \<mapsto> AStr z])"

text \<open>\<open>o'\<close> is what decoding gives when \<open>o\<close> was encoded: numbers may change their representation, texts and fields do not.\<close>

definition decodes :: "obj \<Rightarrow> obj \<Rightarrow> bool" where
  "decodes o1 o2 \<longleftrightarrow> (\<forall>k. (o2 k = None) = (o1 k = None) \<and> status_str o2 k = status_str o1 k)"

text \<open>The status files that the monitor reads are those of proxies.\<close>

definition proxy_files :: "('w, 'z) menv_scheme \<Rightarrow> bool" where
  "proxy_files env \<longleftrightarrow> (\<forall>path got. me_status_file env path = Some got \<longrightarrow> (\<exists>fmt num vol_len os wd sp. decodes (payload_obj fmt num vol_len os wd sp) got))"

lemma payload_no_key: "payload_obj fmt num vol_len os wd sp ''key'' = None"
  by (simp add: payload_obj_def map_add_def split: option.splits prod.splits)

lemma status_no_key: "proxy_files env \<Longrightarrow> read_session_status env pid ''key'' = None"
  unfolding read_session_status_def proxy_files_def decodes_def
  by (cases "me_status_file env (me_join env (cf_sessions_dir (me_cfg env)) (show_int pid @ ''.status.json''))")
    (auto, metis payload_no_key)

section \<open>The sessions of the status file\<close>

lemma write_status_keys:
  assumes "proxy_files env"
  shows "map (\<lambda>x. status_str x ''key'') (write_status env mgr ss) = map session_key ss"
  using status_no_key [OF assms] by (simp add: write_status_def status_str_def session_dict_def map_add_def)

lemma session_key_not_Nil: "session_key s \<noteq> []"
  by (simp add: session_key_def)

lemma decoded_keys:
  assumes "list_all2 decodes objs (map map_of ds)"
  shows "map (\<lambda>d. fld d ''key'') ds = map (\<lambda>x. status_str x ''key'') objs"
  using assms by (induction objs "map map_of ds" arbitrary: ds rule: list_all2_induct)
    (auto simp: decodes_def fld_def status_str_def Cons_eq_map_conv)

text \<open>A pass ends by publishing the sessions that are now known, in some order.\<close>

lemma tick_publishes:
  assumes "tick env m = Some m'" "me_scan env = Some ss"
  shows "\<exists>mgr. last (mo_out m') = Monitor.out.WriteStatus (write_status env mgr (map snd (me_order env (mo_known m'))))
    \<and> mo_known m' = current_of (managed_only env ss)"
  using assms by (auto simp: tick_def Let_def emit_def split: prod.splits)

lemma known_keys:
  assumes "fair env"
  shows "(session_key \<circ> snd) ` set (me_order env (current_of ss)) = session_key ` set ss"
proof -
  have o: "set (me_order env (current_of ss)) = set (current_of ss)"
    using assms unfolding fair_def by (metis set_mset_mset)
  have "(session_key \<circ> snd) ` set (current_of ss) = fst ` set (current_of ss)"
    using keyed_current(1) [of ss] by (force simp: keyed_def image_iff)
  then show ?thesis using keyed_current(2) [of ss] by (simp add: o)
qed

text \<open>A document list is what one pass of the monitor published, read back.\<close>

definition published :: "('w, 'z) menv_scheme \<Rightarrow> 'w mon \<Rightarrow> doc list \<Rightarrow> bool" where
  "published env m ds \<longleftrightarrow> (\<exists>m' objs. tick env m = Some m' \<and> last (mo_out m') = Monitor.out.WriteStatus objs
     \<and> list_all2 decodes objs (map map_of ds))"

definition has_keys :: "doc list \<Rightarrow> bool" where
  "has_keys ss \<longleftrightarrow> list_all (\<lambda>s. fld s ''key'' \<noteq> []) ss"

lemma published_keys:
  assumes "published env m ds" "me_scan env = Some ss" "fair env" "proxy_files env"
  shows "has_keys ds \<and> session_doc_key ` set ds = session_key ` set (managed_only env ss)"
proof -
  obtain m' objs where t: "tick env m = Some m'" "last (mo_out m') = Monitor.out.WriteStatus objs"
      "list_all2 decodes objs (map map_of ds)" using assms(1) unfolding published_def by blast
  obtain mgr where p: "objs = write_status env mgr (map snd (me_order env (current_of (managed_only env ss))))"
    using tick_publishes [OF t(1) assms(2)] unfolding t(2) out.inject by (elim exE conjE) simp
  have k: "map (\<lambda>d. fld d ''key'') ds = map (session_key \<circ> snd) (me_order env (current_of (managed_only env ss)))"
    using decoded_keys [OF t(3)] write_status_keys [OF assms(4)] by (simp add: p)
  have n: "\<forall>d \<in> set ds. fld d ''key'' \<noteq> []"
  proof
    fix d
    assume "d \<in> set ds"
    then have "fld d ''key'' \<in> set (map (session_key \<circ> snd) (me_order env (current_of (managed_only env ss))))"
      unfolding k [symmetric] by simp
    then show "fld d ''key'' \<noteq> []" by (auto simp: session_key_not_Nil dest: sym)
  qed
  then have "map session_doc_key ds = map (\<lambda>d. fld d ''key'') ds" by (simp add: session_doc_key_def)
  then have "set (map session_doc_key ds) = set (map (session_key \<circ> snd) (me_order env (current_of (managed_only env ss))))"
    by (simp only: k)
  then show ?thesis using n by (simp only: has_keys_def list_all_iff set_map known_keys [OF assms(3)] simp_thms)
qed

section \<open>The documents in the cloud\<close>

text \<open>Every document of a session of the machine carries its own name as its key.\<close>

definition docs_keyed :: "'w producer_env \<Rightarrow> 'w \<Rightarrow> bool" where
  "docs_keyed e w \<longleftrightarrow> (\<forall>k d. k \<noteq> [] \<longrightarrow> st_get (pe_store e) w (sessions_path (pe_pc e) @ [k]) = Some d \<longrightarrow> fld d ''key'' = k)"

lemma docs_keyed_set:
  assumes "reliable (pe_store e)" "docs_keyed e w" "fld d ''key'' = k"
  shows "docs_keyed e (snd (st_set (pe_store e) False (sessions_path (pe_pc e) @ [k]) d w))"
proof -
  let ?st = "pe_store e" and ?p = "sessions_path (pe_pc e) @ [k]"
  have l: "store_laws ?st" and f: "fst (st_set ?st False ?p d w)" using assms(1) by (auto simp: reliable_def)
  obtain d' where d': "st_get ?st (snd (st_set ?st False ?p d w)) ?p = Some d'" "map_of d' = map_of d"
    using set_same [OF l f] by (auto simp: written_def)
  have "fld d' ''key'' = k" using d'(2) assms(3) by (simp add: fld_def)
  moreover have "st_get ?st (snd (st_set ?st False ?p d w)) (sessions_path (pe_pc e) @ [j]) = st_get ?st w (sessions_path (pe_pc e) @ [j])"
    if "j \<noteq> k" for j using set_other [OF l, of "sessions_path (pe_pc e) @ [j]" ?p] that by simp
  ultimately show ?thesis using assms(2) d'(1) unfolding docs_keyed_def by (metis option.inject)
qed

lemma docs_keyed_other:
  assumes "store_laws (pe_store e)" "\<And>k. p \<noteq> sessions_path (pe_pc e) @ [k]" "docs_keyed e w"
  shows "docs_keyed e (snd (st_set (pe_store e) mrg p d w))"
proof -
  have "st_get (pe_store e) (snd (st_set (pe_store e) mrg p d w)) (sessions_path (pe_pc e) @ [k])
      = st_get (pe_store e) w (sessions_path (pe_pc e) @ [k])" for k
    using set_other [OF assms(1), of "sessions_path (pe_pc e) @ [k]" p] assms(2) [of k, symmetric] by simp
  then show ?thesis using assms(3) by (simp add: docs_keyed_def)
qed

lemma docs_keyed_del:
  assumes "reliable (pe_store e)" "docs_keyed e w"
  shows "docs_keyed e (snd (delete_session (pe_store e) (pe_pc e) k w))"
proof (cases "k = []")
  case False
  let ?st = "pe_store e" and ?p = "sessions_path (pe_pc e) @ [k]"
  have l: "store_laws ?st" and f: "fst (st_del ?st ?p w)" using assms(1) by (auto simp: reliable_def)
  have "st_get ?st (snd (st_del ?st ?p w)) (sessions_path (pe_pc e) @ [j])
      = (if j = k then None else st_get ?st w (sessions_path (pe_pc e) @ [j]))" for j
    using del_same [OF l f] del_other [OF l, of "sessions_path (pe_pc e) @ [j]" ?p] by auto
  then show ?thesis using assms(2) False by (simp add: docs_keyed_def delete_session_def)
qed (simp add: delete_session_def assms(2))

lemma push_doc_key: "push_doc sha json fmt now old s = Some d \<Longrightarrow> fld d ''key'' = fld s ''key''"
  by (auto simp: push_doc_def put_field_def fld_def Let_def split: option.splits if_splits)

lemma push_sessions_keyed:
  assumes "reliable (pe_store e)"
  shows "push_sessions (pe_store e) (push_doc sha json fmt now) (pe_pc e) ss n w = (ok, m, w') \<Longrightarrow> docs_keyed e w \<Longrightarrow> has_keys ss
    \<Longrightarrow> docs_keyed e w'"
proof (induction ss arbitrary: n w)
  case (Cons s ss)
  have k: "session_doc_key s = fld s ''key''" "has_keys ss" using Cons.prems(3) by (simp_all add: session_doc_key_def has_keys_def)
  let ?p = "sessions_path (pe_pc e) @ [session_doc_key s]"
  show ?case
  proof (cases "push_doc sha json fmt now (st_get (pe_store e) w ?p) s")
    case None
    then show ?thesis using Cons.prems(1,2) Cons.IH [OF _ _ k(2)] by simp
  next
    case (Some d)
    have "fst (st_set (pe_store e) False ?p d w)" using assms by (simp add: reliable_def)
    then obtain w1 where x: "st_set (pe_store e) False ?p d w = (True, w1)"
      by (cases "st_set (pe_store e) False ?p d w") simp
    have "docs_keyed e w1"
      using docs_keyed_set [OF assms Cons.prems(2), of d "session_doc_key s"] push_doc_key [OF Some] x k(1) by simp
    then show ?thesis using Cons.prems(1) Cons.IH [OF _ _ k(2)] Some x by simp
  qed
qed simp

lemma push_all_keyed:
  assumes "reliable (pe_store e)" "docs_keyed e w" "has_keys ss"
  shows "docs_keyed e (push_all e now ss w)"
proof -
  obtain ok n w1 where p: "push_sessions (pe_store e) (push_doc (pe_sha e) (pe_json e) (pe_fmt e) now) (pe_pc e) ss 0 w = (ok, n, w1)"
    using prod_cases3 by blast
  have k: "docs_keyed e w1" by (rule push_sessions_keyed [OF assms(1) p assms(2,3)])
  have "docs_keyed e (snd (st_set (pe_store e) True [''pcs'', pe_pc e] d w1))" for d
    using k assms(1) by (intro docs_keyed_other reliable_laws) (simp_all add: sessions_path_def)
  then show ?thesis using k assms(2) by (simp add: push_all_def push_status_def p)
qed

lemma tick_keyed:
  assumes "reliable (pe_store e)" "docs_keyed e (pd_store p)" "has_keys (status_sessions reading)"
  shows "docs_keyed e (pd_store (producer_tick e now reading p))"
proof -
  have "docs_keyed e (foldl (\<lambda>w k. snd (delete_session (pe_store e) (pe_pc e) k w)) w ks)" if "docs_keyed e w" for w ks
    using that docs_keyed_del [OF assms(1)] by (induction ks arbitrary: w) simp_all
  then have d: "docs_keyed e (delete_gone e cur prev w)" if "docs_keyed e w" for w cur prev using that by (simp add: delete_gone_def)
  have a: "docs_keyed e (push_all e now (status_sessions reading) (pd_store p))" by (rule push_all_keyed [OF assms])
  show ?thesis
  proof (cases "is_revoked (pe_store e) (pd_store p) (pe_pc e)")
    case True
    then show ?thesis using assms(2) by (simp add: producer_tick_def)
  next
    case False
    then show ?thesis using d [OF a] by (simp add: producer_tick_def Let_def)
  qed
qed

text \<open>The states of an agent. What others write between two ticks leaves the sessions of this machine alone.\<close>

definition leaves_docs :: "'w producer_env \<Rightarrow> ('w \<Rightarrow> 'w) \<Rightarrow> bool" where
  "leaves_docs e others \<longleftrightarrow> (\<forall>w k. st_get (pe_store e) (others w) (sessions_path (pe_pc e) @ [k])
     = st_get (pe_store e) w (sessions_path (pe_pc e) @ [k]))"

inductive agent_at :: "'w producer_env \<Rightarrow> 'w producer \<Rightarrow> bool" for e where
  start: "own_session_keys (pe_store e) w (pe_pc e) = Some ks \<Longrightarrow> cloud_keys e w \<subseteq> set ks \<Longrightarrow> docs_keyed e w \<Longrightarrow>
     agent_at e (producer_start e w)"
| others: "agent_at e p \<Longrightarrow> leaves_docs e f \<Longrightarrow> agent_at e (p\<lparr>pd_store := f (pd_store p)\<rparr>)"
| tick: "agent_at e p \<Longrightarrow> has_keys (status_sessions reading) \<Longrightarrow> agent_at e (producer_tick e now reading p)"

lemma leaves_docs_keys: "leaves_docs e f \<Longrightarrow> cloud_keys e (f w) = cloud_keys e w \<and> docs_keyed e (f w) = docs_keyed e w"
  by (simp add: leaves_docs_def cloud_keys_def has_key_def docs_keyed_def)

lemma agent_invariant:
  assumes "reliable (pe_store e)" "\<And>ks. set (pe_order e ks) = set ks" "agent_at e p"
  shows "cloud_keys e (pd_store p) \<subseteq> set (pd_prev p) \<and> docs_keyed e (pd_store p)"
  using assms(3)
proof (induction rule: agent_at.induct)
  case (start w ks)
  then show ?case by (simp add: producer_start_def)
next
  case (others p f)
  then show ?case using leaves_docs_keys [OF others(2), of "pd_store p"] by simp
next
  case (tick p reading now)
  then show ?case using tick_mirrors(1) [OF assms(1,2)] tick_keyed [OF assms(1)] by blast
qed

section \<open>The other machine\<close>

text \<open>The listing that another machine gets: the stored documents of this one.\<close>

definition lists_docs :: "'w producer_env \<Rightarrow> 'w \<Rightarrow> obj list \<Rightarrow> bool" where
  "lists_docs e w os \<longleftrightarrow> set os = {map_of d |d. \<exists>k. k \<noteq> [] \<and> st_get (pe_store e) w (sessions_path (pe_pc e) @ [k]) = Some d}"

lemma listed_sids:
  assumes "docs_keyed e w" "lists_docs e w os"
  shows "sess_sid ` set os = cloud_keys e w"
proof -
  have k: "sess_sid (map_of d) = k" if "k \<noteq> []" "st_get (pe_store e) w (sessions_path (pe_pc e) @ [k]) = Some d" for k d
    using assms(1) that by (auto simp: docs_keyed_def sess_sid_def status_str_def fld_def)
  show ?thesis
  proof (intro set_eqI iffI)
    fix k
    assume "k \<in> sess_sid ` set os"
    then obtain d j where "j \<noteq> []" "st_get (pe_store e) w (sessions_path (pe_pc e) @ [j]) = Some d" "k = sess_sid (map_of d)"
      using assms(2) by (auto simp: lists_docs_def)
    then show "k \<in> cloud_keys e w" using k by (auto simp: cloud_keys_def has_key_def)
  next
    fix k
    assume "k \<in> cloud_keys e w"
    then obtain d where d: "k \<noteq> []" "st_get (pe_store e) w (sessions_path (pe_pc e) @ [k]) = Some d"
      by (auto simp: cloud_keys_def has_key_def)
    then have "map_of d \<in> set os" using assms(2) by (auto simp: lists_docs_def)
    then show "k \<in> sess_sid ` set os" using k [OF d] by force
  qed
qed

lemma desired_kept: "mk \<in> fst ` set (fst acc) \<Longrightarrow> mk \<in> fst ` set (fst (foldl (add_desired pc) acc os))"
proof (induction os arbitrary: acc)
  case (Cons o' os)
  have "mk \<in> fst ` set (fst (add_desired pc acc o'))"
    using Cons.prems by (cases acc) (force simp: add_desired_def put_entry_def Let_def)
  then show ?case using Cons.IH by simp
qed simp

lemma desired_added:
  "o' \<in> set os \<Longrightarrow> sess_sid o' \<noteq> [] \<Longrightarrow> attach_marker pc (sess_sid o') \<in> fst ` set (fst (foldl (add_desired pc) acc os))"
proof (induction os arbitrary: acc)
  case (Cons x os)
  show ?case
  proof (cases "x = o'")
    case True
    have "attach_marker pc (sess_sid o') \<in> fst ` set (fst (add_desired pc acc o'))"
      using Cons.prems(2) by (cases acc) (simp add: add_desired_def put_entry_def Let_def)
    then show ?thesis using True desired_kept by simp
  next
    case False
    then show ?thesis using Cons by simp
  qed
qed simp

lemma collect_kept: "collect self ss pcs acc = Some (des, snap) \<Longrightarrow> mk \<in> fst ` set (fst acc) \<Longrightarrow> mk \<in> fst ` set des"
  by (induction self ss pcs acc rule: collect.induct) (auto split: if_splits option.splits intro: desired_kept)

lemma collect_wanted:
  "collect self ss pcs acc = Some (des, snap) \<Longrightarrow> pc \<in> set pcs \<Longrightarrow> pc \<noteq> self \<Longrightarrow> pc \<noteq> [] \<Longrightarrow> ss pc = Some os \<Longrightarrow>
    o' \<in> set os \<Longrightarrow> sess_sid o' \<noteq> [] \<Longrightarrow> attach_marker pc (sess_sid o') \<in> fst ` set des"
proof (induction self ss pcs acc rule: collect.induct)
  case (2 self ss pc' pcs acc)
  show ?case
  proof (cases "pc' = pc")
    case True
    then have "collect self ss pcs (foldl (add_desired pc) acc os) = Some (des, snap)" using 2(3,5-7) by simp
    then show ?thesis by (rule collect_kept) (rule desired_added [OF 2(8,9)])
  next
    case False
    then show ?thesis using 2 by (auto split: if_splits option.splits)
  qed
qed simp

text \<open>
  What the three components do together: the monitor of one machine publishes a pass, the agent mirrors it, and another
  machine reconciles its windows with the listing.
\<close>

lemma session_reaches:
  assumes "published envA m ds" "me_scan envA = Some ss" "fair envA" "proxy_files envA"
    and st: "reliable (pe_store e)" and ord: "\<And>ks. set (pe_order e ks) = set ks"
    and ag: "agent_at e p" and nr: "\<not> is_revoked (pe_store e) (pd_store p) (pe_pc e)"
    and l: "lawful envB wins" "visits envB" and pcs: "rs_pcs envB = Some pcs" "pe_pc e \<in> set pcs"
    and pc: "pe_pc e \<noteq> rs_self envB" "pe_pc e \<noteq> []"
    and os: "rs_sessions envB (pe_pc e) = Some os" "lists_docs e (pd_store (producer_tick e now (Some ds) p)) os"
    and co: "collect (rs_self envB) (rs_sessions envB) pcs ([], []) = Some (des, snap)"
    and cl: "\<forall>(mk, x) \<in> set des. clean mk \<and> clean (short_name (wm_dir x))"
    and br: "length (marked_of (wins w)) \<le> length des * 3 + 8"
    and s: "s \<in> set (managed_only envA ss)"
  shows "card (ids_of wins (attach_marker (pe_pc e) (session_key s)) (snd (reconcile_remote envB w))) = 1"
proof -
  let ?p = "producer_tick e now (Some ds) p"
  note pk = published_keys [OF assms(1-4)]
  note inv = agent_invariant [OF st ord ag]
  have ck: "cloud_keys e (pd_store ?p) = session_key ` set (managed_only envA ss)"
    using tick_mirrors(2) [OF st ord conjunct1 [OF inv] nr, of now "Some ds"] pk by (simp add: status_sessions_def)
  have kd: "docs_keyed e (pd_store ?p)"
    using tick_keyed [OF st conjunct2 [OF inv], of "Some ds" now] pk by (simp add: status_sessions_def)
  have "session_key s \<in> sess_sid ` set os" using ck s by (simp add: listed_sids [OF kd os(2)])
  then obtain x where x: "x \<in> set os" "sess_sid x = session_key s" by auto
  have "sess_sid x \<noteq> []" using session_key_not_Nil x(2) by simp
  note w = collect_wanted [OF co pcs(2) pc os(1) x(1) this, unfolded x(2)]
  show ?thesis
    using conjunct2 [OF reconcile_synced [OF l pcs(1) co cl, of w]] w br unfolding synced_def by simp
qed

text \<open>One session on a machine \<open>b\<close>, whose agent has just started on an empty cloud, and a machine \<open>a\<close> that reads it.\<close>

definition pipe_session :: claude_session where
  "pipe_session = no_session\<lparr>cs_sid := ''7'', cs_cwd := ''/app''\<rparr>"

definition pipe_doc :: "bytes \<Rightarrow> doc" where
  "pipe_doc nm =
     [(''window_name'', AStr nm), (''key'', AStr ''7''), (''mem_mb'', AFloat 0), (''cpu_percent'', AFloat 0), (''start_time'', AStr []),
      (''session_id'', AStr ''7''), (''short_dir'', AStr ''app''), (''cwd'', AStr ''/app''), (''pid'', AInt 0)]"

definition pipe_agent :: "(path \<Rightarrow> doc option) producer_env" where
  "pipe_agent = \<lparr>pe_store = demo_store\<lparr>st_list := \<lambda>w p. Some []\<rparr>, pe_pc = ''b'', pe_sha = id,
     pe_json = (\<lambda>d. concat (map fst d)), pe_fmt = demo_fmt, pe_order = rev\<rparr>"

definition pipe_stored :: "bytes \<Rightarrow> doc" where
  "pipe_stored nm = the (push_doc id (\<lambda>d. concat (map fst d)) demo_fmt 1 None (pipe_doc nm))"

definition pipe_other :: "bytes \<Rightarrow> win list renv" where
  "pipe_other nm = (demo_env (Some [''a'', ''b'']))\<lparr>rs_sessions := \<lambda>pc. Some [map_of (pipe_stored nm)]\<rparr>"

lemma pipe_published:
  "\<exists>nm. published (sample_env cfg (Some [pipe_session]) 0) (start_state two_windows [] [''app'']) [pipe_doc nm]"
proof -
  let ?env = "sample_env cfg (Some [pipe_session]) 0" and ?m = "start_state two_windows [] [''app'']"
  have "tracked (\<lambda>k. has ?m k) (\<lambda>k. pend ?m k) ?m" by (simp add: tracked_def start_state_def notif_def)
  from tick_tracked [OF sample_fair this] obtain m' where t: "tick ?env ?m = Some m'" by blast
  have sc: "me_scan ?env = Some [pipe_session]" by (simp add: sample_env_def)
  obtain mgr where p: "last (mo_out m') = Monitor.out.WriteStatus (write_status ?env mgr (map snd (me_order ?env (mo_known m'))))"
      "mo_known m' = current_of (managed_only ?env [pipe_session])" using tick_publishes [OF t sc] by blast
  have k: "map snd (me_order ?env (mo_known m')) = [pipe_session]"
    unfolding p(2) by (simp add: managed_only_def sample_env_def current_of_def put_entry_def)
  have "list_all2 decodes (write_status ?env mgr [pipe_session]) (map map_of [pipe_doc (window_for mgr ''7'')])"
    by (simp add: decodes_def write_status_def session_dict_def pipe_session_def pipe_doc_def no_session_def session_key_def
        short_dir_def read_session_status_def sample_env_def status_str_def trim_right_set_def)
  then show ?thesis using t p(1) unfolding published_def k by blast
qed

lemma pipe_mirrored:
  "lists_docs pipe_agent (pd_store (producer_tick pipe_agent 1 (Some [pipe_doc nm]) (producer_start pipe_agent Map.empty)))
     [map_of (pipe_stored nm)]"
proof -
  have d: "push_doc id (\<lambda>d. concat (map fst d)) demo_fmt 1 None (pipe_doc nm) = Some (pipe_stored nm)"
    by (simp add: pipe_stored_def push_doc_def Let_def)
  have k: "session_doc_key (pipe_doc nm) = ''7''" by (simp add: session_doc_key_def fld_def pipe_doc_def)
  have "pd_store (producer_tick pipe_agent 1 (Some [pipe_doc nm]) (producer_start pipe_agent Map.empty))
      = [sessions_path ''b'' @ [''7''] \<mapsto> pipe_stored nm, [''pcs'', ''b''] \<mapsto> [(''id'', AStr ''b''), (''updated_at'', AStr (demo_fmt 1))]]"
    by (simp add: producer_tick_def producer_start_def is_revoked_def pipe_agent_def demo_store_def own_session_keys_def
        status_sessions_def push_all_def push_status_def d k delete_gone_def sessions_path_def Let_def)
  then show ?thesis by (simp add: lists_docs_def pipe_agent_def demo_store_def sessions_path_def)
qed

lemma pipe_reliable: "reliable (pe_store pipe_agent)"
  using demo_store_laws by (simp add: reliable_def pipe_agent_def store_laws_def demo_store_def)

lemma pipe_started: "agent_at pipe_agent (producer_start pipe_agent Map.empty)"
  by (rule agent_at.start [of _ _ "[]"])
    (simp_all add: own_session_keys_def pipe_agent_def cloud_keys_def has_key_def docs_keyed_def demo_store_def)

lemma pipe_collected:
  "collect ''a'' (rs_sessions (pipe_other nm)) [''a'', ''b''] ([], []) = Some ([(attach_marker ''b'' ''7'', demo_meta)], [demo_meta])"
  by (simp add: pipe_other_def pipe_stored_def push_doc_def put_field_def pipe_doc_def add_desired_def sess_sid_def status_str_def demo_meta_def put_entry_def Let_def)

end
