(* ===== verification/Watch.thy ===== *)
theory Watch
  imports CloudProps
begin

text \<open>
  The subscriptions of the cloud agent: \<open>WatchSessions\<close>, \<open>WatchWake\<close> and \<open>WatchCommands\<close> of \<open>internal/cloud/state\<close>, each a pump
  over the snapshots of an iterator inside \<open>keepSubscribed\<close>. One subscription is whether the agent was told to end before it,
  after it and while waiting for the next one, with the snapshots that the iterator gives until it fails.
\<close>

section \<open>The loop\<close>

fun pump_snaps :: "('s \<Rightarrow> 'w \<Rightarrow> 'c list \<times> 'w) \<Rightarrow> 's list \<Rightarrow> 'w \<Rightarrow> 'c list \<times> 'w" where
  "pump_snaps f [] w = ([], w)"
| "pump_snaps f (s # ss) w = (case f s w of (cs, w) \<Rightarrow> (case pump_snaps f ss w of (ds, w) \<Rightarrow> (cs @ ds, w)))"

text \<open>The callbacks, the state, and whether the call has returned.\<close>

fun watch :: "('s \<Rightarrow> 'w \<Rightarrow> 'c list \<times> 'w) \<Rightarrow> ((bool \<times> bool \<times> bool) \<times> 's list) list \<Rightarrow> 'w \<Rightarrow> ('c list \<times> 'w) \<times> bool" where
  "watch f [] w = (([], w), False)"
| "watch f (((before, after, during), ss) # its) w =
     (if before then (([], w), True)
      else case pump_snaps f ss w of (cs, w) \<Rightarrow>
        if after \<or> during then ((cs, w), True)
        else case watch f its w of ((ds, w), r) \<Rightarrow> ((cs @ ds, w), r))"

text \<open>Every snapshot of the sessions, also the first one, calls back.\<close>

definition watch_sessions :: "((bool \<times> bool \<times> bool) \<times> unit list) list \<Rightarrow> 'w \<Rightarrow> (unit list \<times> 'w) \<times> bool" where
  "watch_sessions = watch (\<lambda>s w. ([()], w))"

definition watch_wake :: "((bool \<times> bool \<times> bool) \<times> doc option list) list \<Rightarrow> 'w \<Rightarrow> (bytes list \<times> 'w) \<times> bool" where
  "watch_wake = watch (\<lambda>snap w. (case woken snap of None \<Rightarrow> [] | Some sid \<Rightarrow> [sid], w))"

text \<open>A snapshot of the commands is \<open>None\<close> or a list of changes.\<close>

definition watch_commands ::
  "'w store \<Rightarrow> bytes \<Rightarrow> ((bool \<times> bool \<times> bool) \<times> (bool \<times> command option) list option list) list \<Rightarrow> 'w \<Rightarrow> (command list \<times> 'w) \<times> bool" where
  "watch_commands st pc = watch (\<lambda>qs w. case qs of None \<Rightarrow> ([], w)
     | Some chs \<Rightarrow> pump_snaps (\<lambda>ch w. case watch_change st pc ch w of (None, w) \<Rightarrow> ([], w) | (Some cm, w) \<Rightarrow> ([cm], w)) chs w)"

section \<open>What is delivered\<close>

text \<open>The subscriptions that are worked off, the last one included.\<close>

fun served :: "((bool \<times> bool \<times> bool) \<times> 's list) list \<Rightarrow> 's list" where
  "served [] = []"
| "served (((before, after, during), ss) # its) = (if before then [] else if after \<or> during then ss else ss @ served its)"

text \<open>A watch is one pump over all snapshots that are served.\<close>

lemma pump_snaps_append:
  "pump_snaps f (ss @ ts) w = (case pump_snaps f ss w of (cs, w) \<Rightarrow> (case pump_snaps f ts w of (ds, w) \<Rightarrow> (cs @ ds, w)))"
  by (induction ss arbitrary: w) (simp_all split: prod.split)

lemma watch_served: "fst (watch f its w) = pump_snaps f (served its) w"
  by (induction f its w rule: watch.induct) (auto simp: pump_snaps_append split: prod.split)

lemma pump_pure: "pump_snaps (\<lambda>s w. (g s, w)) ss w = (concat (map g ss), w)"
  by (induction ss) simp_all

text \<open>The watch is the loop \<open>keep_subscribed\<close> with its pumps: it returns when that does, which is only when the agent ends.\<close>

lemma watch_returns: "snd (watch f its w) = snd (keep_subscribed bo (map fst its))"
proof (induction its arbitrary: bo w)
  case (Cons it its)
  obtain before after during ss where it: "it = ((before, after, during), ss)" by (metis prod_cases3 surj_pair)
  obtain cs w1 where p: "pump_snaps f ss w = (cs, w1)" by fastforce
  let ?bo = "if watch_backoff_max < bo * 2 then watch_backoff_max else bo * 2"
  have "snd (watch f its w1) = snd (keep_subscribed ?bo (map fst its))" by (rule Cons.IH)
  then show ?case by (simp add: it p Let_def split_beta)
qed simp

text \<open>No wake-up that a snapshot shows is lost.\<close>

lemma wakes_delivered: "fst (fst (watch_wake its w)) = List.map_filter woken (served its)"
proof -
  have "concat (map (\<lambda>s. case woken s of None \<Rightarrow> [] | Some sid \<Rightarrow> [sid]) ss) = List.map_filter woken ss" for ss
    by (induction ss) (simp_all add: List.map_filter_def split: option.split)
  then show ?thesis by (simp add: watch_wake_def watch_served pump_pure)
qed

lemma sessions_delivered: "length (fst (fst (watch_sessions its w))) = length (served its)"
proof -
  have "length (concat (map (\<lambda>s. [()]) ss)) = length ss" for ss :: "unit list" by (induction ss) simp_all
  then show ?thesis by (simp add: watch_sessions_def watch_served pump_pure)
qed

section \<open>Commands are claimed once\<close>

text \<open>A command is no longer waiting: it will not be handed out again.\<close>

definition waiting :: "'w store \<Rightarrow> bytes \<Rightarrow> 'w \<Rightarrow> bytes \<Rightarrow> bool" where
  "waiting st pc w i \<longleftrightarrow> (\<exists>d. st_get st w (cmd_path pc i) = Some d \<and> fld d ''status'' = ''pending'')"

text \<open>What a step does to a table of waiting entries: it hands out some of them, each once, and adds none.\<close>

definition takes :: "('w \<Rightarrow> 'k \<Rightarrow> bool) \<Rightarrow> ('c \<Rightarrow> 'k) \<Rightarrow> 'c list \<Rightarrow> 'w \<Rightarrow> 'w \<Rightarrow> bool" where
  "takes W g cs w w' \<longleftrightarrow> distinct (map g cs) \<and> (\<forall>c \<in> set cs. W w (g c) \<and> \<not> W w' (g c)) \<and> (\<forall>j. W w' j \<longrightarrow> W w j)"

lemma takes_Nil: "(\<And>j. W w' j \<Longrightarrow> W w j) \<Longrightarrow> takes W g [] w w'"
  by (simp add: takes_def)

lemma takes_append: "takes W g cs w w1 \<Longrightarrow> takes W g ds w1 w2 \<Longrightarrow> takes W g (cs @ ds) w w2"
  unfolding takes_def by (auto simp: distinct_append image_iff)

lemma pump_takes:
  assumes "\<And>s w. takes W g (fst (f s w)) w (snd (f s w))"
  shows "takes W g (fst (pump_snaps f ss w)) w (snd (pump_snaps f ss w))"
proof (induction ss arbitrary: w)
  case (Cons s ss)
  have "takes W g (fst (f s w) @ fst (pump_snaps f ss (snd (f s w)))) w (snd (pump_snaps f ss (snd (f s w))))"
    by (rule takes_append [OF assms Cons.IH])
  then show ?case by (simp add: split_beta)
qed (simp add: takes_Nil)

lemma claim_takes:
  assumes "store_laws st"
  shows "takes (waiting st pc) id (if fst (claim_command st pc i w) then [i] else []) w (snd (claim_command st pc i w))"
proof (cases "waiting st pc w i")
  case False
  then have "claim_command st pc i w = (False, w)" by (auto simp: waiting_def claim_command_def split: option.split)
  then show ?thesis by (simp add: takes_Nil)
next
  case True
  let ?p = "cmd_path pc i" and ?d = "[(''status'', AStr ''running'')]"
  have c: "claim_command st pc i w = st_set st True ?p ?d w" using True by (auto simp: waiting_def claim_command_def)
  have o: "waiting st pc (snd (st_set st True ?p ?d w)) j = waiting st pc w j" if "j \<noteq> i" for j
    using set_other [OF assms, of "cmd_path pc j" ?p] that by (simp add: waiting_def cmd_path_def)
  from assms show ?thesis
  proof (rule set_cases [of st True ?p ?d w])
    fix e
    assume e: "st_get st (snd (st_set st True ?p ?d w)) ?p = Some e" "written True ?d (st_get st w ?p) e"
    then have "\<not> waiting st pc (snd (st_set st True ?p ?d w)) i" using fld_merged [OF e(2)] by (simp add: waiting_def)
    then show ?thesis using True o unfolding takes_def c by auto metis+
  next
    assume "\<not> fst (st_set st True ?p ?d w)" "st_get st (snd (st_set st True ?p ?d w)) ?p = st_get st w ?p"
    then show ?thesis using o unfolding takes_def c waiting_def by auto metis+
  qed
qed

lemma change_takes:
  assumes "store_laws st"
  shows "takes (waiting st pc) cmd_id (case fst (watch_change st pc ch w) of None \<Rightarrow> [] | Some cm \<Rightarrow> [cm]) w (snd (watch_change st pc ch w))"
proof -
  obtain removed dec where ch: "ch = (removed, dec)" by (cases ch)
  show ?thesis
  proof (cases "\<not> removed \<and> (\<exists>cm. dec = Some cm \<and> cmd_status cm = ''pending'')")
    case False
    then have "watch_change st pc ch w = (None, w)" by (auto simp: ch watch_change_def split: option.split)
    then show ?thesis by (simp add: takes_Nil)
  next
    case True
    then obtain cm where cm: "\<not> removed" "dec = Some cm" "cmd_status cm = ''pending''" by blast
    obtain ok w1 where c: "claim_command st pc (cmd_id cm) w = (ok, w1)" by fastforce
    then have "watch_change st pc ch w = (if ok then Some (cm\<lparr>cmd_status := ''running''\<rparr>) else None, w1)"
      using cm by (simp add: ch watch_change_def)
    then show ?thesis using claim_takes [OF assms, of pc "cmd_id cm" w] by (simp add: c takes_def)
  qed
qed

text \<open>Over all snapshots of all subscriptions no command is handed out twice, and each was waiting when the watch began.\<close>

lemma commands_claimed_once:
  assumes "store_laws st"
  shows "takes (waiting st pc) cmd_id (fst (fst (watch_commands st pc its w))) w (snd (fst (watch_commands st pc its w)))"
proof -
  let ?g = "\<lambda>ch w. case watch_change st pc ch w of (None, w) \<Rightarrow> ([], w) | (Some cm, w) \<Rightarrow> ([cm], w)"
  have g: "takes (waiting st pc) cmd_id (fst (?g ch w)) w (snd (?g ch w))" for ch w
    using change_takes [OF assms, of pc ch w] by (cases "watch_change st pc ch w"; cases "fst (watch_change st pc ch w)") simp_all
  have "takes (waiting st pc) cmd_id (fst (case qs of None \<Rightarrow> ([], w) | Some chs \<Rightarrow> pump_snaps ?g chs w)) w
      (snd (case qs of None \<Rightarrow> ([], w) | Some chs \<Rightarrow> pump_snaps ?g chs w))" for qs w
    by (cases qs) (simp_all add: takes_Nil pump_takes [OF g])
  from pump_takes [OF this] show ?thesis unfolding watch_commands_def watch_served .
qed

end
