(* ===== verification/Program.thy ===== *)
theory Program
  imports CommandProps Dashboard SelfUpdate SocketClient TmuxRender WrapRun
begin

text \<open>
  The executable as a whole: \<open>main\<close> of \<open>cmd/claude-master/main.go\<close> and the ends of its commands. What a command does is modelled
  in its own theory; here is what becomes of its result, the exit status of the process. \<open>None\<close> is a command that is still
  running after the events that are given.
\<close>

section \<open>The ends of the commands\<close>

definition exit_err :: "bool \<Rightarrow> int" where
  "exit_err err = (if err then 1 else 0)"

definition update_status :: "upd_result \<Rightarrow> int" where
  "update_status r = (case r of Failed _ \<Rightarrow> 1 | UpToDate _ \<Rightarrow> 0 | Updated _ \<Rightarrow> 0)"

text \<open>\<open>claude\<close>: whether the executable that is to be wrapped exists.\<close>

definition proxy_status :: "bool \<Rightarrow> int \<times> bool \<Rightarrow> int" where
  "proxy_status claude r = (if \<not> claude then 1 else case r of (code, err) \<Rightarrow> proxy_exit code err)"

definition socket_client_status :: "(bool \<Rightarrow> bytes \<Rightarrow> run_result) \<Rightarrow> bytes list \<Rightarrow> int" where
  "socket_client_status run args =
     (case socket_client_args args (False, []) of (retry, sock) \<Rightarrow>
        if sock = [] then 2 else exit_err (run retry sock = RunErr))"

text \<open>\<open>RunByKey\<close> fails for the empty key only; else it returns nil, if at all.\<close>

definition attach_key_status :: "(bytes \<Rightarrow> (int \<times> bool \<times> run_result) list) \<Rightarrow> bytes \<Rightarrow> int option" where
  "attach_key_status its key = (if key = [] then Some 1 else map_option (\<lambda>_. 0) (run_by_key None 0 (its key)))"

definition attach_status :: "(bytes \<Rightarrow> (int \<times> bool \<times> run_result) list) \<Rightarrow> bytes list \<Rightarrow> int option" where
  "attach_status its args = (if args = [] then Some 2 else attach_key_status its (hd args))"

text \<open>The last action of \<open>start\<close> decides; \<open>None\<close>: the working directory could not be found.\<close>

definition start_status :: "(bytes \<Rightarrow> (int \<times> bool \<times> run_result) list) \<Rightarrow> start_act list option \<Rightarrow> int option" where
  "start_status its acts =
     (case acts of
        None \<Rightarrow> Some 1
      | Some as \<Rightarrow> (case last as of AttachKey k \<Rightarrow> attach_key_status its k | AttachSock _ \<Rightarrow> Some 0 | _ \<Rightarrow> Some 1))"

definition sessions_status :: "sessions_out \<Rightarrow> int" where
  "sessions_status r = (case r of SessUnknown _ \<Rightarrow> 2 | SessFailed \<Rightarrow> 1 | _ \<Rightarrow> 0)"

text \<open>Of the results of starting and stopping the daemon only the failed start is an error.\<close>

definition daemon_err :: "daemon_result \<Rightarrow> bool" where
  "daemon_err r = (r = StartFailed)"

text \<open>\<open>looped\<close> and \<open>listed\<close>: whether the loop had a tmux, and whether the scan succeeded. The dashboard has no result.\<close>

definition monitor_status :: "(bool \<Rightarrow> daemon_result) \<Rightarrow> bool \<Rightarrow> bool \<Rightarrow> bytes list \<Rightarrow> int" where
  "monitor_status daemon looped listed args =
     (case monitor_command args of
        MonStart \<Rightarrow> exit_err (daemon_err (daemon True))
      | MonStop \<Rightarrow> exit_err (daemon_err (daemon False))
      | MonStatus \<Rightarrow> exit_err (\<not> listed)
      | MonDashboard \<Rightarrow> 0
      | MonRun \<Rightarrow> exit_err (\<not> looped)
      | MonUsage \<Rightarrow> 2)"

definition enroll_status :: "enrolled \<Rightarrow> int" where
  "enroll_status r = (case r of Enrolled _ _ \<Rightarrow> 0 | EnrollFailed EnUsage \<Rightarrow> 2 | EnrollFailed _ \<Rightarrow> 1)"

text \<open>The agent waits for the parts of all clouds, which are those of \<open>fan_out\<close>; their ends are no errors.\<close>

definition agent_status :: "cloud list \<Rightarrow> int" where
  "agent_status clouds = exit_err (clouds = [])"

definition cloud_attach_status :: "attach_end \<times> run_result \<Rightarrow> int" where
  "cloud_attach_status r =
     (case r of (AttachUsage, _) \<Rightarrow> 2 | (AttachRan _, conn) \<Rightarrow> exit_err (conn = RunErr) | _ \<Rightarrow> exit_err True)"

definition cloud_status ::
  "config \<Rightarrow> cloud list \<Rightarrow> (bytes list \<Rightarrow> enrolled) \<Rightarrow> (bytes list \<Rightarrow> attach_end \<times> run_result) \<Rightarrow> bytes list \<Rightarrow> int" where
  "cloud_status cfg clouds enroll attach args =
     (case cloud_command (cf_gcp_project cfg) args of
        CloudEnroll as \<Rightarrow> enroll_status (enroll as)
      | CloudAgentRun \<Rightarrow> agent_status clouds
      | CloudAttach as \<Rightarrow> cloud_attach_status (attach as)
      | CloudDisabled \<Rightarrow> 2
      | CloudUsage \<Rightarrow> 2)"

text \<open>\<open>started\<close>: whether \<open>tmux -CC\<close> could be started.\<close>

definition render_status :: "bool \<Rightarrow> (bytes \<Rightarrow> bytes \<Rightarrow> render_result) \<Rightarrow> bytes list \<Rightarrow> int" where
  "render_status started run args =
     (case tmux_render_args args ([], []) of
        RenderUsage \<Rightarrow> 2
      | RenderHelp \<Rightarrow> 0
      | RenderRun socket session \<Rightarrow>
          if \<not> started then 1
          else (case run socket session of NoHandshake \<Rightarrow> 1 | NoPane _ \<Rightarrow> 1 | Rendered _ _ \<Rightarrow> 0))"

section \<open>\<open>main\<close>\<close>

text \<open>What the commands find and how they end, as far as it depends on the outside.\<close>

record main_env =
  mn_cfg :: config
  mn_update :: upd_result
  mn_claude :: bool
  mn_proxy :: "bytes list \<Rightarrow> int \<times> bool"
  mn_run :: "bool \<Rightarrow> bytes \<Rightarrow> run_result"
  mn_attach :: "bytes \<Rightarrow> (int \<times> bool \<times> run_result) list"
  mn_start :: "bytes list \<Rightarrow> start_act list option"
  mn_listing :: "snap list option"
  mn_daemon :: "bool \<Rightarrow> daemon_result"
  mn_looped :: bool
  mn_listed :: bool
  mn_clouds :: "cloud list"
  mn_enroll :: "bytes list \<Rightarrow> enrolled"
  mn_cloud_attach :: "bytes list \<Rightarrow> attach_end \<times> run_result"
  mn_wrap :: wrap_env
  mn_cc :: bool
  mn_render :: "bytes \<Rightarrow> bytes \<Rightarrow> render_result"

definition main_status :: "main_env \<Rightarrow> bytes list \<Rightarrow> int option" where
  "main_status e args =
     (case dispatch args of
        CmdVersion \<Rightarrow> Some 0
      | CmdConfig \<Rightarrow> Some 0
      | CmdUpdate \<Rightarrow> Some (update_status (mn_update e))
      | CmdProxy as \<Rightarrow> Some (proxy_status (mn_claude e) (mn_proxy e (proxy_argv (mn_cfg e) as)))
      | CmdSocketClient as \<Rightarrow> Some (socket_client_status (mn_run e) as)
      | CmdAttach as \<Rightarrow> attach_status (mn_attach e) as
      | CmdStart as \<Rightarrow> start_status (mn_attach e) (mn_start e as)
      | CmdSessions as \<Rightarrow> Some (sessions_status (run_sessions as (mn_listing e)))
      | CmdMonitor as \<Rightarrow> Some (monitor_status (mn_daemon e) (mn_looped e) (mn_listed e) as)
      | CmdCloud as \<Rightarrow> Some (cloud_status (mn_cfg e) (mn_clouds e) (mn_enroll e) (mn_cloud_attach e) as)
      | CmdTmuxWrap as \<Rightarrow> Some (run_tmux_wrap (mn_wrap e) as)
      | CmdTmuxRender as \<Rightarrow> Some (render_status (mn_cc e) (mn_render e) as)
      | CmdUsage \<Rightarrow> Some 2)"

section \<open>\<open>config\<close>\<close>

text \<open>The lines that are printed; \<open>hex\<close> and \<open>quoted\<close> are the verbs \<open>%#x\<close> and \<open>%q\<close> of \<open>fmt\<close>.\<close>

definition show_bool :: "bool \<Rightarrow> bytes" where
  "show_bool b = (if b then ''true'' else ''false'')"

definition print_config :: "(bytes \<Rightarrow> bytes) \<Rightarrow> (bytes \<Rightarrow> bytes) \<Rightarrow> config \<Rightarrow> bytes list" where
  "print_config hex quoted c =
     [''ConfigFile        = '' @ cf_config_file c, ''SizePolicy        = '' @ cf_size_policy c,
      ''HostFlowScrollbck = '' @ show_bool (cf_host_flow c), ''NavKey            = '' @ hex (cf_nav_key c),
      ''NavScrollStep     = '' @ show_int (cf_nav_scroll c), ''NavPageStep       = '' @ show_int (cf_nav_page c),
      ''PageKeyScroll     = '' @ show_bool (cf_pagekey_scroll c), ''WheelScroll       = '' @ show_bool (cf_wheel_scroll c),
      ''NavWheelStep      = '' @ show_int (cf_nav_wheel c), ''SessionLog        = '' @ quoted (cf_session_log c),
      ''TmuxSession       = '' @ cf_tmux_session c, ''PollInterval      = '' @ show_int (cf_poll_interval c),
      ''IdleGCHours       = '' @ show_int (cf_idle_gc_hours c)]"

section \<open>What the status says\<close>

text \<open>
  \<open>start\<close> ends well exactly when it has attached: by the key of a session, or at the socket of a proxy that accepted the
  connection.
\<close>

definition well_ended :: "start_env \<Rightarrow> start_act list \<Rightarrow> bool" where
  "well_ended e as \<longleftrightarrow> as \<noteq> []
     \<and> (case last as of AttachKey k \<Rightarrow> True | AttachSock pid \<Rightarrow> sn_sock_ok e pid | GiveUp \<Rightarrow> True | _ \<Rightarrow> False)"

lemma live_ended: "well_ended e (attach_live e pid uid)" "well_ended e (a # attach_live e pid uid)"
  by (simp_all add: well_ended_def attach_live_def)

lemma existing_ended: "well_ended e (start_existing e key pid)"
  by (simp add: start_existing_def well_ended_def Let_def split: prod.split option.split)

lemma new_ended: "well_ended e (start_new e)"
proof -
  have g: "well_ended e [a, GiveUp]" "well_ended e [a, AttachKey k]" for a k by (simp_all add: well_ended_def)
  show ?thesis unfolding start_new_def Let_def by (simp add: live_ended g split: prod.split option.split)
qed

lemma start_attached: "well_ended e (run_start e)"
  using existing_ended new_ended unfolding run_start_def by (simp add: well_ended_def split: prod.split option.split)

lemma start_given_up: "start_status its (Some (run_start e)) = Some 1 \<Longrightarrow> last (run_start e) = GiveUp \<or> last (run_start e) = AttachKey []"
  using start_attached [of e]
  by (cases "last (run_start e)") (auto simp: well_ended_def start_status_def attach_key_status_def split: if_splits)

text \<open>A session key whose session ends cleanly, or is gone for ten seconds, is no failure; a failed connection is retried.\<close>

lemma attach_never_fails: "k \<noteq> [] \<Longrightarrow> attach_status its (k # as) \<in> {None, Some 0}"
  by (cases "run_by_key None 0 (its k)") (simp_all add: attach_status_def attach_key_status_def)

text \<open>An update that ends well has left the newest release, verified, or has found it in place.\<close>

lemma update_ended: "update_status (fst (update os ue v fs)) = 0 \<longleftrightarrow> (\<forall>x. fst (update os ue v fs) \<noteq> Failed x)"
  by (simp add: update_status_def split: upd_result.split)

text \<open>
  The agent's own message names the list of clouds as one of two ways to configure it. The command is refused before the list is read
  when no project is set, so the list alone does not enable it.
\<close>

lemma agent_needs_project:
  "cf_gcp_project (mn_cfg e) = [] \<Longrightarrow> mn_clouds e \<noteq> [] \<Longrightarrow> main_status e [''cloud'', ''agent''] = Some 2"
  by (simp add: main_status_def dispatch_def cloud_status_def cloud_command_def)

end
