(* ===== verification/Spec2Isabelle.thy ===== *)
theory Spec2Isabelle
  imports VTClaims Scroll InputKeys Flusher Status Pump CcLayout Diag ServerClaims ClientLoop
    TmuxProps MonitorProps Dashboard RemoteProps AgentProps SelfUpdate CommandProps TmuxRender WrapRun Clipboard Pipeline Watch Program
begin

text \<open>
  Verification library for claude-master-go, a multiplexer and remote-control daemon for claude terminal sessions.

  The program. Every claude runs under a proxy process (\<open>claude-master proxy\<close>). The proxy owns claude's pty, feeds claude's
  output to a model of the screen, and draws that screen on the host terminal and for every client of its unix socket; it
  turns the keys of the host and the frames of the clients into claude's input, scrolls its own history, holds back half-drawn
  screens, writes a session log, a status file and a snapshot for diagnosis. The monitor (\<open>claude-master monitor\<close>) scans for
  claude processes, keeps one tmux window per session, publishes a status file and resumes paused sessions when their usage
  limit is reset. The cloud agent (\<open>claude-master cloud agent\<close>) mirrors that status file into Firestore, opens data lines on
  request, executes remote commands and gives the sessions of other machines windows in the local tmux. \<open>start\<close> and \<open>attach\<close>
  find a session and connect to its proxy; \<open>tmux-wrap\<close> and \<open>tmux-render\<close> relay the output of tmux to a terminal; \<open>update\<close>
  replaces the executable. The processes meet in files (status, snapshots, the list of clouds), in sockets and in tmux.

  Conventions. Go's strings and byte slices are char lists and its integers are \<open>int\<close>, wrapped by \<open>i64\<close> or kept as words where
  overflow can matter. A run-time panic is \<open>None\<close>, an error the left side of a sum or a constructor of its own. A goroutine is a
  constructor of events of a step relation, a mutex-protected operation one step. What a function writes is returned: as a list
  of effects, a state, or a map of files. Code that is not the program's is an argument: the operating system, the clock,
  tmux (\<open>tm\<close> of \<open>Tmux\<close>), Firestore (the record \<open>store\<close> of \<open>CloudState\<close>), JSON and TOML coding, hashes, the time-zone
  database, the width of characters, and the order in which Go visits a map. What is assumed of tmux and of Firestore is stated
  once, in \<open>tmux_laws\<close> (\<open>RemoteProps\<close>) and \<open>store_laws\<close> (\<open>CloudProps\<close>), each with a concrete instance.

  Theories, under \<open>src/\<close>:

  \<^item> \<open>Prelude\<close>, \<open>GoStrings\<close>, \<open>GoUtf8\<close>, \<open>GoPath\<close>: what is used of Go's language and standard library - slices, \<open>strings\<close>, \<open>strconv\<close>,
    \<open>unicode/utf8\<close>, \<open>path/filepath\<close> - with the lemmas that the components share. \<open>Codec\<close> holds the contract of decoders that are fed in
    pieces (locales \<open>chunk_decoder\<close>, \<open>frame_codec\<close>); \<open>AtomicFile\<close> that of files that are published by a rename (\<open>atomic_writer\<close>).
  \<^item> \<open>VT\<close>, \<open>VTWf\<close>, \<open>VTFeed\<close>, \<open>VTProps\<close>, \<open>VTClaims\<close>: \<open>internal/screen/vt.go\<close>; \<open>Scroll\<close>: \<open>scroll.go\<close>; \<open>InputKeys\<close>: \<open>input.go\<close>; \<open>Flusher\<close>: \<open>flush.go\<close>
    (locale \<open>history_source\<close>, of which the screen is the instance); \<open>Status\<close>: \<open>status.go\<close>.
  \<^item> \<open>AnsiSync\<close>: \<open>internal/ttysync/ansi.go\<close>, \<open>syncwrap.go\<close>; \<open>Pump\<close>: \<open>wrap.go\<close>; \<open>WrapRun\<close>: \<open>run_unix.go\<close> and \<open>cmd/claude-master/tmuxwrap.go\<close>.
  \<^item> \<open>CcProtocol\<close>: \<open>internal/tmuxcc/protocol.go\<close>, \<open>input.go\<close>, \<open>renderer.go\<close>, \<open>client_unix.go\<close>; \<open>CcLayout\<close>: \<open>layout.go\<close>; \<open>TmuxRender\<close>:
    \<open>cmd/claude-master/tmuxrender_unix.go\<close>.
  \<^item> \<open>ClientWire\<close>: the frames between clients and proxy; \<open>Server\<close>, \<open>ServerProps\<close>, \<open>ServerClaims\<close>: \<open>internal/ptyproxy/server.go\<close>,
    \<open>sessionlog.go\<close>, \<open>statuswriter.go\<close>; \<open>HostInput\<close>: the keyboard contract (locales \<open>key_reader\<close>, \<open>key_readers\<close>) and its instance on the
    host terminal; \<open>SocketClient\<close>, \<open>ClientLoop\<close>: \<open>internal/client\<close>, the contract's second instance; \<open>Clipboard\<close>: the clipboard scripts on
    both sides; \<open>Diag\<close>: \<open>internal/diag\<close>; \<open>ProxyRun\<close>: \<open>run.go\<close>, \<open>proxy.go\<close> and \<open>runProxy\<close>, the life of the whole process.
  \<^item> \<open>Scanner\<close>: \<open>internal/scanner\<close>; \<open>Tmux\<close>, \<open>TmuxProps\<close>: \<open>internal/tmux\<close>; \<open>Config\<close>: \<open>internal/config\<close>; \<open>LimitResume\<close>: \<open>internal/monitor/limit.go\<close>,
    \<open>resume.go\<close>; \<open>Monitor\<close>, \<open>MonitorProps\<close> (locale \<open>keyed_table\<close>, kept by three views of the monitor's state), \<open>Dashboard\<close>:
    \<open>internal/monitor/monitor.go\<close>.
  \<^item> \<open>CloudState\<close>, \<open>CloudProps\<close>, \<open>Watch\<close>: \<open>internal/cloud/state\<close>; \<open>RemoteSync\<close>, \<open>RemoteProps\<close>: \<open>internal/cloud/agent/remotesync.go\<close>; \<open>CloudAgent\<close>,
    \<open>AgentProps\<close>: the rest of \<open>internal/cloud/agent\<close> and \<open>internal/cloud/relay\<close>; \<open>Producer\<close>: the mirror loop of \<open>runOneCloud\<close>; \<open>Enroll\<close>:
    \<open>cloud enroll\<close>; \<open>SelfUpdate\<close>: \<open>internal/selfupdate\<close>; \<open>Pipeline\<close>: the way of a session from a proxy's status file through the
    monitor, the mirror and the cloud to a window of another machine.
  \<^item> \<open>StartCmd\<close>: \<open>cmd/claude-master/start.go\<close>; \<open>Commands\<close>, \<open>CommandProps\<close>: the other commands of \<open>cmd/claude-master\<close>; \<open>Program\<close>: the
    exit status of each and \<open>main\<close>.

  What the lemmas show. Screen: \<open>feed\<close> keeps the invariant \<open>vt_wf\<close>, is independent of the cuts of the stream, panics only on a scroll
  region outside the screen, and its history is append-only. Proxy: an invariant of all runs of clients, reads, timers and keys; whole
  frames only, none while claude draws, the held one always shown later; the log and the keys are exact. Relay and codecs: nothing
  lost, nothing reordered, independent of the cuts. Monitor: the windows follow the sessions in every reachable state, creation is
  bounded. Monitor, mirror and remote windows together: a session reaches the other machines. Cloud: the stored documents agree with the local sessions, grants admit exactly whom they name, commands run once. Windows of
  remote sessions: exactly one each after a pass. Processes: nothing is resumed twice, killed only when it can be resumed,
  replaced only by what was verified.

  Bounds and fuel. Loops that can go on for ever are step relations or run over the list of what happens to them, so a property of
  all runs quantifies over that list; the other loops are structural or have a measure. \<open>parse_frames\<close>, \<open>strip_sync_markers\<close> and the
  layout parser consume at least a byte per call and terminate by the length of the input; the stack buffer of a dump grows by
  doubling to 8 MiB; connecting stops after 30 attempts and killing after 30 polls, the constants of the code. There is no fuel.

  Not modelled. The pty back ends and process attributes (\<open>internal/ptyproxy/proxy_unix.go\<close>, \<open>proxy_windows.go\<close>, \<open>sysproc\<close> files,
  \<open>internal/monitor/daemon\<close> and \<open>proc\<close> files, \<open>internal/diag/signals\<close> files, \<open>cmd/claude-master/winch\<close> files): calls of the operating
  system, whose results are arguments here. \<open>internal/screen/vt10x.go\<close>: a wrapper of a third-party terminal used by tests only. The
  windows stubs \<open>internal/ttysync/run_windows.go\<close>, \<open>internal/tmuxcc/client_windows.go\<close>, \<open>cmd/claude-master/tmuxrender_windows.go\<close>: they
  only return an error. \<open>cmd/cm-webe2e\<close>: a test driver. Opening Firestore and websocket connections, the iterators of snapshots
  (what they give is the input of \<open>Watch\<close>), raw mode, the texts of help and messages, and debug output.
\<close>

section \<open>From one machine to another\<close>

text \<open>C3: A session that the monitor of one machine sees reaches the others. Let a pass of the monitor publish its status file, in
  whatever order it visits the sessions and whatever the proxies wrote into theirs; let the agent, in any state that starting,
  earlier ticks and foreign writes elsewhere in the cloud can bring about, mirror that file while its machine is not revoked; and let
  another machine list the mirror and reconcile its windows, fewer of them than trip the brake on new ones. Then that machine has exactly
  one window attached to every session that has a proxy. JSON coding gives back the fields and texts that went in, the store does
  what \<open>reliable\<close> and tmux what \<open>lawful\<close> says, and names have no line breaks or blanks at their end.\<close>

theorem session_reaches_other_machine:
  assumes "published envA m ds" "me_scan envA = Some ss" "fair envA" "proxy_files envA"
    and "reliable (pe_store e)" "\<And>ks. set (pe_order e ks) = set ks"
    and "agent_at e p" "\<not> is_revoked (pe_store e) (pd_store p) (pe_pc e)"
    and "lawful envB wins" "visits envB" "rs_pcs envB = Some pcs" "pe_pc e \<in> set pcs"
    and "pe_pc e \<noteq> rs_self envB" "pe_pc e \<noteq> []"
    and "rs_sessions envB (pe_pc e) = Some os" "lists_docs e (pd_store (producer_tick e now (Some ds) p)) os"
    and "collect (rs_self envB) (rs_sessions envB) pcs ([], []) = Some (des, snap)"
    and "\<forall>(mk, x) \<in> set des. clean mk \<and> clean (short_name (wm_dir x))"
    and "length (marked_of (wins w)) \<le> length des * 3 + 8"
    and "s \<in> set (managed_only envA ss)"
  shows "card (ids_of wins (attach_marker (pe_pc e) (session_key s)) (snd (reconcile_remote envB w))) = 1"
  using assms by (rule session_reaches)

theorem session_reaches_other_machine_witness:
  "\<exists>nm. card (ids_of demo_wins (attach_marker ''b'' ''7'') (snd (reconcile_remote (pipe_other nm) []))) = 1"
proof -
  let ?envA = "sample_env demo_config (Some [pipe_session]) 0"
  obtain nm where pb: "published ?envA (start_state two_windows [] [''app'']) [pipe_doc nm]" using pipe_published by blast
  note l = demo_lawful [of "Some [''a'', ''b'']"]
  have "card (ids_of demo_wins (attach_marker (pe_pc pipe_agent) (session_key pipe_session))
      (snd (reconcile_remote (pipe_other nm) []))) = 1"
  proof (rule session_reaches_other_machine [OF pb _ sample_fair _ _ _ pipe_started _ _ _ _ _ _ _ _ pipe_mirrored])
    show "collect (rs_self (pipe_other nm)) (rs_sessions (pipe_other nm)) [''a'', ''b''] ([], [])
        = Some ([(attach_marker ''b'' ''7'', demo_meta)], [demo_meta])"
      using pipe_collected by (simp add: pipe_other_def RemoteProps.demo_env_def del: collect.simps)
    show "\<forall>(mk, x) \<in> set [(attach_marker ''b'' ''7'', demo_meta)]. clean mk \<and> clean (short_name (wm_dir x))"
      using demo_clean by (simp add: demo_meta_def)
    show "reliable (pe_store pipe_agent)" by (rule pipe_reliable)
    show "me_scan ?envA = Some [pipe_session]" by (simp add: sample_env_def)
    show "pipe_session \<in> set (managed_only ?envA [pipe_session])" by (simp add: managed_only_def sample_env_def)
    show "lawful (pipe_other nm) demo_wins" "visits (pipe_other nm)"
      using l by (simp_all add: pipe_other_def lawful_def visits_def)
  qed (simp_all add: sample_env_def proxy_files_def pipe_agent_def is_revoked_def producer_start_def demo_store_def pipe_other_def
      RemoteProps.demo_env_def demo_wins_def good_wins_def marked_of_def)
  then show ?thesis by (auto simp: pipe_agent_def pipe_session_def session_key_def)
qed

section \<open>Files that other processes read\<close>

text \<open>C21: The snapshot and the status file of a proxy, the monitor's status file and the snapshot of the remote windows are read by
  other processes while they are written again and again. Whenever the writer is killed, between two calls of the system or in the
  middle of one, and whichever of its calls failed, the file holds one whole version: the one found at the start, or one
  that was published since.\<close>

theorem published_files_whole:
  "killed_at k n (periodic_snaps interval path ws) fs path \<in> insert (fs path) (Some ` snd ` set ws)
    \<and> killed_at k n (publish put_status path ws) fs path \<in> insert (fs path) (Some ` snd ` set ws)
    \<and> killed_at k n (publish put_status_file path ws) fs path \<in> insert (fs path) (Some ` snd ` set ws)
    \<and> killed_at k n (publish write_snapshot path ws) fs path \<in> insert (fs path) (Some ` snd ` set ws)"
  using snaps.always_whole [of k n path ws fs] statuses.always_whole [of k n path ws fs]
    status_file.always_whole [of k n path ws fs] remote_snap.always_whole [of k n path ws fs]
  by (simp add: periodic_snaps_def)

end
